(* ===== verification/Wss_Prelude.thy ===== *)
theory Wss_Prelude
  imports Main "HOL-Library.Word"
begin

text \<open>
  Shared vocabulary of the development: Rust's unsigned integers as words, byte slices as lists,
  the byte orders of \<open>to_be_bytes\<close>, \<open>from_be_bytes\<close>, \<open>to_ne_bytes\<close> and \<open>from_ne_bytes\<close>, Rust's
  \<open>Result\<close> as a sum type, and the generic lemmas on words, byte lists and list splitting that the
  component theories use.
\<close>

unbundle bit_operations_syntax

section \<open>Types\<close>

type_synonym u8 = "8 word"
type_synonym u16 = "16 word"
type_synonym u32 = "32 word"
type_synonym u64 = "64 word"

text \<open>\<open>usize\<close> where it wraps around, on a 64-bit target; a slice length is a \<open>nat\<close>.\<close>

type_synonym usize = "64 word"

text \<open>\<open>&[u8]\<close>, \<open>Vec<u8>\<close>, \<open>Bytes\<close> and \<open>BytesMut\<close> are all byte lists; a \<open>&str\<close> or a \<open>String\<close> is the
  list of its UTF-8 bytes, as in memory.\<close>

type_synonym bytes = "u8 list"
type_synonym str = "u8 list"

text \<open>\<open>cfg!(target_endian)\<close>: the byte order of the machine the crate is compiled for.\<close>

datatype endian = Little | Big

text \<open>Facts that evaluate or normalise byte encodings, and facts about list splitting.\<close>

named_theorems byte_simps
named_theorems slice_simps

section \<open>Byte orders\<close>

primrec le_word :: "bytes \<Rightarrow> 'a::len word" where
  "le_word [] = 0"
| "le_word (b # bs) = ucast b OR push_bit 8 (le_word bs)"

primrec le_bytes :: "nat \<Rightarrow> 'a::len word \<Rightarrow> bytes" where
  "le_bytes 0 w = []"
| "le_bytes (Suc n) w = ucast w # le_bytes n (drop_bit 8 w)"

definition be_word :: "bytes \<Rightarrow> 'a::len word" where
  "be_word bs = le_word (rev bs)"

definition be_bytes :: "nat \<Rightarrow> 'a::len word \<Rightarrow> bytes" where
  "be_bytes n w = rev (le_bytes n w)"

definition ne_word :: "endian \<Rightarrow> bytes \<Rightarrow> 'a::len word" where
  "ne_word e bs = (case e of Little \<Rightarrow> le_word bs | Big \<Rightarrow> be_word bs)"

definition ne_bytes :: "endian \<Rightarrow> nat \<Rightarrow> 'a::len word \<Rightarrow> bytes" where
  "ne_bytes e n w = (case e of Little \<Rightarrow> le_bytes n w | Big \<Rightarrow> be_bytes n w)"

lemma length_le_bytes [simp]: "length (le_bytes n w) = n"
  by (induction n arbitrary: w) auto

lemma length_be_bytes [simp]: "length (be_bytes n w) = n"
  by (simp add: be_bytes_def)

lemma length_ne_bytes [simp]: "length (ne_bytes e n w) = n"
  by (simp add: ne_bytes_def split: endian.split)

lemma le_bytes_nth: "i < n \<Longrightarrow> le_bytes n w ! i = ucast (drop_bit (8 * i) w)"
proof (induction n arbitrary: w i)
  case (Suc n)
  then show ?case
    by (cases i) (simp_all add: drop_bit_drop_bit add.commute)
qed simp

lemma bit_le_word:
  "bit (le_word bs :: 'a::len word) n \<longleftrightarrow>
     n < LENGTH('a) \<and> n < 8 * length bs \<and> bit (bs ! (n div 8)) (n mod 8)"
proof (induction bs arbitrary: n)
  case (Cons b bs)
  show ?case
  proof (cases "n < 8")
    case True
    then show ?thesis
      by (auto simp: bit_simps)
  next
    case False
    then obtain m where m: "n = m + 8"
      by (metis add.commute le_Suc_ex not_less)
    have "\<not> bit b n"
      using False by (auto dest: bit_imp_le_length)
    moreover have "(m + 8) div 8 = Suc (m div 8)"
      by simp
    ultimately show ?thesis
      by (auto simp: bit_simps Cons.IH m)
  qed
qed simp

lemma le_word_le_bytes: "le_word (le_bytes n w) = take_bit (8 * n) w"
proof (rule bit_word_eqI)
  fix i
  assume "i < LENGTH('a)"
  show "bit (le_word (le_bytes n w) :: 'a word) i = bit (take_bit (8 * n) w) i"
  proof (cases "i < 8 * n")
    case True
    then have "i div 8 < n" by auto
    then show ?thesis
      using True \<open>i < LENGTH('a)\<close>
      by (auto simp: bit_le_word le_bytes_nth bit_simps)
  qed (auto simp: bit_le_word bit_simps)
qed

lemma le_word_le_bytes_full [simp]:
  "8 * n = LENGTH('a) \<Longrightarrow> le_word (le_bytes n w) = (w :: 'a::len word)"
  by (simp add: le_word_le_bytes)

lemma le_bytes_le_word:
  assumes "length bs = n" and "8 * n \<le> LENGTH('a)"
  shows "le_bytes n (le_word bs :: 'a::len word) = bs"
proof (rule nth_equalityI)
  fix i
  assume "i < length (le_bytes n (le_word bs :: 'a word))"
  then have i: "i < n" by simp
  show "le_bytes n (le_word bs :: 'a word) ! i = bs ! i"
  proof (rule bit_word_eqI)
    fix k
    assume k: "k < LENGTH(8)"
    then have "(8 * i + k) div 8 = i" "(8 * i + k) mod 8 = k" "8 * i + k < 8 * n"
      using i by auto
    then show "bit (le_bytes n (le_word bs :: 'a word) ! i) k = bit (bs ! i) k"
      using i k assms by (auto simp: le_bytes_nth bit_simps bit_le_word)
  qed
qed (simp add: assms)

lemma be_word_be_bytes [simp]:
  "8 * n = LENGTH('a) \<Longrightarrow> be_word (be_bytes n w) = (w :: 'a::len word)"
  by (simp add: be_word_def be_bytes_def)

lemma be_bytes_be_word:
  "length bs = n \<Longrightarrow> 8 * n \<le> LENGTH('a) \<Longrightarrow> be_bytes n (be_word bs :: 'a::len word) = bs"
  by (simp add: be_word_def be_bytes_def le_bytes_le_word)

lemma ne_bytes_ne_word:
  "length bs = n \<Longrightarrow> 8 * n \<le> LENGTH('a) \<Longrightarrow> ne_bytes e n (ne_word e bs :: 'a::len word) = bs"
  by (simp add: ne_word_def ne_bytes_def le_bytes_le_word be_bytes_be_word split: endian.split)

lemma ne_word_ne_bytes:
  "8 * n = LENGTH('a) \<Longrightarrow> ne_word e (ne_bytes e n w) = (w :: 'a::len word)"
  by (simp add: ne_word_def ne_bytes_def split: endian.split)

lemma ucast_xor: "ucast (v XOR w) = (ucast v XOR ucast w :: 'b::len word)"
  by (rule bit_word_eqI) (auto simp: bit_simps)

lemma le_bytes_xor: "le_bytes n (v XOR w) = map2 (XOR) (le_bytes n v) (le_bytes n w)"
  by (induction n arbitrary: v w) (simp_all add: ucast_xor)

lemma be_bytes_xor: "be_bytes n (v XOR w) = map2 (XOR) (be_bytes n v) (be_bytes n w)"
  by (simp add: be_bytes_def le_bytes_xor rev_map zip_rev)

lemma ne_bytes_xor: "ne_bytes e n (v XOR w) = map2 (XOR) (ne_bytes e n v) (ne_bytes e n w)"
  by (simp add: ne_bytes_def le_bytes_xor be_bytes_xor split: endian.split)

section \<open>Casts\<close>

text \<open>\<open>as u8\<close>, \<open>as u16\<close>, \<open>as u64\<close>: a narrowing cast keeps the low bits, a widening one the value.\<close>

lemma unat_ucast: "unat (ucast w :: 'b::len word) = unat w mod 2 ^ LENGTH('b)"
  by (simp add: unsigned_ucast_eq take_bit_eq_mod)

lemma ucast_ucast_id:
  "unat w < 2 ^ LENGTH('b) \<Longrightarrow> ucast (ucast w :: 'b::len word) = (w :: 'a::len word)"
  by (rule word_unat_eq_iff [THEN iffD2]) (simp add: unat_ucast)

section \<open>Single bits\<close>

lemma u8_eq_iff:
  "a = (b :: u8) \<longleftrightarrow>
     bit a 0 = bit b 0 \<and> bit a 1 = bit b 1 \<and> bit a 2 = bit b 2 \<and> bit a 3 = bit b 3 \<and>
     bit a 4 = bit b 4 \<and> bit a 5 = bit b 5 \<and> bit a 6 = bit b 6 \<and> bit a 7 = bit b 7"
    (is "_ \<longleftrightarrow> ?bits")
proof
  assume bits: ?bits
  show "a = b"
  proof (rule bit_word_eqI)
    fix n
    assume "n < LENGTH(8)"
    then have "n = 0 \<or> n = 1 \<or> n = 2 \<or> n = 3 \<or> n = 4 \<or> n = 5 \<or> n = 6 \<or> n = 7"
      by auto
    then show "bit a n = bit b n"
      using bits by (elim disjE) simp_all
  qed
qed simp

text \<open>The top bit of a word says whether the word is in the upper half of its range.\<close>

lemma bit_top_iff:
  assumes "n + 1 = LENGTH('a)"
  shows "bit (w :: 'a::len word) n \<longleftrightarrow> 2 ^ n \<le> unat w"
proof -
  have lt: "unat w < 2 ^ (n + 1)"
    using assms unsigned_less [of w] by simp
  have "bit w n \<longleftrightarrow> bit (unat w) n"
    by (simp add: bit_unsigned_iff)
  also have "\<dots> \<longleftrightarrow> odd (unat w div 2 ^ n)"
    by (simp add: bit_iff_odd)
  also have "\<dots> \<longleftrightarrow> 2 ^ n \<le> unat w"
  proof (cases "2 ^ n \<le> unat w")
    case True
    then have "unat w div 2 ^ n = 1"
      using lt by (simp add: div_nat_eqI)
    then show ?thesis
      using True by simp
  qed simp
  finally show ?thesis .
qed

lemma u8_bit_7 [byte_simps]: "(b :: u8) AND 0x80 = 0 \<longleftrightarrow> \<not> bit b 7"
  using and_exp_eq_0_iff_not_bit [of b 7] by simp

lemma u8_rsv_bits [byte_simps]: "(b :: u8) AND 0x70 = 0 \<longleftrightarrow> \<not> bit b 4 \<and> \<not> bit b 5 \<and> \<not> bit b 6"
  by (auto simp: u8_eq_iff [of "b AND 0x70"] bit_simps)

lemma u8_low_half: "(b :: u8) \<le> 127 \<longleftrightarrow> \<not> bit b 7"
  using bit_top_iff [of 7 b] by (auto simp: word_le_nat_alt)

lemma u64_bit_63 [byte_simps]: "(v :: u64) AND 0x8000000000000000 = 0 \<longleftrightarrow> v < 2 ^ 63"
  using and_exp_eq_0_iff_not_bit [of v 63] bit_top_iff [of 63 v]
  by (auto simp: word_less_nat_alt)

text \<open>A byte split at its top bit, and at its top four bits, and put together again.\<close>

lemma u8_join_flag: "(if b AND 0x80 \<noteq> 0 then 0x80 else 0) OR (b AND 0x7F) = (b :: u8)"
  by (auto simp: byte_simps u8_eq_iff bit_simps)

lemma u8_join_nibble:
  "b AND 0x70 = 0 \<Longrightarrow> (if b AND 0x80 \<noteq> 0 then 0x80 else 0) OR (b AND 0x0F) = (b :: u8)"
  by (auto simp: byte_simps u8_eq_iff bit_simps)

lemma u8_split_flag:
  assumes "l \<le> (127 :: u8)"
  shows "((if m then 0x80 else 0) OR l) AND 0x7F = l"
    and "((if m then 0x80 else 0) OR l) AND 0x80 \<noteq> 0 \<longleftrightarrow> m"
  using assms unfolding u8_low_half by (auto simp: byte_simps u8_eq_iff bit_simps)

section \<open>Slices\<close>

lemma take_drop_nth: "c + n \<le> length xs \<Longrightarrow> take n (drop c xs) = map (\<lambda>i. xs ! (c + i)) [0..<n]"
  by (rule nth_equalityI) auto

lemma two_elements: "2 \<le> length xs \<Longrightarrow> \<exists>a b rest. xs = a # b # rest"
  by (cases xs; cases "tl xs") auto

end
