(* ===== verification/Mask.thy ===== *)
theory Mask
  imports Wss_Prelude
begin

text \<open>
  Payload masking (\<open>src/src/proto/mask.rs\<close>). \<open>mask_apply\<close> is the word-at-a-time routine of the
  crate, for either byte order of the target; \<open>mask_reference\<close> is the byte loop of RFC 6455 that the
  crate's own tests compare it with. The routine is shown equal to the byte loop for every payload,
  key and offset, which gives that masking is an involution and that it may be applied piecewise.
\<close>

section \<open>Definitions\<close>

text \<open>\<open>pub type Mask = [u8; 4]\<close>.\<close>

type_synonym mask_key = "u8 \<times> u8 \<times> u8 \<times> u8"

definition key_bytes :: "mask_key \<Rightarrow> bytes" where
  "key_bytes k = (case k of (a, b, c, d) \<Rightarrow> [a, b, c, d])"

text \<open>The loop over \<open>chunks_exact_mut(8)\<close>: each whole chunk is xored with the word, a shorter
  remainder is left as it is.\<close>

function mask_chunks :: "endian \<Rightarrow> u64 \<Rightarrow> bytes \<Rightarrow> bytes" where
  "mask_chunks e word bs =
     (if length bs < 8 then bs
      else ne_bytes e 8 (ne_word e (take 8 bs) XOR word) @ mask_chunks e word (drop 8 bs))"
  by pat_completeness auto
termination
  by (relation "measure (\<lambda>(e, word, bs). length bs)") auto

declare mask_chunks.simps [simp del]

text \<open>The loop over the tail: byte \<open>i\<close> is xored with \<open>rotated[i & 3]\<close>.\<close>

definition mask_tail :: "bytes \<Rightarrow> bytes \<Rightarrow> bytes" where
  "mask_tail rotated tail = map2 (\<lambda>i b. b XOR rotated ! (i AND 3)) [0..<length tail] tail"

definition rotate_key :: "endian \<Rightarrow> mask_key \<Rightarrow> usize \<Rightarrow> u32" where
  "rotate_key e key offset =
     (let shift = unat (offset AND 3) * 8; native = ne_word e (key_bytes key)
      in case e of Little \<Rightarrow> word_rotr shift native | Big \<Rightarrow> word_rotl shift native)"

definition mask_apply :: "endian \<Rightarrow> bytes \<Rightarrow> mask_key \<Rightarrow> usize \<Rightarrow> bytes \<times> usize" where
  "mask_apply e payload key offset =
     (if payload = [] then (payload, offset)
      else
        let rotated_word = rotate_key e key offset;
            rotated = ne_bytes e 4 rotated_word;
            word = ucast rotated_word OR push_bit 32 (ucast rotated_word);
            split = 8 * (length payload div 8)
        in (mask_chunks e word (take split payload) @ mask_tail rotated (drop split payload),
            offset + of_nat (length payload)))"

text \<open>The definition of RFC 6455 5.3, as the test module of the crate writes it.\<close>

definition mask_reference :: "bytes \<Rightarrow> mask_key \<Rightarrow> usize \<Rightarrow> bytes" where
  "mask_reference payload key offset =
     map2 (\<lambda>i b. b XOR key_bytes key ! ((unat offset + i) AND 3)) [0..<length payload] payload"

text \<open>A payload that arrives in pieces, each masked from the offset the previous one returned.\<close>

primrec mask_pieces :: "(bytes \<Rightarrow> usize \<Rightarrow> bytes \<times> usize) \<Rightarrow> bytes list \<Rightarrow> usize \<Rightarrow> bytes list \<times> usize" where
  "mask_pieces m [] offset = ([], offset)"
| "mask_pieces m (p # ps) offset =
     (let (p', offset') = m p offset; (ps', offset'') = mask_pieces m ps offset' in (p' # ps', offset''))"

section \<open>The rotated key\<close>

lemma and_3_mod_4 [byte_simps]: "n AND 3 = n mod (4 :: nat)"
  using take_bit_eq_mask [of 2 n] by (simp add: take_bit_eq_mod mask_eq_exp_minus_1)

lemma length_key_bytes [simp]: "length (key_bytes k) = 4"
  by (simp add: key_bytes_def split: prod.split)

text \<open>Bit \<open>k\<close> of byte \<open>m\<close>, taken around a period of four bytes.\<close>

lemma less_4_cases: "i < 4 \<Longrightarrow> i = 0 \<or> i = 1 \<or> i = 2 \<or> i = (3 :: nat)"
  by arith

lemma byte_bit_less_32: "k < 8 \<Longrightarrow> k + 8 * (m mod 4) < (32 :: nat)"
  using mod_less_divisor [of 4 m] by simp

lemma byte_bit_mod_32: "k < 8 \<Longrightarrow> (8 * m + k) mod 32 = 8 * (m mod 4) + (k :: nat)"
  using mod_mult2_eq [of "8 * m + k" 8 4] by simp

lemma le_bytes_rotr_nth:
  assumes "length ks = 4" and "i < 4"
  shows "le_bytes 4 (word_rotr (8 * r) (le_word ks :: u32)) ! i = ks ! ((i + r) mod 4)"
proof (rule bit_word_eqI)
  fix k
  assume "k < LENGTH(8)"
  then have k: "k < 8" by simp
  have "(8 * i + k + 8 * r) mod 32 = 8 * ((i + r) mod 4) + k"
    using byte_bit_mod_32 [OF k, of "i + r"] by (simp add: algebra_simps)
  then show "bit (le_bytes 4 (word_rotr (8 * r) (le_word ks :: u32)) ! i) k
      = bit (ks ! ((i + r) mod 4)) k"
    using assms k byte_bit_less_32 [OF k]
    by (simp add: le_bytes_nth bit_simps bit_le_word add.commute del: One_nat_def)
qed

lemma word_rotl_as_rotr: "r < 4 \<Longrightarrow> word_rotl (8 * r) w = word_rotr (8 * (4 - r)) (w :: u32)"
  by (simp add: word_rotl_eq_word_rotr right_diff_distrib')

lemma be_bytes_rotl_nth:
  assumes "length ks = 4" and "i < 4" and "r < 4"
  shows "be_bytes 4 (word_rotl (8 * r) (be_word ks :: u32)) ! i = ks ! ((i + r) mod 4)"
proof -
  have "be_bytes 4 (word_rotl (8 * r) (be_word ks :: u32)) ! i = rev ks ! ((3 - i + (4 - r)) mod 4)"
    using assms by (simp add: be_bytes_def be_word_def rev_nth word_rotl_as_rotr le_bytes_rotr_nth)
  also have "\<dots> = ks ! (3 - (3 - i + (4 - r)) mod 4)"
    using assms(1) by (simp add: rev_nth)
  also have "3 - (3 - i + (4 - r)) mod 4 = (i + r) mod 4"
    using assms(2,3) by (auto dest!: less_4_cases)
  finally show ?thesis .
qed

lemma rotate_key_nth:
  assumes "i < 4"
  shows "ne_bytes e 4 (rotate_key e key offset) ! i = key_bytes key ! ((unat offset + i) mod 4)"
proof -
  have r: "unat (offset AND 3) = unat offset mod 4"
    by (simp add: unsigned_and_eq byte_simps)
  have s: "(i + unat offset mod 4) mod 4 = (unat offset + i) mod 4"
    by presburger
  show ?thesis
    using assms s
    by (cases e)
      (simp_all add: rotate_key_def Let_def ne_bytes_def ne_word_def r mult.commute [of _ 8]
        le_bytes_rotr_nth be_bytes_rotl_nth)
qed

section \<open>The word loop computes the byte loop\<close>

definition xor_stream :: "(nat \<Rightarrow> u8) \<Rightarrow> bytes \<Rightarrow> bytes" where
  "xor_stream f bs = map2 (\<lambda>i b. b XOR f i) [0..<length bs] bs"

lemma length_xor_stream [simp]: "length (xor_stream f bs) = length bs"
  by (simp add: xor_stream_def)

lemma xor_stream_nth [simp]: "i < length bs \<Longrightarrow> xor_stream f bs ! i = bs ! i XOR f i"
  by (simp add: xor_stream_def)

lemma xor_stream_append:
  "xor_stream f (as @ bs) = xor_stream f as @ xor_stream (\<lambda>i. f (length as + i)) bs"
  by (rule nth_equalityI) (auto simp: nth_append)

lemma xor_stream_twice: "xor_stream f (xor_stream f bs) = bs"
  by (rule nth_equalityI) (auto simp: xor.assoc)

lemma xor_stream_cong:
  "(\<And>i. i < length bs \<Longrightarrow> f i = g i) \<Longrightarrow> xor_stream f bs = xor_stream g bs"
  by (rule nth_equalityI) auto

lemma mask_tail_stream: "mask_tail ks bs = xor_stream (\<lambda>i. ks ! (i mod 4)) bs"
  by (simp add: mask_tail_def xor_stream_def byte_simps)

lemma mask_reference_stream:
  "mask_reference bs key offset = xor_stream (\<lambda>i. key_bytes key ! ((unat offset + i) mod 4)) bs"
  by (simp add: mask_reference_def xor_stream_def byte_simps)

lemma mask_chunks_stream:
  "8 dvd length bs \<Longrightarrow>
   mask_chunks e word bs = xor_stream (\<lambda>i. ne_bytes e 8 word ! (i mod 8)) bs"
proof (induction e word bs rule: mask_chunks.induct)
  case (1 e word bs)
  show ?case
  proof (cases "length bs < 8")
    case True
    with "1.prems" have "bs = []"
      by (auto dest: dvd_imp_le)
    then show ?thesis
      by (simp add: mask_chunks.simps [of e word "[]"] xor_stream_def)
  next
    case False
    let ?f = "\<lambda>i. ne_bytes e 8 word ! (i mod 8)"
    have "ne_bytes e 8 (ne_word e (take 8 bs) XOR word) = xor_stream ?f (take 8 bs)"
      using False by (intro nth_equalityI) (simp_all add: ne_bytes_xor ne_bytes_ne_word)
    moreover have "mask_chunks e word (drop 8 bs) = xor_stream ?f (drop 8 bs)"
      using False "1.prems" by (intro "1.IH") (auto simp: dvd_minus_self)
    moreover have "xor_stream ?f bs = xor_stream ?f (take 8 bs) @ xor_stream ?f (drop 8 bs)"
      using False xor_stream_append [of ?f "take 8 bs" "drop 8 bs"] by simp
    ultimately show ?thesis
      using False by (simp add: mask_chunks.simps [of e word bs])
  qed
qed

lemma le_bytes_dup:
  "le_bytes 8 (ucast w OR push_bit 32 (ucast w) :: u64) = le_bytes 4 w @ le_bytes 4 (w :: u32)"
proof (rule nth_equalityI)
  fix i
  assume "i < length (le_bytes 8 (ucast w OR push_bit 32 (ucast w) :: u64))"
  then have i: "i < 8" by simp
  show "le_bytes 8 (ucast w OR push_bit 32 (ucast w) :: u64) ! i
      = (le_bytes 4 w @ le_bytes 4 w) ! i"
  proof (rule bit_word_eqI)
    fix k
    assume "k < LENGTH(8)"
    then have k: "k < 8" by simp
    have out: "\<not> bit w j" if "32 \<le> j" for j
      using that by (auto dest: bit_imp_le_length)
    show "bit (le_bytes 8 (ucast w OR push_bit 32 (ucast w) :: u64) ! i) k
        = bit ((le_bytes 4 w @ le_bytes 4 w) ! i) k"
    proof (cases "i < 4")
      case True
      then show ?thesis
        using i k by (simp add: nth_append le_bytes_nth bit_simps)
    next
      case False
      then obtain j where j: "i = j + 4"
        by (metis add.commute le_Suc_ex not_less)
      then show ?thesis
        using i k out [of "k + 8 * i"]
        by (simp add: nth_append le_bytes_nth bit_simps algebra_simps)
    qed
  qed
qed simp

lemma ne_bytes_dup:
  "ne_bytes e 8 (ucast w OR push_bit 32 (ucast w) :: u64) = ne_bytes e 4 w @ ne_bytes e 4 (w :: u32)"
  by (cases e) (simp_all add: ne_bytes_def be_bytes_def le_bytes_dup)

lemma dup_nth_mod: "length ks = 4 \<Longrightarrow> (ks @ ks) ! (i mod 8) = ks ! (i mod 4)"
proof -
  assume ks: "length ks = 4"
  have "i mod 8 mod 4 = i mod (4 :: nat)"
    by (simp add: mod_mod_cancel)
  moreover have "j < 8 \<Longrightarrow> j \<ge> 4 \<Longrightarrow> j - 4 = j mod 4" for j :: nat
    by (simp add: mod_if)
  ultimately show ?thesis
    using ks by (auto simp: nth_append) 
qed

lemma mask_apply_stream:
  "mask_apply e bs key offset =
     (xor_stream (\<lambda>i. key_bytes key ! ((unat offset + i) mod 4)) bs, offset + of_nat (length bs))"
proof (cases "bs = []")
  case True
  then show ?thesis
    by (simp add: mask_apply_def xor_stream_def)
next
  case False
  let ?ks = "ne_bytes e 4 (rotate_key e key offset)" and ?n = "8 * (length bs div 8)"
  let ?f = "\<lambda>i. ?ks ! (i mod 4)"
  have n: "?n \<le> length bs"
    by simp
  have period: "(8 * m + i) mod 4 = i mod 4" for m i :: nat
    by presburger
  have rot: "?f = (\<lambda>i. key_bytes key ! ((unat offset + i) mod 4))"
    by (rule ext) (simp add: rotate_key_nth mod_add_right_eq)
  have "mask_chunks e (ucast (rotate_key e key offset) OR push_bit 32 (ucast (rotate_key e key offset)))
      (take ?n bs) = xor_stream ?f (take ?n bs)"
    by (simp add: mask_chunks_stream ne_bytes_dup dup_nth_mod n)
  moreover have "mask_tail ?ks (drop ?n bs) = xor_stream (\<lambda>i. ?f (?n + i)) (drop ?n bs)"
    by (rule xor_stream_cong [of _ _ _, THEN trans [OF mask_tail_stream]]) (simp add: period)
  moreover have "xor_stream ?f bs = xor_stream ?f (take ?n bs) @ xor_stream (\<lambda>i. ?f (?n + i)) (drop ?n bs)"
    using xor_stream_append [of ?f "take ?n bs" "drop ?n bs"] n by (simp add: min_absorb2)
  ultimately show ?thesis
    using False by (simp add: mask_apply_def Let_def rot)
qed

section \<open>The contract of masking\<close>

text \<open>What the connection relies on: masking keeps the length, advances the offset by it, may be
  split anywhere, and undoes itself.\<close>

locale masking =
  fixes masked :: "bytes \<Rightarrow> 'k \<Rightarrow> usize \<Rightarrow> bytes \<times> usize"
  assumes masked_append:
      "masked (p @ q) k off =
         (let (p', off') = masked p k off; (q', off'') = masked q k off' in (p' @ q', off''))"
    and masked_twice: "fst (masked (fst (masked p k off)) k off) = p"
    and masked_length: "length (fst (masked p k off)) = length p"
    and masked_empty: "masked [] k off = ([], off)"
begin

lemma masked_pieces:
  "masked (concat ps) k off =
     (let (ps', off') = mask_pieces (\<lambda>p. masked p k) ps off in (concat ps', off'))"
  by (induction ps arbitrary: off) (simp_all add: masked_empty masked_append split_def Let_def)

lemma masked_inj: "fst (masked p k off) = fst (masked q k off) \<Longrightarrow> p = q"
  by (metis masked_twice)

end

lemma unat_offset_mod_4:
  "(unat (offset + of_nat n :: usize) + i) mod 4 = (unat offset + (n + i)) mod 4"
proof -
  have "unat (offset + of_nat n :: usize) mod 4 = (unat offset + n) mod 2 ^ 64 mod 4"
    by (simp add: unat_word_ariths unat_of_nat mod_add_right_eq)
  also have "\<dots> = (unat offset + n) mod 4"
    by (rule mod_mod_cancel) simp
  finally have "(unat (offset + of_nat n :: usize) + i) mod 4 = ((unat offset + n) + i) mod 4"
    by (metis mod_add_left_eq)
  then show ?thesis
    by (simp add: add.assoc)
qed

interpretation word_mask: masking "mask_apply e" for e
proof unfold_locales
  show "mask_apply e (p @ q) k off =
      (let (p', off') = mask_apply e p k off; (q', off'') = mask_apply e q k off' in (p' @ q', off''))"
    for p q k off
    by (simp add: mask_apply_stream xor_stream_append unat_offset_mod_4 add.assoc)
qed (simp_all add: mask_apply_stream xor_stream_twice xor_stream_def [of _ "[]"])

section \<open>Properties\<close>

text \<open>C8: The word-at-a-time masking routine computes, on a target of either byte order, exactly the
  byte loop of RFC 6455 5.3, for every payload, key and starting offset, and returns the offset
  advanced (with wrap-around) by the payload length.\<close>

theorem mask_apply_is_reference:
  "mask_apply e payload key offset =
     (mask_reference payload key offset, offset + of_nat (length payload))"
  by (simp add: mask_apply_stream mask_reference_stream)

text \<open>Masking twice with the same key and offset restores the payload, even when the two
  passes run on machines of different byte order.\<close>

lemma mask_apply_involution:
  "fst (mask_apply e' (fst (mask_apply e payload key offset)) key offset) = payload"
  by (simp add: mask_apply_stream xor_stream_twice)

text \<open>A payload masked in any number of pieces, each continuing at the offset the previous one
  returned, is the payload masked in one pass.\<close>

lemma mask_apply_pieces:
  "mask_apply e (concat ps) key offset =
     (let (ps', offset') = mask_pieces (\<lambda>p. mask_apply e p key) ps offset in (concat ps', offset'))"
  by (rule word_mask.masked_pieces)

end
