(* ===== verification/Opcode.thy ===== *)
theory Opcode
  imports Wss_Prelude
begin

text \<open>
  Opcodes and close codes (\<open>src/src/proto/opcode.rs\<close>): the four wire bits of an opcode, the control
  frames, and which close codes may be put on the wire.
\<close>

section \<open>Opcodes\<close>

datatype opcode = Continuation | Text | Binary | Close | Ping | Pong

definition opcode_from_bits :: "u8 \<Rightarrow> opcode option" where
  "opcode_from_bits bits =
     (if bits = 0x0 then Some Continuation
      else if bits = 0x1 then Some Text
      else if bits = 0x2 then Some Binary
      else if bits = 0x8 then Some Close
      else if bits = 0x9 then Some Ping
      else if bits = 0xA then Some Pong
      else None)"

fun opcode_to_bits :: "opcode \<Rightarrow> u8" where
  "opcode_to_bits Continuation = 0x0"
| "opcode_to_bits Text = 0x1"
| "opcode_to_bits Binary = 0x2"
| "opcode_to_bits Close = 0x8"
| "opcode_to_bits Ping = 0x9"
| "opcode_to_bits Pong = 0xA"

fun is_control :: "opcode \<Rightarrow> bool" where
  "is_control Close = True"
| "is_control Ping = True"
| "is_control Pong = True"
| "is_control _ = False"

section \<open>Close codes\<close>

text \<open>\<open>pub struct CloseCode(pub u16)\<close>, ordered by its number as the derived \<open>Ord\<close> orders it.\<close>

datatype close_code = CloseCode (close_number: u16)

instantiation close_code :: linorder
begin

definition less_eq_close_code :: "close_code \<Rightarrow> close_code \<Rightarrow> bool" where
  "less_eq_close_code a b \<longleftrightarrow> close_number a \<le> close_number b"

definition less_close_code :: "close_code \<Rightarrow> close_code \<Rightarrow> bool" where
  "less_close_code a b \<longleftrightarrow> close_number a < close_number b"

instance
  by standard (auto simp: less_eq_close_code_def less_close_code_def close_code.expand)

end

definition NORMAL :: close_code where "NORMAL = CloseCode 1000"
definition AWAY :: close_code where "AWAY = CloseCode 1001"
definition PROTOCOL :: close_code where "PROTOCOL = CloseCode 1002"
definition UNSUPPORTED :: close_code where "UNSUPPORTED = CloseCode 1003"
definition INVALID_PAYLOAD :: close_code where "INVALID_PAYLOAD = CloseCode 1007"
definition POLICY :: close_code where "POLICY = CloseCode 1008"
definition TOO_LARGE :: close_code where "TOO_LARGE = CloseCode 1009"
definition INTERNAL_ERROR :: close_code where "INTERNAL_ERROR = CloseCode 1011"

lemmas close_code_defs = NORMAL_def AWAY_def PROTOCOL_def UNSUPPORTED_def INVALID_PAYLOAD_def
  POLICY_def TOO_LARGE_def INTERNAL_ERROR_def

definition is_sendable :: "close_code \<Rightarrow> bool" where
  "is_sendable c =
     (let n = close_number c in
      if (1000 \<le> n \<and> n \<le> 1003) \<or> (1007 \<le> n \<and> n \<le> 1011) then True
      else if (1004 \<le> n \<and> n \<le> 1006) \<or> (1012 \<le> n \<and> n \<le> 1014) then False
      else if n = 1015 then False
      else if 3000 \<le> n \<and> n \<le> 4999 then True
      else False)"

text \<open>The two conversions, \<open>From<u16> for CloseCode\<close> and \<open>From<CloseCode> for u16\<close>.\<close>

definition close_code_from_u16 :: "u16 \<Rightarrow> close_code" where
  "close_code_from_u16 n = CloseCode n"

definition u16_from_close_code :: "close_code \<Rightarrow> u16" where
  "u16_from_close_code c = close_number c"

section \<open>Lemmas\<close>

text \<open>No code is lost on the way to the wire and back, known or not.\<close>

lemma close_code_conversions:
  "close_code_from_u16 (u16_from_close_code c) = c" "u16_from_close_code (close_code_from_u16 n) = n"
  by (simp_all add: close_code_from_u16_def u16_from_close_code_def)


lemma opcode_from_to_bits [simp]: "opcode_from_bits (opcode_to_bits op) = Some op"
  by (cases op) (simp_all add: opcode_from_bits_def)

lemma opcode_to_from_bits: "opcode_from_bits b = Some op \<Longrightarrow> opcode_to_bits op = b"
  by (auto simp: opcode_from_bits_def split: if_splits)

lemma opcode_to_bits_low [simp]: "opcode_to_bits op AND 0x0F = opcode_to_bits op"
  by (cases op) simp_all

lemma is_control_cases: "is_control op \<longleftrightarrow> op = Close \<or> op = Ping \<or> op = Pong"
  by (cases op) simp_all

lemma is_sendable_iff:
  "is_sendable c \<longleftrightarrow> (NORMAL \<le> c \<and> c \<le> UNSUPPORTED) \<or> (INVALID_PAYLOAD \<le> c \<and> c \<le> INTERNAL_ERROR)
     \<or> (CloseCode 3000 \<le> c \<and> c \<le> CloseCode 4999)"
  by (auto simp: is_sendable_def Let_def less_eq_close_code_def close_code_defs word_le_nat_alt)

lemma is_sendable_constants [simp]:
  "is_sendable NORMAL" "is_sendable PROTOCOL" "is_sendable INVALID_PAYLOAD" "is_sendable TOO_LARGE"
  "is_sendable INTERNAL_ERROR"
  by (simp_all add: is_sendable_def close_code_defs)

section \<open>Properties\<close>

text \<open>An opcode is decoded from exactly the four bits it is encoded to: every reserved bit
  pattern is refused and no two opcodes share one. The control opcodes are those with the high bit
  of the four set.\<close>

lemma opcode_bits_roundtrip:
  "(opcode_from_bits b = Some op \<longleftrightarrow> b = opcode_to_bits op) \<and>
   (is_control op \<longleftrightarrow> bit (opcode_to_bits op) 3)"
  by (cases op) (auto simp: opcode_to_from_bits opcode_from_bits_def bit_numeral_rec(1,2) bit_simps
      numeral_3_eq_3)

end
