(* ===== verification/Frame.thy ===== *)
theory Frame
  imports Opcode Mask
begin

text \<open>
  Frame headers (\<open>src/src/proto/frame.rs\<close>): the incremental decoder, the encoder into a caller's
  buffer, and their error paths. The lemmas show that the two are inverse on the headers RFC 6455
  allows, that a header has one encoding only, and that the decoder's answer never changes when more
  bytes arrive.
\<close>

section \<open>Definitions\<close>

datatype frame_error =
    ReservedOpCode u8
  | ReservedBitSet
  | InvalidControlFrame
  | InvalidLength
  | FrameTooLarge

datatype incomplete = Incomplete

record header =
  h_fin :: bool
  h_opcode :: opcode
  h_mask :: "mask_key option"
  h_payload_len :: u64

definition MAX_ENCODED_LEN :: nat where
  "MAX_ENCODED_LEN = 14"

text \<open>\<open>Result<Result<T, Incomplete>, FrameError>\<close>.\<close>

type_synonym 'a decoded = "frame_error + (incomplete + 'a)"

text \<open>The length field: the \<open>match short_len\<close> of \<open>Header::decode\<close>. It returns the payload length
  and the cursor past it.\<close>

definition decode_len :: "bytes \<Rightarrow> u8 \<Rightarrow> (u64 \<times> nat) decoded" where
  "decode_len input short_len =
     (let cursor = 2 in
      if short_len = 126 then
        if length input < cursor + 2 then Inr (Inl Incomplete)
        else
          let value = ucast (be_word [input ! cursor, input ! (cursor + 1)] :: u16) in
          if value < 126 then Inl InvalidLength
          else Inr (Inr (value, cursor + 2))
      else if short_len = 127 then
        if length input < cursor + 8 then Inr (Inl Incomplete)
        else
          let value = be_word (take 8 (drop cursor input)) :: u64 in
          if value AND 0x8000000000000000 \<noteq> 0 \<or> value \<le> 0xFFFF then Inl InvalidLength
          else Inr (Inr (value, cursor + 8))
      else Inr (Inr (ucast short_len, cursor)))"

text \<open>The masking key, read at the cursor when the MASK bit is set.\<close>

definition decode_mask :: "bytes \<Rightarrow> bool \<Rightarrow> nat \<Rightarrow> incomplete + (mask_key option \<times> nat)" where
  "decode_mask input masked cursor =
     (if masked then
        if length input < cursor + 4 then Inl Incomplete
        else Inr (Some (input ! cursor, input ! (cursor + 1), input ! (cursor + 2), input ! (cursor + 3)),
                  cursor + 4)
      else Inr (None, cursor))"

definition header_decode :: "bytes \<Rightarrow> u64 \<Rightarrow> (header \<times> nat) decoded" where
  "header_decode input max_payload =
     (if length input < 2 then Inr (Inl Incomplete)
      else
        let first = input ! 0; second = input ! 1 in
        if first AND 0x70 \<noteq> 0 then Inl ReservedBitSet
        else
          let fin = (first AND 0x80 \<noteq> 0) in
          case opcode_from_bits (first AND 0x0F) of
            None \<Rightarrow> Inl (ReservedOpCode (first AND 0x0F))
          | Some op \<Rightarrow>
              let masked = (second AND 0x80 \<noteq> 0); short_len = second AND 0x7F in
              if is_control op \<and> (short_len > 125 \<or> \<not> fin) then Inl InvalidControlFrame
              else
                case decode_len input short_len of
                  Inl e \<Rightarrow> Inl e
                | Inr (Inl i) \<Rightarrow> Inr (Inl i)
                | Inr (Inr (len, cursor)) \<Rightarrow>
                    if len > max_payload then Inl FrameTooLarge
                    else
                      case decode_mask input masked cursor of
                        Inl i \<Rightarrow> Inr (Inl i)
                      | Inr (key, cursor') \<Rightarrow>
                          Inr (Inr (\<lparr>h_fin = fin, h_opcode = op, h_mask = key, h_payload_len = len\<rparr>,
                                    cursor')))"

definition encoded_len :: "header \<Rightarrow> nat" where
  "encoded_len h =
     (let length_bytes =
            (if h_payload_len h < 126 then 0 else if h_payload_len h \<le> 0xFFFF then 2 else 8);
          mask_bytes = (if h_mask h \<noteq> None then 4 else 0)
      in 2 + length_bytes + mask_bytes)"

text \<open>\<open>out[at..at + n].copy_from_slice(..)\<close>.\<close>

definition copy_at :: "nat \<Rightarrow> bytes \<Rightarrow> bytes \<Rightarrow> bytes" where
  "copy_at at src out = take at out @ src @ drop (at + length src) out"

text \<open>\<open>Header::encode\<close>: the buffer after the call and the number of bytes written, or \<open>None\<close> with the
  buffer untouched.\<close>

definition header_encode :: "header \<Rightarrow> bytes \<Rightarrow> (bytes \<times> nat) option" where
  "header_encode h out =
     (let needed = encoded_len h in
      if length out < needed then None
      else
        let out0 = out[0 := (if h_fin h then 0x80 else 0) OR opcode_to_bits (h_opcode h)];
            mask_bit = (if h_mask h \<noteq> None then 0x80 else 0);
            (out1, cursor) =
              (if h_payload_len h < 126 then (out0[1 := mask_bit OR ucast (h_payload_len h)], 2)
               else if h_payload_len h \<le> 0xFFFF then
                 (copy_at 2 (be_bytes 2 (ucast (h_payload_len h) :: u16)) (out0[1 := mask_bit OR 126]), 4)
               else
                 (copy_at 2 (be_bytes 8 (h_payload_len h)) (out0[1 := mask_bit OR 127]), 10))
        in case h_mask h of
             Some key \<Rightarrow> Some (copy_at cursor (key_bytes key) out1, cursor + 4)
           | None \<Rightarrow> Some (out1, cursor))"

text \<open>The headers RFC 6455 allows: a length below \<open>2 ^ 63\<close>, and control frames final and short.\<close>

definition wf_header :: "header \<Rightarrow> bool" where
  "wf_header h \<longleftrightarrow> h_payload_len h < 2 ^ 63 \<and>
     (is_control (h_opcode h) \<longrightarrow> h_fin h \<and> h_payload_len h \<le> 125)"

text \<open>The bytes \<open>Header::encode\<close> writes, as one list.\<close>

definition len_byte :: "u64 \<Rightarrow> u8" where
  "len_byte len = (if len < 126 then ucast len else if len \<le> 0xFFFF then 126 else 127)"

definition len_ext :: "u64 \<Rightarrow> bytes" where
  "len_ext len =
     (if len < 126 then [] else if len \<le> 0xFFFF then be_bytes 2 (ucast len :: u16) else be_bytes 8 len)"

definition mask_ext :: "mask_key option \<Rightarrow> bytes" where
  "mask_ext m = (case m of None \<Rightarrow> [] | Some k \<Rightarrow> key_bytes k)"

definition header_bytes :: "header \<Rightarrow> bytes" where
  "header_bytes h =
     ((if h_fin h then 0x80 else 0) OR opcode_to_bits (h_opcode h))
     # ((if h_mask h \<noteq> None then 0x80 else 0) OR len_byte (h_payload_len h))
     # len_ext (h_payload_len h) @ mask_ext (h_mask h)"

section \<open>The encoder\<close>

lemma copy_at_2: "copy_at 2 src (x # y # out) = x # y # src @ drop (length src) out"
  by (simp add: copy_at_def)

lemma length_len_ext: "length (len_ext len) = (if len < 126 then 0 else if len \<le> 0xFFFF then 2 else 8)"
  by (simp add: len_ext_def)

lemma length_mask_ext: "length (mask_ext m) = (if m \<noteq> None then 4 else 0)"
  by (simp add: mask_ext_def split: option.split)

lemma length_header_bytes [simp]: "length (header_bytes h) = encoded_len h"
  by (simp add: header_bytes_def encoded_len_def length_len_ext length_mask_ext)

lemma encoded_len_bounds: "2 \<le> encoded_len h" "encoded_len h \<le> MAX_ENCODED_LEN"
  by (simp_all add: encoded_len_def MAX_ENCODED_LEN_def)

lemma header_encode_eq:
  "header_encode h out =
     (if length out < encoded_len h then None
      else Some (header_bytes h @ drop (encoded_len h) out, encoded_len h))"
proof (cases "length out < encoded_len h")
  case False
  then obtain x y rest where out: "out = x # y # rest"
    using encoded_len_bounds(1) [of h] two_elements [of out] by auto
  have len: "length (len_ext (h_payload_len h)) \<le> length rest"
    using False out by (simp add: encoded_len_def length_len_ext split: if_splits)
  show ?thesis
    using False len
    by (auto simp: header_encode_def out copy_at_2 copy_at_def header_bytes_def encoded_len_def len_byte_def
        len_ext_def mask_ext_def split: option.split)
qed (simp add: header_encode_def)

section \<open>The decoder\<close>

lemma first_byte:
  fixes f :: bool and op :: opcode
  defines "b \<equiv> (if f then 0x80 else 0) OR opcode_to_bits op"
  shows "b AND 0x70 = 0" and "b AND 0x80 \<noteq> 0 \<longleftrightarrow> f" and "b AND 0x0F = opcode_to_bits op"
  unfolding b_def by (cases f; cases op; simp)+

lemma len_byte_small: "len_byte len \<le> 127"
proof -
  have "unat len < 126 \<Longrightarrow> unat (ucast len :: u8) \<le> 127"
    by (simp add: unat_ucast)
  then show ?thesis
    by (auto simp: len_byte_def word_less_nat_alt word_le_nat_alt)
qed

lemma ucast_len_u16: "len \<le> 0xFFFF \<Longrightarrow> ucast (ucast len :: u16) = (len :: u64)"
  by (rule ucast_ucast_id) (simp add: word_le_nat_alt)

lemma ucast_len_u8: "len < 126 \<Longrightarrow> ucast (ucast len :: u8) = (len :: u64)"
  by (rule ucast_ucast_id) (simp add: word_less_nat_alt)

lemma decode_len_ext:
  assumes "len < 2 ^ 63"
  shows "decode_len (x # y # len_ext len @ rest) (len_byte len) = Inr (Inr (len, 2 + length (len_ext len)))"
proof -
  consider (short) "len < 126" | (medium) "\<not> len < 126" "len \<le> 0xFFFF" | (long) "\<not> len < 126" "\<not> len \<le> 0xFFFF"
    by blast
  then show ?thesis
  proof cases
    case short
    then have "unat (ucast len :: u8) < 126"
      by (simp add: unat_ucast word_less_nat_alt)
    then have "ucast len \<noteq> (126 :: u8)" "ucast len \<noteq> (127 :: u8)"
      by auto
    then show ?thesis
      using short by (simp add: decode_len_def len_byte_def len_ext_def ucast_len_u8)
  next
    case medium
    have "[be_bytes 2 (ucast len :: u16) ! 0, be_bytes 2 (ucast len :: u16) ! 1] = be_bytes 2 (ucast len :: u16)"
      by (rule nth_equalityI) (auto simp: less_Suc_eq)
    then show ?thesis
      using medium
      by (simp add: decode_len_def len_byte_def len_ext_def nth_append ucast_len_u16)
  next
    case long
    then show ?thesis
      using assms by (simp add: decode_len_def len_byte_def len_ext_def byte_simps)
  qed
qed

lemma decode_mask_ext:
  "decode_mask (pre @ mask_ext m @ rest) (m \<noteq> None) (length pre) = Inr (m, length pre + length (mask_ext m))"
  by (cases m) (auto simp: decode_mask_def mask_ext_def key_bytes_def nth_append)

lemma header_decode_bytes:
  assumes "wf_header h" and "h_payload_len h \<le> limit"
  shows "header_decode (header_bytes h @ rest) limit = Inr (Inr (h, encoded_len h))"
proof -
  let ?m = "h_mask h" and ?len = "h_payload_len h"
  define b1 b2 where "b1 = ((if h_fin h then 0x80 else 0) OR opcode_to_bits (h_opcode h))"
    and "b2 = ((if ?m \<noteq> None then 0x80 else 0) OR len_byte ?len)"
  have input: "header_bytes h @ rest = b1 # b2 # len_ext ?len @ mask_ext ?m @ rest"
    by (simp add: header_bytes_def b1_def b2_def)
  have b1: "b1 AND 0x70 = 0" "b1 AND 0x80 \<noteq> 0 \<longleftrightarrow> h_fin h" "b1 AND 0x0F = opcode_to_bits (h_opcode h)"
    unfolding b1_def by (rule first_byte)+
  have b2: "b2 AND 0x7F = len_byte ?len" "b2 AND 0x80 \<noteq> 0 \<longleftrightarrow> ?m \<noteq> None"
    unfolding b2_def using len_byte_small by (rule u8_split_flag)+
  have control: "\<not> (is_control (h_opcode h) \<and> (len_byte ?len > 125 \<or> \<not> h_fin h))"
    using assms(1) by (auto simp: wf_header_def len_byte_def word_less_nat_alt word_le_nat_alt unat_ucast)
  have "decode_mask (b1 # b2 # len_ext ?len @ mask_ext ?m @ rest) (?m \<noteq> None) (2 + length (len_ext ?len))
      = Inr (?m, encoded_len h)"
    using decode_mask_ext [of "b1 # b2 # len_ext ?len" ?m rest]
    by (simp add: encoded_len_def length_len_ext length_mask_ext)
  moreover have "decode_len (b1 # b2 # len_ext ?len @ mask_ext ?m @ rest) (len_byte ?len)
      = Inr (Inr (?len, 2 + length (len_ext ?len)))"
    using assms(1) by (simp add: decode_len_ext wf_header_def)
  ultimately show ?thesis
    using assms(2) control
    by (simp add: header_decode_def input b1 b2 Let_def)
qed

text \<open>What a successful decode says of its input.\<close>

lemma decode_len_ok:
  assumes "decode_len input l = Inr (Inr (len, cursor))" and "l \<le> 127" and "2 \<le> length input"
  shows "len < 2 ^ 63" and "l = len_byte len" and "cursor = 2 + length (len_ext len)"
    and "cursor \<le> length input" and "take (length (len_ext len)) (drop 2 input) = len_ext len"
proof -
  consider (short) "l \<noteq> 126" "l \<noteq> 127" | (medium) "l = 126" | (long) "l = 127"
    by blast
  then have "len < 2 ^ 63 \<and> l = len_byte len \<and> cursor = 2 + length (len_ext len) \<and>
     cursor \<le> length input \<and> take (length (len_ext len)) (drop 2 input) = len_ext len"
  proof cases
    case short
    then have "unat l < 126"
      using assms(2) by (auto simp: word_le_nat_alt word_unat_eq_iff)
    then have "len = ucast l" "cursor = 2" "ucast l < (126 :: u64)" "ucast (ucast l :: u64) = l"
      using assms(1) short by (auto simp: decode_len_def word_less_nat_alt unat_ucast ucast_ucast_id)
    then show ?thesis
      using assms(3) by (simp add: len_byte_def len_ext_def word_less_nat_alt)
  next
    case medium
    let ?v = "be_word [input ! 2, input ! 3] :: u16"
    have v: "len = ucast ?v" "\<not> ucast ?v < (126 :: u64)" "cursor = 4" "4 \<le> length input"
      using medium assms(1) by (auto simp: decode_len_def Let_def split: if_splits)
    have small: "ucast ?v \<le> (0xFFFF :: u64)"
      using unsigned_less [of ?v, where ?'a = nat] by (simp add: word_le_nat_alt unat_ucast)
    have two: "take (Suc (Suc 0)) (drop 2 input) = [input ! 2, input ! 3]"
      using v(4) by (simp add: take_drop_nth numeral_eq_Suc)
    have "ucast (ucast ?v :: u64) = ?v"
      using unsigned_less [of ?v, where ?'a = nat] by (intro ucast_ucast_id) simp
    then have "be_bytes 2 (ucast (ucast ?v :: u64) :: u16) = [input ! 2, input ! 3]"
      by (simp add: be_bytes_be_word)
    then show ?thesis
      using medium v small two
      by (simp add: len_byte_def len_ext_def word_less_nat_alt word_le_nat_alt)
  next
    case long
    then show ?thesis
      using assms(1,3) 
      by (auto simp: decode_len_def Let_def byte_simps len_byte_def len_ext_def be_bytes_be_word
          word_less_nat_alt word_le_nat_alt split: if_splits)
  qed
  then show "len < 2 ^ 63" and "l = len_byte len" and "cursor = 2 + length (len_ext len)"
    and "cursor \<le> length input" and "take (length (len_ext len)) (drop 2 input) = len_ext len"
    by blast+
qed

lemma len_byte_control: "len_byte len \<le> 125 \<Longrightarrow> len \<le> 125"
  by (auto simp: len_byte_def word_le_nat_alt word_less_nat_alt unat_ucast split: if_splits)

lemma decode_mask_ok:
  assumes "decode_mask input masked cursor = Inr (m, cursor')" and "cursor \<le> length input"
  shows "masked \<longleftrightarrow> m \<noteq> None" and "cursor' = cursor + length (mask_ext m)" and "cursor' \<le> length input"
    and "take (length (mask_ext m)) (drop cursor input) = mask_ext m"
proof -
  have four: "take (Suc (Suc (Suc (Suc 0)))) (drop c input) = [input ! c, input ! (c + 1), input ! (c + 2), input ! (c + 3)]"
    if "c + 4 \<le> length input" for c
    using that by (simp add: take_drop_nth numeral_eq_Suc)
  show "masked \<longleftrightarrow> m \<noteq> None" and "cursor' = cursor + length (mask_ext m)" and "cursor' \<le> length input"
    and "take (length (mask_ext m)) (drop cursor input) = mask_ext m"
    using assms four [of cursor]
    by (auto simp: decode_mask_def mask_ext_def key_bytes_def split: if_splits)
qed

lemma header_decode_elim:
  assumes "header_decode input limit = Inr (Inr (h, n))"
  obtains len cursor where "2 \<le> length input" and "input ! 0 AND 0x70 = 0"
    and "opcode_from_bits (input ! 0 AND 0x0F) = Some (h_opcode h)"
    and "h_fin h \<longleftrightarrow> input ! 0 AND 0x80 \<noteq> 0"
    and "\<not> (is_control (h_opcode h) \<and> (input ! 1 AND 0x7F > 125 \<or> \<not> h_fin h))"
    and "decode_len input (input ! 1 AND 0x7F) = Inr (Inr (h_payload_len h, cursor))"
    and "h_payload_len h \<le> limit"
    and "decode_mask input (input ! 1 AND 0x80 \<noteq> 0) cursor = Inr (h_mask h, n)"
  using assms
  by (auto simp: header_decode_def Let_def split: if_splits option.splits sum.splits)

lemma header_decode_ok:
  assumes "header_decode input limit = Inr (Inr (h, n))"
  shows "wf_header h" and "h_payload_len h \<le> limit" and "n = encoded_len h" and "n \<le> length input"
    and "take n input = header_bytes h"
proof -
  from assms obtain cursor where two: "2 \<le> length input" and rsv: "input ! 0 AND 0x70 = 0"
    and op: "opcode_from_bits (input ! 0 AND 0x0F) = Some (h_opcode h)"
    and fin: "h_fin h \<longleftrightarrow> input ! 0 AND 0x80 \<noteq> 0"
    and control: "\<not> (is_control (h_opcode h) \<and> (input ! 1 AND 0x7F > 125 \<or> \<not> h_fin h))"
    and len: "decode_len input (input ! 1 AND 0x7F) = Inr (Inr (h_payload_len h, cursor))"
    and limit: "h_payload_len h \<le> limit"
    and mask: "decode_mask input (input ! 1 AND 0x80 \<noteq> 0) cursor = Inr (h_mask h, n)"
    by (rule header_decode_elim)
  have "input ! 1 AND 0x7F \<le> 127"
    by (rule word_and_le1)
  note l = decode_len_ok [OF len this two] and m = decode_mask_ok [OF mask decode_len_ok(4) [OF len this two]]
  show "h_payload_len h \<le> limit"
    by (rule limit)
  show "wf_header h"
    using l(1) control len_byte_control [of "h_payload_len h"] unfolding wf_header_def l(2) [symmetric]
    by (auto simp: not_less)
  show n: "n = encoded_len h"
    using l(3) m(2) by (simp add: encoded_len_def length_len_ext length_mask_ext)
  show "n \<le> length input"
    by (rule m(3))
  obtain a b rest where input: "input = a # b # rest"
    using two_elements [OF two] by blast
  have a: "(if h_fin h then 0x80 else 0) OR opcode_to_bits (h_opcode h) = a"
    using u8_join_nibble [of a] rsv opcode_to_from_bits [OF op] fin by (simp add: input)
  have b: "(if h_mask h \<noteq> None then 0x80 else 0) OR len_byte (h_payload_len h) = b"
    using u8_join_flag [of b] m(1) l(2) by (simp add: input)
  have "take (n - 2) rest = len_ext (h_payload_len h) @ mask_ext (h_mask h)"
    using l(3,5) m(2,4) by (simp add: input take_add)
  moreover have "header_bytes h = a # b # len_ext (h_payload_len h) @ mask_ext (h_mask h)"
    unfolding header_bytes_def a b ..
  ultimately show "take n input = header_bytes h"
    using encoded_len_bounds(1) [of h] n by (simp add: input take_Cons' numeral_2_eq_2)
qed

text \<open>Once the decoder has answered, later bytes do not change the answer.\<close>

lemma decode_len_append:
  "2 \<le> length input \<Longrightarrow> decode_len input l \<noteq> Inr (Inl Incomplete) \<Longrightarrow> decode_len (input @ later) l = decode_len input l"
  by (auto simp: decode_len_def Let_def nth_append split: if_splits)

lemma decode_mask_append:
  "decode_mask input masked c \<noteq> Inl Incomplete \<Longrightarrow> decode_mask (input @ later) masked c = decode_mask input masked c"
  by (auto simp: decode_mask_def nth_append split: if_splits)

lemma incomplete_unique [simp]: "i = Incomplete"
  by (cases i) simp

lemma header_decode_append:
  assumes "header_decode input limit \<noteq> Inr (Inl Incomplete)"
  shows "header_decode (input @ later) limit = header_decode input limit"
proof -
  have "2 \<le> length input"
    using assms by (auto simp: header_decode_def split: if_splits)
  then obtain a b rest where input: "input = a # b # rest"
    using two_elements by blast
  show ?thesis
  proof (cases "decode_len input (b AND 0x7F)")
    case (Inl e)
    then have "decode_len (input @ later) (b AND 0x7F) = Inl e"
      using decode_len_append [OF \<open>2 \<le> length input\<close>, of "b AND 0x7F" later] by simp
    then show ?thesis
      using Inl by (auto simp: header_decode_def Let_def input split: option.split)
  next
    case (Inr r)
    show ?thesis
    proof (cases r)
      case Inl
      then show ?thesis
        using assms Inr by (auto simp: header_decode_def Let_def input split: option.splits if_splits)
    next
      case (Inr lc)
      then obtain len c where lc: "decode_len input (b AND 0x7F) = Inr (Inr (len, c))"
        using \<open>decode_len input (b AND 0x7F) = Inr r\<close> by (cases lc) auto
      then have lc': "decode_len (input @ later) (b AND 0x7F) = Inr (Inr (len, c))"
        using decode_len_append [OF \<open>2 \<le> length input\<close>, of "b AND 0x7F" later] by simp
      show ?thesis
      proof (cases "decode_mask input (b AND 0x80 \<noteq> 0) c")
        case Inl
        then show ?thesis
          using assms lc lc' by (auto simp: header_decode_def Let_def input split: option.splits if_splits)
      next
        case (Inr mc)
        then have "decode_mask (input @ later) (b AND 0x80 \<noteq> 0) c = Inr mc"
          using decode_mask_append [of input "b AND 0x80 \<noteq> 0" c later] by simp
        then show ?thesis
          using Inr lc lc' by (auto simp: header_decode_def Let_def input split: option.split)
      qed
    qed
  qed
qed

lemma header_decode_incomplete:
  "header_decode input limit = Inr (Inl Incomplete) \<Longrightarrow> length input < MAX_ENCODED_LEN"
  by (auto simp: header_decode_def decode_len_def decode_mask_def Let_def MAX_ENCODED_LEN_def
      split: if_splits option.splits sum.splits)

section \<open>The contract of a frame codec\<close>

text \<open>What the connection relies on: an encoded header is decoded to itself whatever follows it, a
  decoded header accounts for exactly the bytes consumed, and an answer is final. \<open>ok limit h\<close> says
  that \<open>h\<close> may appear under that limit.\<close>

locale frame_codec =
  fixes dec :: "bytes \<Rightarrow> u64 \<Rightarrow> ('h \<times> nat) decoded"
    and enc :: "'h \<Rightarrow> bytes"
    and ok :: "u64 \<Rightarrow> 'h \<Rightarrow> bool"
  assumes dec_enc: "ok limit h \<Longrightarrow> dec (enc h @ rest) limit = Inr (Inr (h, length (enc h)))"
    and dec_sound: "dec input limit = Inr (Inr (h, n)) \<Longrightarrow>
      ok limit h \<and> n = length (enc h) \<and> n \<le> length input \<and> take n input = enc h"
    and dec_final: "dec input limit \<noteq> Inr (Inl Incomplete) \<Longrightarrow> dec (input @ later) limit = dec input limit"
begin

lemma dec_iff:
  "dec input limit = Inr (Inr (h, n)) \<longleftrightarrow>
     ok limit h \<and> n = length (enc h) \<and> (\<exists>rest. input = enc h @ rest)"
  by (metis append_take_drop_id dec_enc dec_sound)

lemma dec_prefix:
  assumes "dec input limit = Inr (Inr (h, n))" and "k < n"
  shows "dec (take k input) limit = Inr (Inl Incomplete)"
proof (rule ccontr)
  assume "dec (take k input) limit \<noteq> Inr (Inl Incomplete)"
  then have "dec (take k input) limit = dec input limit"
    using dec_final [of "take k input" limit "drop k input"] by simp
  then have "n \<le> length (take k input)"
    using assms(1) dec_sound [of "take k input" limit h n] by simp
  then show False
    using assms(2) by simp
qed

lemma enc_prefix_free:
  assumes "ok limit h" and "ok limit h'" and "enc h @ rest = enc h' @ rest'"
  shows "h = h' \<and> rest = rest'"
  using dec_enc [OF assms(1), of rest] dec_enc [OF assms(2), of rest'] assms(3) by simp

lemma dec_same_bytes:
  assumes "dec input limit = Inr (Inr (h, n))" and "dec input' limit' = Inr (Inr (h, n'))"
  shows "n = n' \<and> take n input = take n' input'"
  using assms by (auto dest!: dec_sound)

end

interpretation wire: frame_codec header_decode header_bytes
  "\<lambda>limit h. wf_header h \<and> h_payload_len h \<le> limit"
  by unfold_locales (auto simp: header_decode_bytes header_decode_append dest: header_decode_ok)

section \<open>Properties\<close>

text \<open>C9: A header RFC 6455 allows, whose length is within the reader's limit, survives the wire:
  whatever \<open>encode\<close> writes at the front of a large enough buffer is decoded to the same header and to
  the number of bytes written, whatever follows it.\<close>

theorem header_roundtrip:
  assumes "wf_header h" and "h_payload_len h \<le> limit" and "header_encode h out = Some (out', n)"
  shows "header_decode (take n out' @ rest) limit = Inr (Inr (h, n))"
  using assms by (auto simp: header_encode_eq header_decode_bytes split: if_splits)

theorem header_roundtrip_witness:
  "header_decode (take 8 [0x02, 0xFE, 0x01, 0x2C, 1, 2, 3, 4, 0, 0] @ [7]) 1000 =
     Inr (Inr (\<lparr>h_fin = False, h_opcode = Binary, h_mask = Some (1, 2, 3, 4), h_payload_len = 300\<rparr>, 8))"
proof (rule header_roundtrip [where out = "[0, 0, 0, 0, 0, 0, 0, 0, 0, 0]"])
  let ?h = "\<lparr>h_fin = False, h_opcode = Binary, h_mask = Some (1, 2, 3, 4), h_payload_len = 300\<rparr>"
  show "wf_header ?h" and "h_payload_len ?h \<le> 1000"
    by (simp_all add: wf_header_def)
  show "header_encode ?h [0, 0, 0, 0, 0, 0, 0, 0, 0, 0] =
      Some ([0x02, 0xFE, 0x01, 0x2C, 1, 2, 3, 4, 0, 0], 8)"
    by code_simp
qed

text \<open>C25: A header has exactly one encoding: a successful decode consumed exactly the bytes that
  \<open>encode\<close> writes for the header it returned (no longer length form, no stray bit), the header is one
  RFC 6455 allows, its length is within the limit, and at most fourteen bytes were used.\<close>

theorem header_decode_canonical:
  assumes "header_decode input limit = Inr (Inr (h, n))" and "n \<le> length out"
  shows "header_encode h out = Some (take n input @ drop n out, n) \<and> n \<le> length input \<and>
     n \<le> MAX_ENCODED_LEN \<and> wf_header h \<and> h_payload_len h \<le> limit"
  using header_decode_ok [OF assms(1)] assms(2) encoded_len_bounds(2)
  by (auto simp: header_encode_eq)

theorem header_decode_canonical_witness:
  "header_encode \<lparr>h_fin = True, h_opcode = Text, h_mask = None, h_payload_len = 5\<rparr> [0, 0, 0] =
     Some (take 2 [0x81, 0x05, 0x68] @ drop 2 [0, 0, 0], 2)"
proof -
  have "header_decode [0x81, 0x05, 0x68] 1000 =
      Inr (Inr (\<lparr>h_fin = True, h_opcode = Text, h_mask = None, h_payload_len = 5\<rparr>, 2))"
    by (simp add: header_decode_def decode_len_def decode_mask_def opcode_from_bits_def)
  from header_decode_canonical [OF this, of "[0, 0, 0]"] show ?thesis
    by simp
qed

text \<open>C26: Decoding is incremental: as soon as the decoder returns a header or an error for a prefix of
  the stream, every longer prefix gives the same answer; every prefix shorter than a returned header
  is reported incomplete and never as an error; and fourteen bytes are always enough for an answer.\<close>

theorem header_decode_incremental:
  "(header_decode input limit \<noteq> Inr (Inl Incomplete) \<longrightarrow>
      header_decode (input @ later) limit = header_decode input limit) \<and>
   (header_decode input limit = Inr (Inr (h, n)) \<and> k < n \<longrightarrow>
      header_decode (take k input) limit = Inr (Inl Incomplete)) \<and>
   (header_decode input limit = Inr (Inl Incomplete) \<longrightarrow> length input < MAX_ENCODED_LEN)"
  using header_decode_append wire.dec_prefix header_decode_incomplete by blast

theorem header_decode_incremental_witness:
  "header_decode (take 1 [0x81, 0x05]) 1000 = Inr (Inl Incomplete) \<and>
   header_decode ([0x83, 0x00] @ [0x55]) 1000 = Inl (ReservedOpCode 3) \<and> length [0x81] < MAX_ENCODED_LEN"
proof -
  have "header_decode [0x81, 0x05] 1000 =
      Inr (Inr (\<lparr>h_fin = True, h_opcode = Text, h_mask = None, h_payload_len = 5\<rparr>, 2))"
    "header_decode [0x83, 0x00] 1000 = Inl (ReservedOpCode 3)"
    by (simp_all add: header_decode_def decode_len_def decode_mask_def opcode_from_bits_def)
  then show ?thesis
    using header_decode_incremental [of "[0x81, 0x05]" 1000 "[]" _ 2 1]
      header_decode_incremental [of "[0x83, 0x00]" 1000 "[0x55]"]
    by (simp add: MAX_ENCODED_LEN_def)
qed

end
