(* ===== verification/Utf8.thy ===== *)
theory Utf8
  imports Wss_Prelude
begin

text \<open>
  UTF-8 validation, as \<open>is_utf8\<close> of \<open>src/src/proto/message.rs\<close> uses it. \<open>utf8_valid\<close> is what the
  standard library's \<open>core::str::from_utf8\<close> accepts, written as its byte loop; it is shown to accept
  exactly the encodings of sequences of Unicode scalar values. With the feature \<open>simd-utf8\<close> the crate
  calls the third-party validator \<open>simdutf8\<close> instead, which is a parameter here.
\<close>

section \<open>Definitions\<close>

definition utf8_cont :: "u8 \<Rightarrow> bool" where
  "utf8_cont b \<longleftrightarrow> 0x80 \<le> b \<and> b \<le> 0xBF"

text \<open>The second byte allowed after a three-byte and a four-byte lead: overlong forms, surrogates and
  values past \<open>0x10FFFF\<close> are excluded here.\<close>

definition utf8_second3 :: "u8 \<Rightarrow> u8 \<Rightarrow> bool" where
  "utf8_second3 a b \<longleftrightarrow>
     (a = 0xE0 \<and> 0xA0 \<le> b \<and> b \<le> 0xBF) \<or>
     (0xE1 \<le> a \<and> a \<le> 0xEC \<and> utf8_cont b) \<or>
     (a = 0xED \<and> 0x80 \<le> b \<and> b \<le> 0x9F) \<or>
     (0xEE \<le> a \<and> a \<le> 0xEF \<and> utf8_cont b)"

definition utf8_second4 :: "u8 \<Rightarrow> u8 \<Rightarrow> bool" where
  "utf8_second4 a b \<longleftrightarrow>
     (a = 0xF0 \<and> 0x90 \<le> b \<and> b \<le> 0xBF) \<or>
     (0xF1 \<le> a \<and> a \<le> 0xF3 \<and> utf8_cont b) \<or>
     (a = 0xF4 \<and> 0x80 \<le> b \<and> b \<le> 0x8F)"

fun utf8_valid :: "bytes \<Rightarrow> bool" where
  "utf8_valid [] = True"
| "utf8_valid (a # bs) =
     (if a < 0x80 then utf8_valid bs
      else if 0xC2 \<le> a \<and> a \<le> 0xDF then
        (case bs of b # cs \<Rightarrow> utf8_cont b \<and> utf8_valid cs | _ \<Rightarrow> False)
      else if 0xE0 \<le> a \<and> a \<le> 0xEF then
        (case bs of b # c # ds \<Rightarrow> utf8_second3 a b \<and> utf8_cont c \<and> utf8_valid ds | _ \<Rightarrow> False)
      else if 0xF0 \<le> a \<and> a \<le> 0xF4 then
        (case bs of b # c # d # es \<Rightarrow> utf8_second4 a b \<and> utf8_cont c \<and> utf8_cont d \<and> utf8_valid es | _ \<Rightarrow> False)
      else False)"

text \<open>Which validator the crate is built with.\<close>

datatype utf8_impl = Std | Simd "bytes \<Rightarrow> bool"

fun is_utf8 :: "utf8_impl \<Rightarrow> bytes \<Rightarrow> bool" where
  "is_utf8 Std payload = utf8_valid payload"
| "is_utf8 (Simd basic_from_utf8) payload = basic_from_utf8 payload"

section \<open>Unicode scalar values\<close>

definition is_scalar :: "nat \<Rightarrow> bool" where
  "is_scalar c \<longleftrightarrow> c < 0xD800 \<or> (0xE000 \<le> c \<and> c \<le> 0x10FFFF)"

definition cont_byte :: "nat \<Rightarrow> u8" where
  "cont_byte n = of_nat (0x80 + n mod 64)"

definition lead_byte :: "nat \<Rightarrow> nat \<Rightarrow> u8" where
  "lead_byte base n = of_nat (base + n)"

definition encode_scalar :: "nat \<Rightarrow> bytes" where
  "encode_scalar c =
     (if c < 0x80 then [lead_byte 0 c]
      else if c < 0x800 then [lead_byte 0xC0 (c div 64), cont_byte c]
      else if c < 0x10000 then [lead_byte 0xE0 (c div 4096), cont_byte (c div 64), cont_byte c]
      else [lead_byte 0xF0 (c div 262144), cont_byte (c div 4096), cont_byte (c div 64), cont_byte c])"

definition utf8_encode :: "nat list \<Rightarrow> bytes" where
  "utf8_encode cs = concat (map encode_scalar cs)"

section \<open>The validator accepts exactly the encodings\<close>

lemma unat_lead_byte: "base + n < 256 \<Longrightarrow> unat (lead_byte base n) = base + n"
  unfolding lead_byte_def by (subst unat_of_nat) simp

lemma unat_cont_byte [simp]: "unat (cont_byte n) = 0x80 + n mod 64"
  using mod_less_divisor [of 64 n] unat_lead_byte [of 128 "n mod 64"]
  by (simp add: cont_byte_def lead_byte_def)

lemma utf8_cont_iff: "utf8_cont b \<longleftrightarrow> 128 \<le> unat b \<and> unat b \<le> 191"
  by (simp add: utf8_cont_def word_le_nat_alt)

lemma utf8_cont_byte [simp]: "utf8_cont (cont_byte n)"
  using mod_less_divisor [of 64 n] by (simp add: utf8_cont_iff)

lemma cont_byte_eq: "utf8_cont b \<Longrightarrow> n mod 64 = unat b - 128 \<Longrightarrow> cont_byte n = b"
  by (simp add: word_unat_eq_iff utf8_cont_iff)

text \<open>The validator on a lead byte of each class, in terms of the byte's number.\<close>

lemma utf8_valid_1: "unat a < 128 \<Longrightarrow> utf8_valid (a # bs) \<longleftrightarrow> utf8_valid bs"
  by (simp add: word_less_nat_alt)

lemma utf8_valid_2:
  "194 \<le> unat a \<Longrightarrow> unat a \<le> 223 \<Longrightarrow> utf8_valid (a # b # bs) \<longleftrightarrow> utf8_cont b \<and> utf8_valid bs"
  by (simp add: word_less_nat_alt word_le_nat_alt)

lemma utf8_valid_3:
  "224 \<le> unat a \<Longrightarrow> unat a \<le> 239 \<Longrightarrow>
   utf8_valid (a # b # c # bs) \<longleftrightarrow> utf8_second3 a b \<and> utf8_cont c \<and> utf8_valid bs"
  by (simp add: word_less_nat_alt word_le_nat_alt)

lemma utf8_valid_4:
  "240 \<le> unat a \<Longrightarrow> unat a \<le> 244 \<Longrightarrow>
   utf8_valid (a # b # c # d # bs) \<longleftrightarrow> utf8_second4 a b \<and> utf8_cont c \<and> utf8_cont d \<and> utf8_valid bs"
  by (simp add: word_less_nat_alt word_le_nat_alt)

declare utf8_valid.simps(2) [simp del]

lemma utf8_second3_iff:
  "utf8_second3 a b \<longleftrightarrow> 224 \<le> unat a \<and> unat a \<le> 239 \<and> utf8_cont b \<and>
     (unat a = 224 \<longrightarrow> 160 \<le> unat b) \<and> (unat a = 237 \<longrightarrow> unat b \<le> 159)"
  unfolding utf8_second3_def utf8_cont_iff by (simp add: word_le_nat_alt word_unat_eq_iff) linarith

lemma utf8_second4_iff:
  "utf8_second4 a b \<longleftrightarrow> 240 \<le> unat a \<and> unat a \<le> 244 \<and> utf8_cont b \<and>
     (unat a = 240 \<longrightarrow> 144 \<le> unat b) \<and> (unat a = 244 \<longrightarrow> unat b \<le> 143)"
  unfolding utf8_second4_def utf8_cont_iff by (simp add: word_le_nat_alt word_unat_eq_iff) linarith

lemma utf8_valid_encode_scalar:
  assumes "is_scalar c"
  shows "utf8_valid (encode_scalar c @ rest) \<longleftrightarrow> utf8_valid rest"
proof -
  consider (one) "c < 0x80" | (two) "0x80 \<le> c" "c < 0x800" | (three) "0x800 \<le> c" "c < 0x10000"
    | (four) "0x10000 \<le> c" "c \<le> 0x10FFFF"
    using assms unfolding is_scalar_def by linarith
  then show ?thesis
  proof cases
    case one
    then show ?thesis
      by (simp add: encode_scalar_def utf8_valid_1 unat_lead_byte)
  next
    case two
    then show ?thesis
      by (simp add: encode_scalar_def utf8_valid_2 unat_lead_byte)
  next
    case three
    define a b where "a = lead_byte 0xE0 (c div 4096)" and "b = cont_byte (c div 64)"
    have a: "unat a = 0xE0 + c div 4096" "unat a \<le> 0xEF" and b: "unat b = 0x80 + c div 64 mod 64"
      using three by (simp_all add: a_def b_def unat_lead_byte)
    have "c div 64 div 64 = c div 4096"
      by (simp add: div_mult2_eq [symmetric])
    then have "c div 64 = 64 * (c div 4096) + c div 64 mod 64"
      by (metis mult_div_mod_eq)
    then have "utf8_second3 a b"
      using three assms a b unfolding utf8_second3_iff is_scalar_def by (auto simp: b_def)
    then show ?thesis
      using three a by (simp add: encode_scalar_def utf8_valid_3 flip: a_def b_def)
  next
    case four
    define a b where "a = lead_byte 0xF0 (c div 262144)" and "b = cont_byte (c div 4096)"
    have a: "unat a = 0xF0 + c div 262144" "unat a \<le> 0xF4" and b: "unat b = 0x80 + c div 4096 mod 64"
      using four by (simp_all add: a_def b_def unat_lead_byte)
    have "c div 4096 div 64 = c div 262144"
      by (simp add: div_mult2_eq [symmetric])
    then have "c div 4096 = 64 * (c div 262144) + c div 4096 mod 64"
      by (metis mult_div_mod_eq)
    then have "utf8_second4 a b"
      using four a b unfolding utf8_second4_iff by (auto simp: b_def)
    then show ?thesis
      using four a by (simp add: encode_scalar_def utf8_valid_4 flip: a_def b_def)
  qed
qed

lemma utf8_valid_encode: "list_all is_scalar cs \<Longrightarrow> utf8_valid (utf8_encode cs @ rest) \<longleftrightarrow> utf8_valid rest"
  by (induction cs) (simp_all add: utf8_encode_def utf8_valid_encode_scalar)

text \<open>Conversely, every accepted sequence is the encoding of a scalar value followed by an accepted
  sequence.\<close>

lemma utf8_cont_digit:
  assumes "utf8_cont b"
  obtains y where "y < 64" and "unat b = 128 + y" and "\<forall>n. n mod 64 = y \<longrightarrow> cont_byte n = b"
proof
  show "unat b - 128 < 64" "unat b = 128 + (unat b - 128)"
    using assms by (auto simp: utf8_cont_iff)
  show "\<forall>n. n mod 64 = unat b - 128 \<longrightarrow> cont_byte n = b"
    using cont_byte_eq [OF assms] by blast
qed

lemma lead_byte_eq: "unat a = base + n \<Longrightarrow> lead_byte base n = a"
  using unsigned_less [of a, where ?'a = nat] by (simp add: word_unat_eq_iff unat_lead_byte)

lemma base64_digits: "y < 64 \<Longrightarrow> (64 * x + y) div 64 = (x :: nat)" "y < 64 \<Longrightarrow> (64 * x + y) mod 64 = y"
  by simp_all

lemma encode_scalar_2:
  assumes "194 \<le> unat a" "unat a \<le> 223" "utf8_cont b"
  shows "\<exists>v. is_scalar v \<and> encode_scalar v = [a, b]"
proof -
  obtain x where x: "unat a = 192 + x"
    using assms(1) le_Suc_ex [of 192 "unat a"] by auto
  obtain y where y: "y < 64" "unat b = 128 + y" "\<forall>n. n mod 64 = y \<longrightarrow> cont_byte n = b"
    using assms(3) by (rule utf8_cont_digit)
  have "128 \<le> 64 * x + y" "64 * x + y < 2048"
    using assms(1,2) x y(1) by simp_all
  then have "is_scalar (64 * x + y) \<and> encode_scalar (64 * x + y) = [a, b]"
    using y base64_digits [OF y(1), of x] lead_byte_eq [OF x] by (simp add: is_scalar_def encode_scalar_def)
  then show ?thesis ..
qed

lemma encode_scalar_3:
  assumes "utf8_second3 a b" "utf8_cont c"
  shows "\<exists>v. is_scalar v \<and> encode_scalar v = [a, b, c]"
proof -
  have ab: "224 \<le> unat a" "unat a \<le> 239" "unat a = 224 \<longrightarrow> 160 \<le> unat b" "unat a = 237 \<longrightarrow> unat b \<le> 159"
      "utf8_cont b"
    using assms(1) by (simp_all add: utf8_second3_iff)
  obtain x where x: "unat a = 224 + x"
    using ab(1) le_Suc_ex [of 224 "unat a"] by auto
  obtain y where y: "y < 64" "unat b = 128 + y" "\<forall>n. n mod 64 = y \<longrightarrow> cont_byte n = b"
    using ab(5) by (rule utf8_cont_digit)
  obtain z where z: "z < 64" "unat c = 128 + z" "\<forall>n. n mod 64 = z \<longrightarrow> cont_byte n = c"
    using assms(2) by (rule utf8_cont_digit)
  define v where "v = 64 * (64 * x + y) + z"
  have d: "v div 64 = 64 * x + y" "v mod 64 = z" "v div 4096 = x" "v div 64 mod 64 = y"
    using base64_digits [OF z(1), of "64 * x + y"] base64_digits [OF y(1), of x] div_mult2_eq [of v 64 64]
    by (simp_all add: v_def)
  have x': "x \<le> 15" "x = 0 \<longrightarrow> 32 \<le> y" "x = 13 \<longrightarrow> y \<le> 31"
    using ab(2-4) x y(2) by auto
  have "2048 \<le> v"
    using x'(2) by (cases "x = 0") (auto simp: v_def)
  moreover have "v < 65536"
    using x'(1) y(1) z(1) by (simp add: v_def)
  moreover have "v < 0xD800 \<or> 0xE000 \<le> v"
    using x'(3) y(1) z(1) by (cases x "13 :: nat" rule: linorder_cases) (auto simp: v_def)
  ultimately have "is_scalar v \<and> encode_scalar v = [a, b, c]"
    using y(3) [rule_format, OF d(4)] z(3) [rule_format, OF d(2)] lead_byte_eq [OF x] d(3) by (auto simp: is_scalar_def encode_scalar_def)
  then show ?thesis ..
qed

lemma encode_scalar_4:
  assumes "utf8_second4 a b" "utf8_cont c" "utf8_cont d"
  shows "\<exists>v. is_scalar v \<and> encode_scalar v = [a, b, c, d]"
proof -
  have ab: "240 \<le> unat a" "unat a \<le> 244" "unat a = 240 \<longrightarrow> 144 \<le> unat b" "unat a = 244 \<longrightarrow> unat b \<le> 143"
      "utf8_cont b"
    using assms(1) by (simp_all add: utf8_second4_iff)
  obtain w where w: "unat a = 240 + w"
    using ab(1) le_Suc_ex [of 240 "unat a"] by auto
  obtain x where x: "x < 64" "unat b = 128 + x" "\<forall>n. n mod 64 = x \<longrightarrow> cont_byte n = b"
    using ab(5) by (rule utf8_cont_digit)
  obtain y where y: "y < 64" "unat c = 128 + y" "\<forall>n. n mod 64 = y \<longrightarrow> cont_byte n = c"
    using assms(2) by (rule utf8_cont_digit)
  obtain z where z: "z < 64" "unat d = 128 + z" "\<forall>n. n mod 64 = z \<longrightarrow> cont_byte n = d"
    using assms(3) by (rule utf8_cont_digit)
  define v where "v = 64 * (64 * (64 * w + x) + y) + z"
  have steps: "v div 64 = 64 * (64 * w + x) + y" "v div 64 div 64 = 64 * w + x" "v div 64 div 64 div 64 = w"
    using base64_digits [OF z(1), of "64 * (64 * w + x) + y"] base64_digits [OF y(1), of "64 * w + x"]
      base64_digits [OF x(1), of w] by (simp_all only: v_def)
  have "v div 4096 = v div 64 div 64" "v div 262144 = v div 64 div 64 div 64"
    using div_mult2_eq [of v 64 64] div_mult2_eq [of v 4096 64] by simp_all
  then have d: "v mod 64 = z" "v div 64 mod 64 = y" "v div 4096 mod 64 = x" "v div 262144 = w"
    using base64_digits [OF z(1), of "64 * (64 * w + x) + y"] base64_digits [OF y(1), of "64 * w + x"]
      base64_digits [OF x(1), of w] steps by (simp_all only: v_def)
  have w': "w \<le> 4" "w = 0 \<longrightarrow> 16 \<le> x" "w = 4 \<longrightarrow> x \<le> 15"
    using ab(2-4) w x(2) by auto
  have "65536 \<le> v"
    using w'(2) by (cases "w = 0") (auto simp: v_def)
  moreover have "v \<le> 0x10FFFF"
    using w'(1,3) x(1) y(1) z(1) by (cases "w = 4") (auto simp: v_def)
  ultimately have "is_scalar v \<and> encode_scalar v = [a, b, c, d]"
    using x(3) [rule_format, OF d(3)] y(3) [rule_format, OF d(2)] z(3) [rule_format, OF d(1)] lead_byte_eq [OF w] d(4)
    by (auto simp: is_scalar_def encode_scalar_def)
  then show ?thesis ..
qed

lemma encode_scalar_1: "unat a < 128 \<Longrightarrow> \<exists>v. is_scalar v \<and> encode_scalar v = [a]"
  using lead_byte_eq [of a 0 "unat a"] by (intro exI [of _ "unat a"]) (simp add: is_scalar_def encode_scalar_def)

lemma utf8_valid_step:
  assumes "utf8_valid bs" and "bs \<noteq> []"
  shows "\<exists>v rest. is_scalar v \<and> bs = encode_scalar v @ rest \<and> utf8_valid rest"
proof -
  from assms(2) obtain a as where bs: "bs = a # as"
    by (cases bs) auto
  consider "unat a < 128" "utf8_valid as"
    | b cs where "194 \<le> unat a" "unat a \<le> 223" "as = b # cs" "utf8_cont b" "utf8_valid cs"
    | b c ds where "as = b # c # ds" "utf8_second3 a b" "utf8_cont c" "utf8_valid ds"
    | b c d es where "as = b # c # d # es" "utf8_second4 a b" "utf8_cont c" "utf8_cont d" "utf8_valid es"
    using assms(1) unfolding bs utf8_valid.simps(2)
    by (auto simp: word_le_nat_alt word_less_nat_alt split: if_splits list.splits)
  then show ?thesis
  proof cases
    case 1
    then show ?thesis
      using encode_scalar_1 [of a] by (metis append_Cons append_Nil bs)
  next
    case 2
    then show ?thesis
      using encode_scalar_2 [of a b] by (metis append_Cons append_Nil bs)
  next
    case 3
    then show ?thesis
      using encode_scalar_3 [of a b c] by (metis append_Cons append_Nil bs)
  next
    case 4
    then show ?thesis
      using encode_scalar_4 [of a b c d] by (metis append_Cons append_Nil bs)
  qed
qed

lemma encode_scalar_nonempty [simp]: "encode_scalar v \<noteq> []"
  by (simp add: encode_scalar_def)

lemma utf8_valid_decodes: "utf8_valid bs \<Longrightarrow> \<exists>cs. list_all is_scalar cs \<and> bs = utf8_encode cs"
proof (induction bs rule: length_induct)
  case (1 bs)
  show ?case
  proof (cases "bs = []")
    case True
    then show ?thesis
      by (intro exI [of _ "[]"]) (simp add: utf8_encode_def)
  next
    case False
    then obtain v rest where v: "is_scalar v" "bs = encode_scalar v @ rest" "utf8_valid rest"
      using utf8_valid_step "1.prems" by blast
    then have "length rest < length bs"
      by simp
    then obtain cs where "list_all is_scalar cs" "rest = utf8_encode cs"
      using "1.IH" v(3) by blast
    then show ?thesis
      using v(1,2) by (intro exI [of _ "v # cs"]) (simp add: utf8_encode_def)
  qed
qed

lemma utf8_valid_iff_encoding: "utf8_valid bs \<longleftrightarrow> (\<exists>cs. list_all is_scalar cs \<and> bs = utf8_encode cs)"
  using utf8_valid_decodes utf8_valid_encode [of _ "[]"] by auto

lemma utf8_valid_append: "utf8_valid as \<Longrightarrow> utf8_valid (as @ bs) \<longleftrightarrow> utf8_valid bs"
  using utf8_valid_decodes utf8_valid_encode by blast

section \<open>Builds whose validator answers the same question\<close>

text \<open>What \<open>message.rs\<close> says of the two validators: a frame that fails one fails the other.\<close>

locale utf8_build =
  fixes u :: utf8_impl
  assumes is_utf8_iff: "is_utf8 u bs \<longleftrightarrow> utf8_valid bs"
begin

lemma is_utf8_append: "is_utf8 u as \<Longrightarrow> is_utf8 u (as @ bs) \<longleftrightarrow> is_utf8 u bs"
  by (simp add: is_utf8_iff utf8_valid_append)

lemma is_utf8_encoding: "is_utf8 u bs \<longleftrightarrow> (\<exists>cs. list_all is_scalar cs \<and> bs = utf8_encode cs)"
  by (simp add: is_utf8_iff utf8_valid_iff_encoding)

end

interpretation std_utf8: utf8_build Std
  by unfold_locales simp

end
