(* ===== verification/Message.thy ===== *)
theory Message
  imports Opcode Utf8
begin

text \<open>
  Messages (\<open>src/src/proto/message.rs\<close>): reassembly of frames, the limits on it, UTF-8 validation
  across fragments and the body of a close frame. A Rust panic (the \<open>unreachable!\<close> arms) is the value
  \<open>None\<close>; the invariant of the assembler is what shows that it is never taken.
\<close>

section \<open>Definitions\<close>

record close_frame =
  cf_code :: close_code
  cf_reason :: bytes

datatype message =
    MText bytes
  | MBinary bytes
  | MPing bytes
  | MPong bytes
  | MClose "close_frame option"

datatype protocol_error =
    UnexpectedContinuation
  | InterleavedDataFrame
  | InvalidUtf8
  | MalformedCloseFrame
  | InvalidCloseCode
  | MessageTooLarge

record limits =
  max_frame :: u64
  max_message :: usize

definition default_limits :: limits where
  "default_limits = \<lparr>max_frame = 16 * 1024 * 1024, max_message = 16 * 1024 * 1024\<rparr>"

record assembler =
  a_limits :: limits
  a_partial :: "(opcode \<times> bytes) option"
  a_closed :: bool

definition assembler_new :: "limits \<Rightarrow> assembler" where
  "assembler_new l = \<lparr>a_limits = l, a_partial = None, a_closed = False\<rparr>"

definition assembler_limits :: "assembler \<Rightarrow> limits" where
  [simp]: "assembler_limits a = a_limits a"

definition assembler_is_closed :: "assembler \<Rightarrow> bool" where
  [simp]: "assembler_is_closed a = a_closed a"

definition parse_close_body :: "utf8_impl \<Rightarrow> bytes \<Rightarrow> protocol_error + close_frame option" where
  "parse_close_body u payload =
     (if payload = [] then Inr None
      else if length payload = 1 then Inl MalformedCloseFrame
      else
        let code = CloseCode (be_word [payload ! 0, payload ! 1]) in
        if \<not> is_sendable code then Inl InvalidCloseCode
        else
          let reason = drop 2 payload in
          if \<not> is_utf8 u reason then Inl InvalidUtf8
          else Inr (Some \<lparr>cf_code = code, cf_reason = reason\<rparr>))"

definition finish_unfragmented :: "utf8_impl \<Rightarrow> opcode \<Rightarrow> bytes \<Rightarrow> (protocol_error + message) option" where
  "finish_unfragmented u kind payload =
     (case kind of
        Text \<Rightarrow> Some (if \<not> is_utf8 u payload then Inl InvalidUtf8 else Inr (MText payload))
      | Binary \<Rightarrow> Some (Inr (MBinary payload))
      | _ \<Rightarrow> None)"

definition assembler_finish :: "utf8_impl \<Rightarrow> opcode \<Rightarrow> bytes \<Rightarrow> (protocol_error + message) option" where
  "assembler_finish u kind buffer = (let payload = buffer in finish_unfragmented u kind payload)"

definition accept_control ::
    "utf8_impl \<Rightarrow> assembler \<Rightarrow> opcode \<Rightarrow> bytes \<Rightarrow> ((protocol_error + message) \<times> assembler) option" where
  "accept_control u a op payload =
     (case op of
        Ping \<Rightarrow> Some (Inr (MPing payload), a)
      | Pong \<Rightarrow> Some (Inr (MPong payload), a)
      | Close \<Rightarrow>
          let a' = a\<lparr>a_closed := True\<rparr> in
          Some (case parse_close_body u payload of
                  Inl e \<Rightarrow> (Inl e, a')
                | Inr frame \<Rightarrow> (Inr (MClose frame), a'))
      | _ \<Rightarrow> None)"

text \<open>\<open>Result::map(Some)\<close>.\<close>

abbreviation some_message :: "protocol_error + message \<Rightarrow> protocol_error + message option" where
  "some_message \<equiv> map_sum id Some"

text \<open>\<open>usize::saturating_add\<close> on two lengths.\<close>

definition saturating_len :: "nat \<Rightarrow> nat \<Rightarrow> nat" where
  "saturating_len m n = min (m + n) (2 ^ 64 - 1)"

text \<open>The arms of the \<open>match opcode\<close> in \<open>Assembler::accept\<close>.\<close>

definition accept_continuation ::
    "utf8_impl \<Rightarrow> assembler \<Rightarrow> bool \<Rightarrow> bytes \<Rightarrow> ((protocol_error + message option) \<times> assembler) option" where
  "accept_continuation u a fin payload =
     (case a_partial a of
        None \<Rightarrow> Some (Inl UnexpectedContinuation, a)
      | Some (kind, buffer) \<Rightarrow>
          if saturating_len (length buffer) (length payload) > unat (max_message (a_limits a)) then
            Some (Inl MessageTooLarge, a)
          else
            let buffer' = buffer @ payload in
            if \<not> fin then Some (Inr None, a\<lparr>a_partial := Some (kind, buffer')\<rparr>)
            else
              map_option (\<lambda>r. (some_message r, a\<lparr>a_partial := None\<rparr>)) (assembler_finish u kind buffer'))"

definition accept_data ::
    "utf8_impl \<Rightarrow> assembler \<Rightarrow> opcode \<Rightarrow> bool \<Rightarrow> bytes \<Rightarrow>
       ((protocol_error + message option) \<times> assembler) option" where
  "accept_data u a op fin payload =
     (if a_partial a \<noteq> None then Some (Inl InterleavedDataFrame, a)
      else if length payload > unat (max_message (a_limits a)) then Some (Inl MessageTooLarge, a)
      else if fin then map_option (\<lambda>r. (some_message r, a)) (finish_unfragmented u op payload)
      else Some (Inr None, a\<lparr>a_partial := Some (op, payload)\<rparr>))"

definition assembler_accept ::
    "utf8_impl \<Rightarrow> assembler \<Rightarrow> opcode \<Rightarrow> bool \<Rightarrow> bytes \<Rightarrow>
       ((protocol_error + message option) \<times> assembler) option" where
  "assembler_accept u a op fin payload =
     (if a_closed a then Some (Inr None, a)
      else if is_control op then
        map_option (\<lambda>(r, a'). (some_message r, a')) (accept_control u a op payload)
      else
        case op of
          Continuation \<Rightarrow> accept_continuation u a fin payload
        | Text \<Rightarrow> accept_data u a op fin payload
        | Binary \<Rightarrow> accept_data u a op fin payload
        | _ \<Rightarrow> None)"

section \<open>Feeding a sequence of frames\<close>

type_synonym frame = "opcode \<times> bool \<times> bytes"

text \<open>Frames fed one after the other until one is refused: the error if there is one, the messages
  delivered before it, and the assembler after it.\<close>

fun assembler_run ::
    "utf8_impl \<Rightarrow> assembler \<Rightarrow> frame list \<Rightarrow> (protocol_error option \<times> message list \<times> assembler) option" where
  "assembler_run u a [] = Some (None, [], a)"
| "assembler_run u a ((op, fin, payload) # fs) =
     (case assembler_accept u a op fin payload of
        None \<Rightarrow> None
      | Some (Inl e, a') \<Rightarrow> Some (Some e, [], a')
      | Some (Inr m, a') \<Rightarrow>
          map_option (\<lambda>(e, ms, a''). (e, (case m of None \<Rightarrow> ms | Some x \<Rightarrow> x # ms), a'')) (assembler_run u a' fs))"

text \<open>The assemblers that any sequence of frames can lead to, errors included.\<close>

inductive reach_assembler :: "utf8_impl \<Rightarrow> limits \<Rightarrow> assembler \<Rightarrow> bool" for u l where
  fresh: "reach_assembler u l (assembler_new l)"
| fed: "reach_assembler u l a \<Longrightarrow> assembler_accept u a op fin payload = Some (r, a') \<Longrightarrow> reach_assembler u l a'"

section \<open>Conversations\<close>

text \<open>
  What RFC 6455 5.4 allows between two idle points: a whole data message, a control frame, or a
  fragmented message whose fragments are interleaved with control frames.
\<close>

datatype piece = Fragment bytes | Between opcode bytes

datatype item =
    Whole opcode bytes
  | Probe opcode bytes
  | Fragmented opcode bytes "piece list" bytes

fun piece_frame :: "piece \<Rightarrow> frame" where
  "piece_frame (Fragment p) = (Continuation, False, p)"
| "piece_frame (Between op p) = (op, True, p)"

fun item_frames :: "item \<Rightarrow> frame list" where
  "item_frames (Whole op p) = [(op, True, p)]"
| "item_frames (Probe op p) = [(op, True, p)]"
| "item_frames (Fragmented op p ps q) = (op, False, p) # map piece_frame ps @ [(Continuation, True, q)]"

fun piece_bytes :: "piece \<Rightarrow> bytes" where
  "piece_bytes (Fragment p) = p"
| "piece_bytes (Between op p) = []"

definition item_bytes :: "bytes \<Rightarrow> piece list \<Rightarrow> bytes \<Rightarrow> bytes" where
  "item_bytes p ps q = p @ concat (map piece_bytes ps) @ q"

fun data_message :: "opcode \<Rightarrow> bytes \<Rightarrow> message" where
  "data_message Text p = MText p"
| "data_message op p = MBinary p"

fun probe_message :: "opcode \<Rightarrow> bytes \<Rightarrow> message" where
  "probe_message Ping p = MPing p"
| "probe_message op p = MPong p"

fun piece_messages :: "piece \<Rightarrow> message list" where
  "piece_messages (Fragment p) = []"
| "piece_messages (Between op p) = [probe_message op p]"

fun item_messages :: "item \<Rightarrow> message list" where
  "item_messages (Whole op p) = [data_message op p]"
| "item_messages (Probe op p) = [probe_message op p]"
| "item_messages (Fragmented op p ps q) =
     concat (map piece_messages ps) @ [data_message op (item_bytes p ps q)]"

fun piece_ok :: "piece \<Rightarrow> bool" where
  "piece_ok (Fragment p) = True"
| "piece_ok (Between op p) \<longleftrightarrow> op = Ping \<or> op = Pong"

definition data_ok :: "utf8_impl \<Rightarrow> limits \<Rightarrow> opcode \<Rightarrow> bytes \<Rightarrow> bool" where
  "data_ok u l op p \<longleftrightarrow> (op = Text \<and> is_utf8 u p \<or> op = Binary) \<and> length p \<le> unat (max_message l)"

fun item_ok :: "utf8_impl \<Rightarrow> limits \<Rightarrow> item \<Rightarrow> bool" where
  "item_ok u l (Whole op p) = data_ok u l op p"
| "item_ok u l (Probe op p) \<longleftrightarrow> op = Ping \<or> op = Pong"
| "item_ok u l (Fragmented op p ps q) \<longleftrightarrow> list_all piece_ok ps \<and> data_ok u l op (item_bytes p ps q)"

section \<open>Lemmas\<close>

lemmas accept_defs = assembler_accept_def accept_continuation_def accept_data_def accept_control_def
  assembler_finish_def finish_unfragmented_def

lemmas utf8_eval = utf8_valid.simps utf8_cont_def utf8_second3_def utf8_second4_def

lemmas accept_eval = accept_defs saturating_len_def default_limits_def assembler_new_def utf8_eval

lemma saturating_len_le: "saturating_len m n \<le> m + n"
  by (simp add: saturating_len_def)

text \<open>The invariant: the partial message has a data opcode and a length within the limit. (The length
  is cut off at \<open>usize::MAX\<close>, where the code's addition saturates.)\<close>

definition assembler_inv :: "assembler \<Rightarrow> bool" where
  "assembler_inv a \<longleftrightarrow>
     (case a_partial a of
        None \<Rightarrow> True
      | Some (kind, buffer) \<Rightarrow>
          (kind = Text \<or> kind = Binary) \<and> saturating_len (length buffer) 0 \<le> unat (max_message (a_limits a)))"

lemma assembler_inv_new [simp]: "assembler_inv (assembler_new l)"
  by (simp add: assembler_inv_def assembler_new_def)

lemma accept_control_state:
  "accept_control u a op payload = Some (r, a') \<Longrightarrow> a' = a\<lparr>a_closed := a_closed a \<or> op = Close\<rparr>"
  by (auto simp: accept_control_def Let_def split: opcode.splits sum.splits)

lemma accept_continuation_inv:
  "assembler_inv a \<Longrightarrow> accept_continuation u a fin payload = Some (r, a') \<Longrightarrow>
   assembler_inv a' \<and> a_limits a' = a_limits a \<and> a_closed a' = a_closed a"
  by (auto simp: accept_continuation_def assembler_inv_def saturating_len_def Let_def
      split: if_splits option.splits)

lemma accept_data_inv:
  "assembler_inv a \<Longrightarrow> op = Text \<or> op = Binary \<Longrightarrow> accept_data u a op fin payload = Some (r, a') \<Longrightarrow>
   assembler_inv a' \<and> a_limits a' = a_limits a \<and> a_closed a' = a_closed a"
  by (auto simp: accept_data_def assembler_inv_def saturating_len_def split: if_splits)

lemma assembler_accept_step:
  assumes "assembler_inv a" and "assembler_accept u a op fin payload = Some (r, a')"
  shows "assembler_inv a' \<and> a_limits a' = a_limits a \<and> a_closed a' = (a_closed a \<or> op = Close)"
proof (cases "a_closed a")
  case False
  then consider "is_control op" "\<exists>r'. accept_control u a op payload = Some (r', a')"
    | "op = Continuation" "accept_continuation u a fin payload = Some (r, a')"
    | "op = Text \<or> op = Binary" "accept_data u a op fin payload = Some (r, a')"
    using assms(2) by (cases op) (auto simp: assembler_accept_def)
  then show ?thesis
  proof cases
    case 1
    then show ?thesis
      using assms(1) by (auto dest!: accept_control_state simp: assembler_inv_def split: option.splits)
  next
    case 2
    then show ?thesis
      using accept_continuation_inv [OF assms(1)] by auto
  next
    case 3
    then show ?thesis
      using accept_data_inv [OF assms(1)] by auto
  qed
qed (use assms in \<open>auto simp: assembler_accept_def\<close>)

lemma assembler_accept_closed [simp]:
  "a_closed a \<Longrightarrow> assembler_accept u a op fin payload = Some (Inr None, a)"
  by (simp add: assembler_accept_def)

lemma assembler_accept_total: "assembler_inv a \<Longrightarrow> \<exists>r. assembler_accept u a op fin payload = Some r"
  by (cases op)
    (auto simp: accept_defs assembler_inv_def Let_def split: option.splits)

lemma reach_assembler_inv: "reach_assembler u l a \<Longrightarrow> assembler_inv a \<and> a_limits a = l"
proof (induction rule: reach_assembler.induct)
  case fresh
  show ?case
    by (simp add: assembler_new_def assembler_inv_def)
next
  case (fed a op fin payload r a')
  then show ?case
    using assembler_accept_step by blast
qed

text \<open>What is delivered.\<close>

definition message_ok :: "limits \<Rightarrow> message \<Rightarrow> bool" where
  "message_ok l m \<longleftrightarrow>
     (case m of
        MText p \<Rightarrow> utf8_valid p \<and> saturating_len (length p) 0 \<le> unat (max_message l)
      | MBinary p \<Rightarrow> saturating_len (length p) 0 \<le> unat (max_message l)
      | MClose (Some f) \<Rightarrow> is_sendable (cf_code f) \<and> utf8_valid (cf_reason f)
      | _ \<Rightarrow> True)"

context utf8_build
begin

lemma parse_close_body_ok:
  "parse_close_body u payload = Inr (Some f) \<Longrightarrow>
     is_sendable (cf_code f) \<and> utf8_valid (cf_reason f) \<and> 2 \<le> length payload \<and>
     payload = be_bytes 2 (close_number (cf_code f)) @ cf_reason f"
proof -
  assume *: "parse_close_body u payload = Inr (Some f)"
  then have len: "2 \<le> length payload"
    by (cases payload; cases "tl payload") (auto simp: parse_close_body_def split: if_splits)
  then obtain a b rest where p: "payload = a # b # rest"
    using two_elements by blast
  then show ?thesis
    using * by (auto simp: parse_close_body_def is_utf8_iff Let_def be_bytes_be_word split: if_splits)
qed

lemma accept_control_ok: "accept_control u a op payload = Some (Inr m, a') \<Longrightarrow> message_ok l m"
  using parse_close_body_ok [of payload]
  by (auto simp: accept_control_def message_ok_def Let_def split: opcode.splits sum.splits option.splits)

lemma finish_ok:
  "finish_unfragmented u kind payload = Some (Inr m) \<Longrightarrow>
   saturating_len (length payload) 0 \<le> unat (max_message l) \<Longrightarrow> message_ok l m"
  by (auto simp: finish_unfragmented_def message_ok_def is_utf8_iff split: opcode.splits if_splits)

lemma accept_ok:
  assumes "assembler_accept u a op fin payload = Some (Inr (Some m), a')"
  shows "message_ok (a_limits a) m"
proof -
  have inr: "map_sum id Some r = Inr (Some m) \<longleftrightarrow> r = Inr m" for r :: "protocol_error + message"
    by (cases r) auto
  consider "accept_control u a op payload = Some (Inr m, a')"
    | "accept_continuation u a fin payload = Some (Inr (Some m), a')"
    | "accept_data u a op fin payload = Some (Inr (Some m), a')"
    using assms by (cases op) (auto simp: assembler_accept_def inr split: if_splits)
  then show ?thesis
  proof cases
    case 1
    then show ?thesis
      by (rule accept_control_ok)
  next
    case 2
    then show ?thesis
      using finish_ok
      by (auto simp: accept_continuation_def assembler_finish_def inr saturating_len_def Let_def
          split: option.splits if_splits)
  next
    case 3
    then show ?thesis
      using finish_ok
      by (auto simp: accept_data_def inr saturating_len_def split: if_splits)
  qed
qed

end

section \<open>Runs\<close>

lemma assembler_run_append:
  "assembler_run u a fs = Some (None, ms, a') \<Longrightarrow>
   assembler_run u a (fs @ gs) = map_option (\<lambda>(e, ms', a''). (e, ms @ ms', a'')) (assembler_run u a' gs)"
proof (induction fs arbitrary: a ms)
  case Nil
  then show ?case
    by (simp add: option.map_ident_strong)
next
  case (Cons f fs)
  obtain op fin payload where f: "f = (op, fin, payload)"
    by (cases f)
  obtain m b ms1 where "assembler_accept u a op fin payload = Some (Inr m, b)"
    and "assembler_run u b fs = Some (None, ms1, a')" and "ms = (case m of None \<Rightarrow> ms1 | Some x \<Rightarrow> x # ms1)"
    using Cons.prems by (auto simp: f split: option.splits sum.splits)
  then show ?case
    using Cons.IH [of b ms1]
    by (simp add: f option.map_comp comp_def split_def split: option.split)
qed

lemma assembler_run_closed: "a_closed a \<Longrightarrow> assembler_run u a fs = Some (None, [], a)"
  by (induction fs) auto

lemma assembler_run_total: "assembler_inv a \<Longrightarrow> \<exists>r. assembler_run u a fs = Some r"
proof (induction fs arbitrary: a)
  case (Cons f fs)
  obtain op fin payload where f: "f = (op, fin, payload)"
    by (cases f)
  obtain r b where r: "assembler_accept u a op fin payload = Some (r, b)"
    using assembler_accept_total [OF Cons.prems] by fastforce
  then have "assembler_inv b"
    using assembler_accept_step [OF Cons.prems] by blast
  then obtain r' where "assembler_run u b fs = Some r'"
    using Cons.IH by blast
  then show ?case
    by (cases r; cases r') (auto simp: f r)
qed simp

lemma accept_not_closed_message:
  "assembler_accept u a op fin payload = Some (Inr (Some (MClose c)), a') \<Longrightarrow> a_closed a'"
  by (cases op)
    (auto simp: accept_defs Let_def split: if_splits option.splits sum.splits opcode.splits)

text \<open>Reassembly of one fragmented message.\<close>

lemma finish_data_ok:
  "data_ok u l op p \<Longrightarrow> finish_unfragmented u op p = Some (Inr (data_message op p))"
  by (auto simp: data_ok_def finish_unfragmented_def)

lemma accept_probe:
  "\<not> a_closed a \<Longrightarrow> op = Ping \<or> op = Pong \<Longrightarrow>
   assembler_accept u a op fin p = Some (Inr (Some (probe_message op p)), a)"
  by (auto simp: assembler_accept_def accept_control_def)

lemma run_pieces:
  assumes "\<not> a_closed a" and "a_partial a = Some (op, buffer)" and "list_all piece_ok ps"
    and "length buffer + length (concat (map piece_bytes ps)) \<le> unat (max_message (a_limits a))"
  shows "assembler_run u a (map piece_frame ps) =
     Some (None, concat (map piece_messages ps),
           a\<lparr>a_partial := Some (op, buffer @ concat (map piece_bytes ps))\<rparr>)"
  using assms
proof (induction ps arbitrary: a buffer)
  case (Cons p ps)
  show ?case
  proof (cases p)
    case (Fragment q)
    have "\<not> unat (max_message (a_limits a)) < saturating_len (length buffer) (length q)"
      using Cons.prems(4) Fragment saturating_len_le [of "length buffer" "length q"] by simp
    then have "assembler_accept u a Continuation False q = Some (Inr None, a\<lparr>a_partial := Some (op, buffer @ q)\<rparr>)"
      using Cons.prems by (simp add: assembler_accept_def accept_continuation_def)
    then show ?thesis
      using Cons.IH [of "a\<lparr>a_partial := Some (op, buffer @ q)\<rparr>" "buffer @ q"] Cons.prems
      by (simp add: Fragment)
  next
    case (Between op' q)
    then show ?thesis
      using Cons.IH [of a buffer] Cons.prems accept_probe [of a op' u True q] by auto
  qed
qed auto

lemma run_fragmented:
  assumes "\<not> a_closed a" and "a_partial a = None" and "item_ok u (a_limits a) (Fragmented op p ps q)"
  shows "assembler_run u a (item_frames (Fragmented op p ps q)) =
     Some (None, item_messages (Fragmented op p ps q), a)"
proof -
  let ?b = "a\<lparr>a_partial := Some (op, p)\<rparr>"
  let ?c = "a\<lparr>a_partial := Some (op, p @ concat (map piece_bytes ps))\<rparr>"
  have ok: "list_all piece_ok ps" "data_ok u (a_limits a) op (item_bytes p ps q)"
    using assms(3) by simp_all
  then have len: "length p + length (concat (map piece_bytes ps)) + length q \<le> unat (max_message (a_limits a))"
    and op: "op = Text \<or> op = Binary"
    by (auto simp: data_ok_def item_bytes_def)
  have first: "assembler_accept u a op False p = Some (Inr None, ?b)"
    using assms(1,2) len op by (auto simp: assembler_accept_def accept_data_def)
  have middle: "assembler_run u ?b (map piece_frame ps) = Some (None, concat (map piece_messages ps), ?c)"
    using run_pieces [of ?b op p ps u] assms(1) ok(1) len by simp
  have "\<not> unat (max_message (a_limits a)) < saturating_len (length (p @ concat (map piece_bytes ps))) (length q)"
    using len saturating_len_le [of "length (p @ concat (map piece_bytes ps))" "length q"] by simp
  then have last: "assembler_accept u ?c Continuation True q = Some (Inr (Some (data_message op (item_bytes p ps q))), a)"
    using assms(1,2) finish_data_ok [OF ok(2)]
    by (simp add: assembler_accept_def accept_continuation_def assembler_finish_def item_bytes_def)
  show ?thesis
    using first middle last by (simp add: assembler_run_append)
qed

lemma run_item:
  assumes "\<not> a_closed a" and "a_partial a = None" and "item_ok u (a_limits a) i"
  shows "assembler_run u a (item_frames i) = Some (None, item_messages i, a)"
proof (cases i)
  case (Whole op p)
  then show ?thesis
    using assms finish_data_ok [of u "a_limits a" op p]
    by (auto simp: assembler_accept_def accept_data_def data_ok_def)
next
  case (Probe op p)
  then show ?thesis
    using assms accept_probe [of a op u True p] by simp
next
  case (Fragmented op p ps q)
  then show ?thesis
    using assms run_fragmented [of a u op p ps q] by simp
qed

lemma run_items:
  "\<not> a_closed a \<Longrightarrow> a_partial a = None \<Longrightarrow> list_all (item_ok u (a_limits a)) is \<Longrightarrow>
   assembler_run u a (concat (map item_frames is)) = Some (None, concat (map item_messages is), a)"
  by (induction "is") (simp_all add: assembler_run_append [OF run_item])

text \<open>A delivered close is the last thing delivered.\<close>

fun is_close_message :: "message \<Rightarrow> bool" where
  "is_close_message (MClose c) = True"
| "is_close_message _ = False"

lemma run_close_last:
  "assembler_run u a fs = Some (e, ms, a') \<Longrightarrow> list_ex is_close_message ms \<Longrightarrow>
   e = None \<and> a_closed a' \<and> is_close_message (last ms) \<and> \<not> list_ex is_close_message (butlast ms)"
proof (induction fs arbitrary: a ms)
  case (Cons f fs)
  obtain op fin payload where f: "f = (op, fin, payload)"
    by (cases f)
  obtain m b ms1 where step: "assembler_accept u a op fin payload = Some (Inr m, b)"
    and run: "assembler_run u b fs = Some (e, ms1, a')" and ms: "ms = (case m of None \<Rightarrow> ms1 | Some x \<Rightarrow> x # ms1)"
    using Cons.prems by (auto simp: f split: option.splits sum.splits)
  show ?case
  proof (cases "\<exists>x. m = Some x \<and> is_close_message x")
    case True
    then obtain c where "m = Some (MClose c)"
      by (metis is_close_message.elims(2))
    then show ?thesis
      using step run accept_not_closed_message [of u a op fin payload c b] ms
      by (auto simp: assembler_run_closed)
  next
    case False
    then have "list_ex is_close_message ms1"
      using Cons.prems(2) ms by (auto split: option.splits)
    then show ?thesis
      using Cons.IH [OF run] False ms by (cases ms1) (auto split: option.splits)
  qed
qed simp

section \<open>Properties\<close>

text \<open>C13: Whatever frames a peer sends, in whatever order and even after errors, the assembler never
  reaches one of its \<open>unreachable!\<close> arms, and it never buffers more than one partial message, a text
  or binary one no longer than the configured limit.\<close>

theorem assembler_safe:
  assumes "reach_assembler u l a"
  shows "(\<exists>r. assembler_accept u a op fin payload = Some r) \<and>
     (\<forall>kind buffer. a_partial a = Some (kind, buffer) \<longrightarrow>
        (kind = Text \<or> kind = Binary) \<and>
        (unat (max_message l) < 2 ^ 64 - 1 \<longrightarrow> length buffer \<le> unat (max_message l)))"
  using reach_assembler_inv [OF assms] assembler_accept_total [of a u op fin payload]
  by (auto simp: assembler_inv_def saturating_len_def)

theorem assembler_safe_witness:
  "\<exists>r. assembler_accept Std (assembler_new default_limits) Continuation True [1] = Some r"
  using assembler_safe [OF reach_assembler.fresh [of Std default_limits], of Continuation True "[1]"] by blast

text \<open>C27: Every message the assembler delivers is what its type promises: a text payload is the UTF-8
  encoding of a sequence of Unicode scalar values, a data payload is within the size limit, and a
  close frame carries a code that may be sent and a UTF-8 reason. This needs of the validator that it
  accepts exactly valid UTF-8, as the standard library's does.\<close>

theorem assembler_delivers_valid:
  assumes "utf8_build u" and "assembler_accept u a op fin payload = Some (Inr (Some m), a')"
  shows "message_ok (a_limits a) m \<and>
     (\<forall>p. m = MText p \<longrightarrow> (\<exists>cs. list_all is_scalar cs \<and> p = utf8_encode cs))"
proof -
  have "message_ok (a_limits a) m"
    using assms by (rule utf8_build.accept_ok)
  then show ?thesis
    by (auto simp: message_ok_def simp flip: utf8_valid_iff_encoding)
qed

theorem assembler_delivers_valid_witness:
  "\<exists>cs. list_all is_scalar cs \<and> [0xE2, 0x82, 0xAC] = utf8_encode cs"
proof -
  have "assembler_accept Std \<lparr>a_limits = default_limits, a_partial = Some (Text, [0xE2]), a_closed = False\<rparr>
      Continuation True [0x82, 0xAC] =
    Some (Inr (Some (MText [0xE2, 0x82, 0xAC])), assembler_new default_limits)"
    by (simp add: accept_eval parse_close_body_def)
  from assembler_delivers_valid [OF std_utf8.utf8_build_axioms this] show ?thesis
    by blast
qed

text \<open>C7: A conversation made of whole messages, pings and pongs, and fragmented messages with pings
  and pongs between their fragments is delivered exactly: each fragmented message as the
  concatenation of its fragments, each control frame where it arrived, all in order, and the
  assembler is idle again at the end. Text is validated as a whole, so a character may straddle two
  fragments.\<close>

theorem conversation_delivered:
  assumes "list_all (item_ok u l) items"
  shows "assembler_run u (assembler_new l) (concat (map item_frames items)) =
     Some (None, concat (map item_messages items), assembler_new l)"
  using run_items [of "assembler_new l" u items] assms by (simp add: assembler_new_def)

theorem conversation_delivered_witness:
  "assembler_run Std (assembler_new default_limits)
     [(Text, False, [0xE2]), (Ping, True, [7]), (Continuation, False, [0x82]), (Continuation, True, [0xAC]),
      (Binary, True, [0xFF])] =
   Some (None, [MPing [7], MText [0xE2, 0x82, 0xAC], MBinary [0xFF]], assembler_new default_limits)"
proof -
  let ?is = "[Fragmented Text [0xE2] [Between Ping [7], Fragment [0x82]] [0xAC], Whole Binary [0xFF]]"
  have "list_all (item_ok Std default_limits) ?is"
    by (simp add: data_ok_def item_bytes_def default_limits_def utf8_eval)
  from conversation_delivered [OF this] show ?thesis
    by (simp add: item_bytes_def)
qed

text \<open>C28: A close frame is the end: at most one close message is ever delivered, it is the last
  message delivered, and every frame that follows it, valid or not, is discarded silently.\<close>

theorem close_is_final:
  assumes "assembler_run u a fs = Some (e, ms, a')" and "list_ex is_close_message ms"
  shows "is_close_message (last ms) \<and> \<not> list_ex is_close_message (butlast ms) \<and>
     assembler_run u a (fs @ later) = Some (None, ms, a')"
proof -
  have "e = None" "a_closed a'" "is_close_message (last ms)" "\<not> list_ex is_close_message (butlast ms)"
    using run_close_last [OF assms] by auto
  then show ?thesis
    using assms(1) by (simp add: assembler_run_append assembler_run_closed)
qed

theorem close_is_final_witness:
  "assembler_run Std (assembler_new default_limits) ([(Close, True, [])] @ [(Ping, True, [1]), (Continuation, True, [])])
     = Some (None, [MClose None], \<lparr>a_limits = default_limits, a_partial = None, a_closed = True\<rparr>)"
proof -
  have "assembler_run Std (assembler_new default_limits) [(Close, True, [])] =
      Some (None, [MClose None], \<lparr>a_limits = default_limits, a_partial = None, a_closed = True\<rparr>)"
    by (simp add: accept_eval parse_close_body_def)
  from close_is_final [OF this] show ?thesis
    by simp
qed

text \<open>A frame that would take a message over the limit is refused before any of it is kept: the
  assembler is left exactly as it was, so a peer cannot grow its memory through refused frames.\<close>

lemma oversize_frame_not_buffered:
  assumes "assembler_accept u a op fin payload = Some (Inl MessageTooLarge, a')"
  shows "a' = a \<and>
     unat (max_message (a_limits a)) <
       length (case a_partial a of None \<Rightarrow> [] | Some (kind, buffer) \<Rightarrow> buffer) + length payload"
proof -
  have "\<not> a_closed a"
    using assms by auto
  then show ?thesis
    using assms
    by (cases op)
      (auto simp: accept_defs parse_close_body_def saturating_len_def Let_def
        split: if_splits option.splits sum.splits opcode.splits)
qed

end
