(* ===== verification/Fips180.thy ===== *)
theory Fips180
  imports Wss_Prelude
begin

text \<open>
  SHA-1 as FIPS 180-4 specifies it, for messages that are byte strings. It is written from the
  standard and shares no operation with the hasher of \<open>Sha1\<close>: rotations are built from shifts, the
  message schedule is an indexed recurrence, a padded message is read at the byte offsets of its
  blocks, and words are read and written arithmetically.
\<close>

type_synonym fips_chain = "u32 \<times> u32 \<times> u32 \<times> u32 \<times> u32"

text \<open>The circular left shift, and the functions and constants of the eighty steps.\<close>

definition fips_rotl :: "nat \<Rightarrow> u32 \<Rightarrow> u32" where
  "fips_rotl n x = push_bit n x OR drop_bit (32 - n) x"

definition fips_f :: "nat \<Rightarrow> u32 \<Rightarrow> u32 \<Rightarrow> u32 \<Rightarrow> u32" where
  "fips_f t x y z =
     (if t < 20 then (x AND y) XOR (NOT x AND z)
      else if 40 \<le> t \<and> t < 60 then (x AND y) XOR (x AND z) XOR (y AND z)
      else x XOR y XOR z)"

definition fips_K :: "nat \<Rightarrow> u32" where
  "fips_K t =
     [0x5A827999, 0x6ED9EBA1, 0x8F1BBCDC, 0xCA62C1D6] ! (t div 20)"

definition fips_H0 :: fips_chain where
  "fips_H0 = (0x67452301, 0xEFCDAB89, 0x98BADCFE, 0x10325476, 0xC3D2E1F0)"

text \<open>Word \<open>t\<close> of the schedule of a block \<open>M\<close> of sixteen words.\<close>

fun fips_W :: "(nat \<Rightarrow> u32) \<Rightarrow> nat \<Rightarrow> u32" where
  "fips_W M t =
     (if t < 16 then M t
      else fips_rotl 1 (fips_W M (t - 3) XOR fips_W M (t - 8) XOR fips_W M (t - 14) XOR fips_W M (t - 16)))"

declare fips_W.simps [simp del]

definition fips_step :: "(nat \<Rightarrow> u32) \<Rightarrow> fips_chain \<Rightarrow> nat \<Rightarrow> fips_chain" where
  "fips_step M s t =
     (case s of (a, b, c, d, e) \<Rightarrow>
        (fips_rotl 5 a + fips_f t b c d + e + fips_K t + fips_W M t, a, fips_rotl 30 b, c, d))"

definition fips_compress :: "fips_chain \<Rightarrow> (nat \<Rightarrow> u32) \<Rightarrow> fips_chain" where
  "fips_compress h M =
     (case (h, foldl (fips_step M) h [0..<80]) of
        ((h0, h1, h2, h3, h4), (a, b, c, d, e)) \<Rightarrow> (a + h0, b + h1, c + h2, d + h3, e + h4))"

text \<open>Padding: the bit 1, the fewest zero bits that make the length 448 modulo 512, and the length in
  bits as sixty-four bits, most significant first. On whole bytes: the byte 128, zeros up to 56
  modulo 64, and eight bytes.\<close>

definition fips_zeros :: "nat \<Rightarrow> nat" where
  "fips_zeros n = nat ((55 - int n) mod 64)"

definition fips_pad :: "bytes \<Rightarrow> bytes" where
  "fips_pad msg =
     (let n = length msg
      in msg @ [128] @ replicate (fips_zeros n) 0 @ map (\<lambda>j. of_nat (8 * n div 256 ^ (7 - j))) [0..<8])"

text \<open>Word \<open>t\<close> of block \<open>i\<close> of a padded message.\<close>

definition fips_block :: "bytes \<Rightarrow> nat \<Rightarrow> nat \<Rightarrow> u32" where
  "fips_block p i t =
     (\<Sum>j<4. of_nat (unat (p ! (64 * i + 4 * t + j))) * 256 ^ (3 - j))"

definition fips_word_bytes :: "u32 \<Rightarrow> bytes" where
  "fips_word_bytes w = map (\<lambda>j. of_nat (unat w div 256 ^ (3 - j))) [0..<4]"

definition sha1_spec :: "bytes \<Rightarrow> bytes" where
  "sha1_spec msg =
     (let p = fips_pad msg
      in case foldl (\<lambda>h i. fips_compress h (fips_block p i)) fips_H0 [0..<length p div 64] of
           (a, b, c, d, e) \<Rightarrow> concat (map fips_word_bytes [a, b, c, d, e]))"

text \<open>The padding fills whole blocks, and no shorter run of zeros would.\<close>

lemma fips_zeros_residue: "(n + 1 + fips_zeros n) mod 64 = 56"
proof -
  have "int (n + 1 + fips_zeros n) = (int n + 1) + (55 - int n) mod 64"
    by (simp add: fips_zeros_def)
  then have "int ((n + 1 + fips_zeros n) mod 64) = ((int n + 1) + (55 - int n) mod 64) mod 64"
    by (simp only: of_nat_mod of_nat_numeral)
  also have "\<dots> = 56"
    by (simp add: mod_add_right_eq)
  finally show ?thesis
    by simp
qed

lemma fips_zeros_least: "(n + 1 + k) mod 64 = 56 \<Longrightarrow> fips_zeros n \<le> k"
proof -
  assume "(n + 1 + k) mod 64 = 56"
  then have "int (n + 1 + k) mod 64 = 56"
    by (metis of_nat_mod of_nat_numeral)
  then have "(int (n + 1 + k) - (int n + 1)) mod 64 = (56 - (int n + 1)) mod 64"
    by (metis mod_diff_left_eq)
  then have "int (fips_zeros n) = int k mod 64"
    by (simp add: fips_zeros_def)
  also have "\<dots> \<le> int k"
    by (rule zmod_le_nonneg_dividend) simp
  finally show ?thesis
    by simp
qed

lemma length_fips_pad: "length (fips_pad msg) mod 64 = 0"
proof -
  have "length (fips_pad msg) = (length msg + 1 + fips_zeros (length msg)) + 8"
    by (simp add: fips_pad_def Let_def)
  then have "length (fips_pad msg) mod 64 = ((length msg + 1 + fips_zeros (length msg)) mod 64 + 8) mod 64"
    by (simp only: mod_add_left_eq)
  then show ?thesis
    by (simp only: fips_zeros_residue) simp
qed

lemma length_sha1_spec: "length (sha1_spec msg) = 20"
proof -
  obtain a b c d e where
    "foldl (\<lambda>h i. fips_compress h (fips_block (fips_pad msg) i)) fips_H0 [0..<length (fips_pad msg) div 64]
       = (a, b, c, d, e)"
    by (rule prod_cases5)
  then have "sha1_spec msg = concat (map fips_word_bytes [a, b, c, d, e])"
    by (simp only: sha1_spec_def Let_def prod.case)
  then show ?thesis
    by (simp add: fips_word_bytes_def)
qed

end
