(* ===== verification/Sha1.thy ===== *)
theory Sha1
  imports Wss_Prelude Fips180
begin

text \<open>
  The SHA-1 of \<open>src/src/proto/handshake.rs\<close>, used for \<open>Sec-WebSocket-Accept\<close> only: the buffered
  hasher as the code has it. Its rounds, schedule, padding and digest are shown equal to those of
  FIPS 180-4 (\<open>Fips180\<close>, an independent specification), so that the hasher returns the standard's
  digest however its input is split.
\<close>

section \<open>Definitions\<close>

type_synonym sha1_state = "u32 \<times> u32 \<times> u32 \<times> u32 \<times> u32"

record sha1 =
  sha_state :: sha1_state
  sha_buffer :: bytes
  sha_length :: u64

definition sha1_init :: sha1_state where
  "sha1_init = (0x67452301, 0xEFCDAB89, 0x98BADCFE, 0x10325476, 0xC3D2E1F0)"

definition sha1_new :: sha1 where
  "sha1_new = \<lparr>sha_state = sha1_init, sha_buffer = [], sha_length = 0\<rparr>"

text \<open>The message schedule: the first sixteen words are the block, the other sixty-four are appended
  one at a time.\<close>

definition sha1_load :: "bytes \<Rightarrow> u32 list" where
  "sha1_load block =
     map (\<lambda>i. be_word [block ! (i * 4), block ! (i * 4 + 1), block ! (i * 4 + 2), block ! (i * 4 + 3)]) [0..<16]"

primrec sha1_extend :: "nat \<Rightarrow> u32 list \<Rightarrow> u32 list" where
  "sha1_extend 0 w = w"
| "sha1_extend (Suc n) w =
     (let i = length w
      in sha1_extend n (w @ [word_rotl 1 (w ! (i - 3) XOR w ! (i - 8) XOR w ! (i - 14) XOR w ! (i - 16))]))"

definition sha1_schedule :: "bytes \<Rightarrow> u32 list" where
  "sha1_schedule block = sha1_extend 64 (sha1_load block)"

text \<open>One iteration of the loop over the schedule.\<close>

definition sha1_round :: "nat \<times> u32 \<Rightarrow> sha1_state \<Rightarrow> sha1_state" where
  "sha1_round iw s =
     (case (iw, s) of ((i, word), (a, b, c, d, e)) \<Rightarrow>
        let (f, k) =
              (if i \<le> 19 then ((b AND c) OR (NOT b AND d), 0x5A827999)
               else if i \<le> 39 then (b XOR c XOR d, 0x6ED9EBA1)
               else if i \<le> 59 then ((b AND c) OR (b AND d) OR (c AND d), 0x8F1BBCDC)
               else (b XOR c XOR d, 0xCA62C1D6));
            temp = word_rotl 5 a + f + e + k + word
        in (temp, a, word_rotl 30 b, c, d))"

definition sha1_compress :: "sha1_state \<Rightarrow> bytes \<Rightarrow> sha1_state" where
  "sha1_compress state block =
     (let w = sha1_schedule block
      in case (state, fold sha1_round (zip [0..<80] w) state) of
           ((s0, s1, s2, s3, s4), (a, b, c, d, e)) \<Rightarrow> (s0 + a, s1 + b, s2 + c, s3 + d, s4 + e))"

text \<open>The \<open>while\<close> loop of \<open>Sha1::update\<close>: whole blocks are compressed and drained.\<close>

function sha1_drain :: "sha1_state \<Rightarrow> bytes \<Rightarrow> sha1_state \<times> bytes" where
  "sha1_drain state buffer =
     (if 64 \<le> length buffer then sha1_drain (sha1_compress state (take 64 buffer)) (drop 64 buffer)
      else (state, buffer))"
  by pat_completeness auto
termination
  by (relation "measure (\<lambda>(state, buffer). length buffer)") auto

declare sha1_drain.simps [simp del]

definition sha1_update :: "sha1 \<Rightarrow> bytes \<Rightarrow> sha1" where
  "sha1_update h data =
     (let (state, buffer) = sha1_drain (sha_state h) (sha_buffer h @ data)
      in \<lparr>sha_state = state, sha_buffer = buffer, sha_length = sha_length h + of_nat (length data)\<rparr>)"

text \<open>The padding loop of \<open>Sha1::finish\<close>.\<close>

function sha1_pad_zeros :: "bytes \<Rightarrow> bytes" where
  "sha1_pad_zeros buffer =
     (if length buffer mod 64 \<noteq> 56 then sha1_pad_zeros (buffer @ [0]) else buffer)"
  by pat_completeness auto
termination
proof (relation "measure (\<lambda>b. if length b mod 64 \<le> 56 then 56 - length b mod 64 else 120 - length b mod 64)")
  fix buffer :: bytes
  assume "length buffer mod 64 \<noteq> 56"
  moreover have "length buffer mod 64 < 64"
    by simp
  ultimately show "(buffer @ [0], buffer) \<in>
      measure (\<lambda>b. if length b mod 64 \<le> 56 then 56 - length b mod 64 else 120 - length b mod 64)"
    by (auto simp: mod_Suc)
qed simp

declare sha1_pad_zeros.simps [simp del]

text \<open>The loop over \<open>chunks_exact(64)\<close>.\<close>

function sha1_blocks :: "sha1_state \<Rightarrow> bytes \<Rightarrow> sha1_state" where
  "sha1_blocks state buffered =
     (if 64 \<le> length buffered then sha1_blocks (sha1_compress state (take 64 buffered)) (drop 64 buffered)
      else state)"
  by pat_completeness auto
termination
  by (relation "measure (\<lambda>(state, buffered). length buffered)") auto

declare sha1_blocks.simps [simp del]

definition sha1_digest :: "sha1_state \<Rightarrow> bytes" where
  "sha1_digest state =
     (case state of (a, b, c, d, e) \<Rightarrow> concat (map (be_bytes 4) [a, b, c, d, e]))"

definition sha1_finish :: "sha1 \<Rightarrow> bytes" where
  "sha1_finish h =
     (let bit_length = sha_length h * 8;
          buffer = sha1_pad_zeros (sha_buffer h @ [0x80]) @ be_bytes 8 bit_length
      in sha1_digest (sha1_blocks (sha_state h) buffer))"

section \<open>The padding in one piece\<close>

definition sha1_padding :: "nat \<Rightarrow> bytes" where
  "sha1_padding n = 0x80 # replicate ((119 - n mod 64) mod 64) 0 @ be_bytes 8 (of_nat (8 * n) :: u64)"

section \<open>The operations of the hasher are those of the standard\<close>

lemma fips_rotl:
  assumes "0 < n" and "n < 32"
  shows "word_rotl n x = fips_rotl n x"
proof (rule bit_word_eqI)
  fix i
  assume "i < LENGTH(32)"
  then have i: "i < 32"
    by simp
  have "bit (word_rotl n x) i = bit x ((i + (32 - n)) mod 32)"
    using assms i unfolding bit_word_rotl_iff by (simp del: add_diff_assoc add_diff_assoc2)
  also have "(i + (32 - n)) mod 32 = (if i < n then i + (32 - n) else i - n)"
    using assms i by (simp add: le_mod_geq)
  also have "bit x (if i < n then i + (32 - n) else i - n) = bit (fips_rotl n x) i"
    using assms i by (auto simp: fips_rotl_def bit_simps add.commute dest: bit_imp_le_length)
  finally show "bit (word_rotl n x) i = bit (fips_rotl n x) i" .
qed

lemma fips_f_eq:
  "t \<le> 19 \<Longrightarrow> fips_f t x y z = (x AND y) OR (NOT x AND z)"
  "\<not> t \<le> 19 \<Longrightarrow> t \<le> 39 \<Longrightarrow> fips_f t x y z = x XOR y XOR z"
  "\<not> t \<le> 39 \<Longrightarrow> t \<le> 59 \<Longrightarrow> fips_f t x y z = (x AND y) OR (x AND z) OR (y AND z)"
  "\<not> t \<le> 59 \<Longrightarrow> fips_f t x y z = x XOR y XOR z"
  by (auto simp: fips_f_def bit_simps intro: bit_word_eqI)

lemma fips_K_eq:
  "t \<le> 19 \<Longrightarrow> fips_K t = 0x5A827999"
  "\<not> t \<le> 19 \<Longrightarrow> t \<le> 39 \<Longrightarrow> fips_K t = 0x6ED9EBA1"
  "\<not> t \<le> 39 \<Longrightarrow> t \<le> 59 \<Longrightarrow> fips_K t = 0x8F1BBCDC"
  "\<not> t \<le> 59 \<Longrightarrow> t < 80 \<Longrightarrow> fips_K t = 0xCA62C1D6"
proof -
  have div: "t div 20 = q" if "20 * q \<le> t" "t < 20 * q + 20" for q
    using that by (simp add: div_nat_eqI)
  show "t \<le> 19 \<Longrightarrow> fips_K t = 0x5A827999"
    by (simp add: fips_K_def div [of 0])
  show "\<not> t \<le> 19 \<Longrightarrow> t \<le> 39 \<Longrightarrow> fips_K t = 0x6ED9EBA1"
    by (simp add: fips_K_def div [of 1])
  show "\<not> t \<le> 39 \<Longrightarrow> t \<le> 59 \<Longrightarrow> fips_K t = 0x8F1BBCDC"
    by (simp add: fips_K_def div [of 2])
  show "\<not> t \<le> 59 \<Longrightarrow> t < 80 \<Longrightarrow> fips_K t = 0xCA62C1D6"
    by (simp add: fips_K_def div [of 3])
qed

lemma sha1_round_step: "i < 80 \<Longrightarrow> sha1_round (i, fips_W M i) s = fips_step M s i"
  by (cases s) (simp add: sha1_round_def fips_step_def fips_f_eq fips_K_eq fips_rotl)

text \<open>The schedule array holds the words of the recurrence.\<close>

lemma sha1_extend_W:
  "16 \<le> k \<Longrightarrow> sha1_extend n (map (fips_W M) [0..<k]) = map (fips_W M) [0..<k + n]"
proof (induction n arbitrary: k)
  case (Suc n)
  have "fips_W M k = word_rotl 1 (fips_W M (k - 3) XOR fips_W M (k - 8) XOR fips_W M (k - 14) XOR fips_W M (k - 16))"
    using Suc.prems by (subst fips_W.simps) (simp add: fips_rotl)
  then have "map (fips_W M) [0..<k]
      @ [word_rotl 1 (fips_W M (k - 3) XOR fips_W M (k - 8) XOR fips_W M (k - 14) XOR fips_W M (k - 16))]
      = map (fips_W M) [0..<Suc k]"
    by simp
  then show ?case
    using Suc.IH [of "Suc k"] Suc.prems by (simp add: Let_def del: upt_Suc)
qed simp

lemma fips_W_cong: "(\<And>t. t < 16 \<Longrightarrow> M t = M' t) \<Longrightarrow> fips_W M t = fips_W M' t"
proof (induction M t rule: fips_W.induct)
  case (1 M t)
  then show ?case
    by (simp add: fips_W.simps [of M t] fips_W.simps [of M' t])
qed

lemma be_word_bytes:
  "be_word [a, b, c, d] = ucast d + (ucast c + (ucast b + ucast a * 256) * 256) * (256 :: u32)"
proof -
  have join: "ucast x OR push_bit 8 y = (ucast x + y * 256 :: u32)" for x :: u8 and y
  proof -
    have "ucast x OR push_bit 8 y = (ucast x :: u32) + push_bit 8 y"
      by (rule disjunctive_add [symmetric]) (auto simp: bit_simps dest: bit_imp_le_length)
    then show ?thesis
      by (simp add: push_bit_eq_mult)
  qed
  show ?thesis
    by (simp only: be_word_def rev.simps append.simps le_word.simps join) simp
qed

lemma sha1_load_block:
  assumes "length block = 64"
  shows "sha1_load block = map (fips_W (fips_block block 0)) [0..<16]"
proof -
  have "fips_block block 0 t = be_word [block ! (t * 4), block ! (t * 4 + 1), block ! (t * 4 + 2), block ! (t * 4 + 3)]"
    for t
    by (simp add: fips_block_def be_word_bytes eval_nat_numeral lessThan_Suc algebra_simps)
  then show ?thesis
    by (simp add: sha1_load_def fips_W.simps)
qed

lemma sha1_schedule_block:
  "length block = 64 \<Longrightarrow> sha1_schedule block = map (fips_W (fips_block block 0)) [0..<80]"
  by (simp add: sha1_schedule_def sha1_load_block sha1_extend_W del: upt_rec_numeral)

lemma sha1_compress_block:
  assumes "length block = 64"
  shows "sha1_compress s block = fips_compress s (fips_block block 0)"
proof -
  define M where "M = fips_block block 0"
  have "fold sha1_round (map (\<lambda>i. (i, fips_W M i)) xs) s = foldl (fips_step M) s xs"
    if "\<forall>i\<in>set xs. i < 80" for xs s
    using that by (induction xs arbitrary: s) (simp_all add: sha1_round_step)
  then have "fold sha1_round (map (\<lambda>i. (i, fips_W M i)) [0..<80]) s = foldl (fips_step M) s [0..<80]"
    by simp
  moreover have "zip [0..<80] (sha1_schedule block) = map (\<lambda>i. (i, fips_W M i)) [0..<80]"
    using assms by (simp only: sha1_schedule_block M_def zip_map2 zip_same_conv_map map_map) (simp add: comp_def)
  ultimately have "fold sha1_round (zip [0..<80] (sha1_schedule block)) s = foldl (fips_step M) s [0..<80]"
    by simp
  then show ?thesis
    by (simp add: sha1_compress_def fips_compress_def M_def Let_def add.commute split: prod.split del: upt_rec_numeral)
qed

lemma fips_block_take:
  "t < 16 \<Longrightarrow> 64 \<le> length p \<Longrightarrow> fips_block (take 64 p) 0 t = fips_block p 0 t"
  by (simp add: fips_block_def)

lemma fips_block_drop: "64 \<le> length p \<Longrightarrow> fips_block (drop 64 p) i = fips_block p (Suc i)"
  by (simp add: fips_block_def fun_eq_iff add.assoc)

lemma fips_compress_cong:
  "(\<And>t. t < 16 \<Longrightarrow> M t = M' t) \<Longrightarrow> fips_compress s M = fips_compress s M'"
  using fips_W_cong [of M M'] by (simp add: fips_compress_def fips_step_def [abs_def] del: upt_rec_numeral)

lemma sha1_blocks_spec:
  "sha1_blocks s p = foldl (\<lambda>h i. fips_compress h (fips_block p i)) s [0..<length p div 64]"
proof (induction s p rule: sha1_blocks.induct)
  case (1 s p)
  show ?case
  proof (cases "64 \<le> length p")
    case True
    define n where "n = length (drop 64 p) div 64"
    have len: "length p div 64 = Suc n"
      using True by (simp add: n_def le_div_geq)
    have "sha1_compress s (take 64 p) = fips_compress s (fips_block p 0)"
      using True by (simp add: sha1_compress_block fips_block_take cong: fips_compress_cong)
    then have "sha1_blocks s p =
        foldl (\<lambda>h i. fips_compress h (fips_block p (Suc i))) (fips_compress s (fips_block p 0)) [0..<n]"
      using True 1 by (simp add: sha1_blocks.simps [of s p] n_def fips_block_drop)
    also have "\<dots> = foldl (\<lambda>h i. fips_compress h (fips_block p i)) s (0 # map Suc [0..<n])"
      by (simp add: foldl_map)
    also have "0 # map Suc [0..<n] = [0..<length p div 64]"
      by (simp only: len map_Suc_upt upt_conv_Cons zero_less_Suc)
    finally show ?thesis .
  qed (simp add: sha1_blocks.simps [of s p])
qed

lemma be_bytes_nth: "i < n \<Longrightarrow> be_bytes n w ! i = ucast (drop_bit (8 * (n - Suc i)) w)"
  by (simp add: be_bytes_def rev_nth le_bytes_nth)

lemma ucast_drop_byte: "ucast (drop_bit (8 * k) w) = (of_nat (unat w div 256 ^ k) :: u8)"
proof -
  have "(ucast (drop_bit (8 * k) w) :: u8) = of_nat (unat (drop_bit (8 * k) w))"
    by (simp only: of_nat_unat)
  also have "unat (drop_bit (8 * k) w) = unat w div 256 ^ k"
    by (subst unat_drop_bit_eq) (simp add: drop_bit_eq_div power_mult)
  finally show ?thesis .
qed

lemma be_bytes_word: "be_bytes 4 w = fips_word_bytes w"
  by (rule nth_equalityI) (simp_all add: fips_word_bytes_def be_bytes_nth ucast_drop_byte del: upt_rec_numeral)

lemma sha1_digest_spec: "sha1_digest s = (case s of (a, b, c, d, e) \<Rightarrow> concat (map fips_word_bytes [a, b, c, d, e]))"
  by (simp add: sha1_digest_def be_bytes_word)

lemma be_bytes_length:
  "be_bytes 8 (of_nat m :: u64) = map (\<lambda>j. of_nat (m div 256 ^ (7 - j))) [0..<8]"
proof -
  have "ucast (drop_bit (8 * k) (of_nat m :: u64)) = (of_nat (drop_bit (8 * k) m) :: u8)" if "k < 8" for k
    using that by (intro bit_word_eqI) (auto simp: bit_simps)
  then have "ucast (drop_bit (8 * (7 - j)) (of_nat m :: u64)) = (of_nat (m div 256 ^ (7 - j)) :: u8)" for j
    by (simp add: drop_bit_eq_div power_mult del: of_nat_mult)
  then show ?thesis
    by (intro nth_equalityI) (simp_all add: be_bytes_nth del: upt_rec_numeral)
qed

lemma sha1_zeros: "(119 - n mod 64) mod 64 = fips_zeros n"
proof -
  have "n mod 64 < 64"
    by simp
  then have "int ((119 - n mod 64) mod 64) = (119 - int (n mod 64)) mod 64"
    by (simp add: zmod_int of_nat_diff)
  also have "\<dots> = (119 - int n) mod 64"
    by (simp add: zmod_int mod_diff_right_eq)
  also have "\<dots> = (55 - int n) mod 64"
    using mod_add_self2 [of "55 - int n" 64] by (simp add: algebra_simps)
  finally show ?thesis
    by (simp add: fips_zeros_def)
qed

lemma sha1_padding_pad: "msg @ sha1_padding (length msg) = fips_pad msg"
  by (simp add: sha1_padding_def fips_pad_def Let_def sha1_zeros be_bytes_length del: of_nat_mult upt_rec_numeral)

lemma sha1_spec_blocks:
  "sha1_spec msg = sha1_digest (sha1_blocks sha1_init (msg @ sha1_padding (length msg)))"
  by (simp only: sha1_spec_def Let_def sha1_padding_pad sha1_blocks_spec sha1_digest_spec sha1_init_def fips_H0_def)

section \<open>The hasher computes the one-shot hash\<close>

text \<open>Draining the buffer is the compression of its whole blocks; what is left is shorter than one.\<close>

lemma sha1_drain_blocks:
  assumes "sha1_drain state buffer = (state', rest)"
  shows "sha1_blocks state (buffer @ tail) = sha1_blocks state' (rest @ tail)"
    and "length rest < 64" and "rest = drop (64 * (length buffer div 64)) buffer"
  using assms
proof (induction state buffer rule: sha1_drain.induct)
  case (1 state buffer)
  {
    case 1
    then show ?case
    proof (cases "64 \<le> length buffer")
      case True
      then show ?thesis
        using "1.IH"(1) 1
        by (simp add: sha1_drain.simps [of state buffer] sha1_blocks.simps [of state "buffer @ tail"])
    qed (simp add: sha1_drain.simps [of state buffer])
  next
    case 2
    then show ?case
      using "1.IH"(2) by (auto simp: sha1_drain.simps [of state buffer] split: if_splits)
  next
    case 3
    then show ?case
      using "1.IH"(3)
      by (auto simp: sha1_drain.simps [of state buffer] le_div_geq add.commute split: if_splits)
  }
qed

lemma sha1_drain_append:
  "sha1_drain state (buffer @ tail) =
     (let (state', rest) = sha1_drain state buffer in sha1_drain state' (rest @ tail))"
proof (induction state buffer rule: sha1_drain.induct)
  case (1 state buffer)
  show ?case
  proof (cases "64 \<le> length buffer")
    case True
    then show ?thesis
      using "1.IH" by (simp add: sha1_drain.simps [of state "buffer @ tail"] sha1_drain.simps [of state buffer])
  qed (simp add: sha1_drain.simps [of state buffer])
qed

text \<open>Two calls of \<open>update\<close> are one call with both pieces.\<close>

lemma sha1_update_update: "sha1_update (sha1_update h d1) d2 = sha1_update h (d1 @ d2)"
proof -
  obtain s b where sb: "sha1_drain (sha_state h) (sha_buffer h @ d1) = (s, b)"
    by fastforce
  have "sha1_drain (sha_state h) ((sha_buffer h @ d1) @ d2) = sha1_drain s (b @ d2)"
    by (simp add: sha1_drain_append [of _ "sha_buffer h @ d1"] sb del: append_assoc)
  then show ?thesis
    by (simp add: sha1_update_def sb split: prod.split)
qed

lemma sha1_updates: "chunks \<noteq> [] \<Longrightarrow> fold (\<lambda>d h. sha1_update h d) chunks h = sha1_update h (concat chunks)"
proof (induction chunks arbitrary: h)
  case (Cons d chunks)
  then show ?case
    by (cases "chunks = []") (simp_all add: sha1_update_update)
qed simp

lemma sha1_update_nil: "sha1_update sha1_new [] = sha1_new"
  by (simp add: sha1_update_def sha1_new_def sha1_drain.simps)

lemma sha1_gap:
  "r < 64 \<Longrightarrow> (119 - r) mod 64 = (if r \<le> 55 then 55 - r else 119 - r)"
  "r < 64 \<Longrightarrow> (120 - r) mod 64 = (if r \<le> 56 then 56 - r else 120 - r)"
  for r :: nat
  by (simp_all add: le_mod_geq)

lemma sha1_pad_zeros_eq:
  "sha1_pad_zeros buffer = buffer @ replicate ((120 - length buffer mod 64) mod 64) 0"
proof (induction buffer rule: sha1_pad_zeros.induct)
  case (1 buffer)
  show ?case
  proof (cases "length buffer mod 64 = 56")
    case False
    define m where "m = length buffer mod 64"
    have "m < 64"
      by (simp add: m_def)
    then have "(120 - m) mod 64 = Suc ((120 - (if Suc m = 64 then 0 else Suc m)) mod 64)"
      using False sha1_gap(2) [of m] sha1_gap(2) [of "Suc m"] unfolding m_def [symmetric]
      by (cases "m = 63") (auto split: if_splits)
    moreover have "length (buffer @ [0]) mod 64 = (if Suc m = 64 then 0 else Suc m)"
      by (simp add: m_def mod_Suc)
    ultimately show ?thesis
      using 1 False by (simp add: sha1_pad_zeros.simps [of buffer] m_def del: length_append)
  qed (simp add: sha1_pad_zeros.simps)
qed

lemma sha1_padding_residue: "(120 - Suc (n mod 64) mod 64) mod 64 = (119 - n mod 64) mod (64::nat)"
proof -
  have "n mod 64 < 64"
    by simp
  then show ?thesis
    by (cases "n mod 64 = 63") (simp_all add: sha1_gap)
qed

lemma sha1_finish_update_new: "sha1_finish (sha1_update sha1_new msg) = sha1_spec msg"
proof -
  obtain s b where sb: "sha1_drain sha1_init msg = (s, b)"
    by fastforce
  have b: "b = drop (64 * (length msg div 64)) msg"
    using sha1_drain_blocks(3) [OF sb] .
  have len: "length b mod 64 = length msg mod 64"
    using sha1_drain_blocks(2) [OF sb] by (simp add: b minus_mult_div_eq_mod)
  have "Suc (length b) mod 64 = Suc (length msg mod 64) mod 64"
    using len by (metis mod_Suc_eq)
  then have "sha1_pad_zeros (b @ [0x80]) = b @ 0x80 # replicate ((119 - length msg mod 64) mod 64) 0"
    by (simp add: sha1_pad_zeros_eq sha1_padding_residue)
  then show ?thesis
    using sha1_drain_blocks(1) [OF sb, of "sha1_padding (length msg)"]
    by (simp add: sha1_finish_def sha1_update_def sha1_new_def sb sha1_spec_blocks sha1_padding_def mult.commute)
qed

text \<open>C34: However the message is cut into calls of \<open>update\<close>, the buffered hasher returns the
  twenty-byte SHA-1 digest of the concatenated message as FIPS 180-4 defines it.\<close>

theorem sha1_streaming:
  "sha1_finish (fold (\<lambda>d h. sha1_update h d) chunks sha1_new) = sha1_spec (concat chunks)
     \<and> length (sha1_spec (concat chunks)) = 20"
proof -
  have "fold (\<lambda>d h. sha1_update h d) chunks sha1_new = sha1_update sha1_new (concat chunks)"
    by (cases "chunks = []") (simp_all add: sha1_updates sha1_update_nil)
  then show ?thesis
    by (simp add: sha1_finish_update_new length_sha1_spec)
qed

section \<open>Evaluation\<close>

text \<open>A digest of a concrete message is evaluated by rewriting: words are kept as \<open>W i\<close> for an integer
  numeral \<open>i\<close>, and the word operations become operations on integers. The bundle \<open>sha1_eval\<close> holds
  the rules.\<close>

definition W :: "int \<Rightarrow> u32" where
  "W = word_of_int"

lemma W_eq: "W a = W b \<longleftrightarrow> a mod 4294967296 = b mod 4294967296"
  unfolding W_def by transfer (simp add: take_bit_eq_mod)

lemma W_add: "W a + W b = W ((a + b) mod 4294967296)"
proof -
  have "W a + W b = W (a + b)"
    unfolding W_def by simp
  also have "\<dots> = W ((a + b) mod 4294967296)"
    by (simp add: W_eq)
  finally show ?thesis .
qed

lemma W_bits:
  "W a XOR W b = W (a XOR b)"
  "W a AND W b = W (a AND b)"
  "W a OR W b = W (a OR b)"
  unfolding W_def by (transfer, simp)+

lemma W_not: "NOT (W a) = W (4294967295 - a)"
proof -
  have "NOT (W a) = W (NOT a)"
    unfolding W_def by transfer simp
  also have "NOT a = (4294967295 - a) + - 1 * 4294967296"
    by (simp add: not_int_def)
  also have "W \<dots> = W (4294967295 - a)"
    unfolding W_eq by (rule mod_mult_self1)
  finally show ?thesis .
qed

definition W_rot1 :: "int \<Rightarrow> int" where
  "W_rot1 x = (x mod 4294967296) div 2147483648 + (x mod 2147483648) * 2"

lemma W_rotl:
  "word_rotl 1 (W a) = W (W_rot1 a)"
  "word_rotl 5 (W a) = W ((a mod 4294967296) div 134217728 + (a mod 134217728) * 32)"
  "word_rotl 30 (W a) = W ((a mod 4294967296) div 4 + (a mod 4) * 1073741824)"
  unfolding W_def W_rot1_def
  by (transfer, simp add: concat_bit_eq take_bit_eq_mod drop_bit_eq_div push_bit_eq_mult)+

lemma W_numeral: "(numeral n :: u32) = W (numeral n)"
  by (simp add: W_def)

text \<open>One round on integers, for each of the four phases.\<close>

definition W_temp :: "int \<Rightarrow> int \<Rightarrow> int \<Rightarrow> int \<Rightarrow> int \<Rightarrow> int" where
  "W_temp a f e k w =
     ((((a mod 4294967296 div 134217728 + a mod 134217728 * 32 + f) mod 4294967296 + e) mod 4294967296
        + k) mod 4294967296 + w) mod 4294967296"

definition W_rot30 :: "int \<Rightarrow> int" where
  "W_rot30 b = b mod 4294967296 div 4 + b mod 4 * 1073741824"

lemma W_round:
  "i \<le> 19 \<Longrightarrow> sha1_round (i, W w) (W a, W b, W c, W d, W e) =
     (W (W_temp a ((b AND c) OR ((4294967295 - b) AND d)) e 0x5A827999 w), W a, W (W_rot30 b), W c, W d)"
  "\<not> i \<le> 19 \<Longrightarrow> i \<le> 39 \<Longrightarrow> sha1_round (i, W w) (W a, W b, W c, W d, W e) =
     (W (W_temp a (b XOR c XOR d) e 0x6ED9EBA1 w), W a, W (W_rot30 b), W c, W d)"
  "\<not> i \<le> 19 \<Longrightarrow> \<not> i \<le> 39 \<Longrightarrow> i \<le> 59 \<Longrightarrow> sha1_round (i, W w) (W a, W b, W c, W d, W e) =
     (W (W_temp a ((b AND c) OR (b AND d) OR (c AND d)) e 0x8F1BBCDC w), W a, W (W_rot30 b), W c, W d)"
  "\<not> i \<le> 19 \<Longrightarrow> \<not> i \<le> 39 \<Longrightarrow> \<not> i \<le> 59 \<Longrightarrow> sha1_round (i, W w) (W a, W b, W c, W d, W e) =
     (W (W_temp a (b XOR c XOR d) e 0xCA62C1D6 w), W a, W (W_rot30 b), W c, W d)"
  by (simp_all only: sha1_round_def W_add W_bits W_not W_rotl W_temp_def W_rot30_def W_numeral Let_def
        prod.case if_True if_False)

text \<open>The schedule on integers, latest word first.\<close>

primrec W_extend :: "nat \<Rightarrow> int list \<Rightarrow> int list" where
  "W_extend 0 r = r"
| "W_extend (Suc n) r = W_extend n (W_rot1 (r ! 2 XOR r ! 7 XOR r ! 13 XOR r ! 15) # r)"

lemma W_extend_numeral:
  "W_extend (numeral k) r = W_extend (pred_numeral k) (W_rot1 (r ! 2 XOR r ! 7 XOR r ! 13 XOR r ! 15) # r)"
  by (simp add: numeral_eq_Suc)

lemma W_extend:
  assumes "16 \<le> length r"
  shows "sha1_extend n (map W (rev r)) = map W (rev (W_extend n r))"
  using assms
proof (induction n arbitrary: r)
  case (Suc n)
  have nth: "map W (rev r) ! (length r - Suc k) = W (r ! k)" if "k < 16" for k
    using that Suc.prems by (simp add: rev_nth)
  show ?case
    using Suc.IH [of "_ # r"] nth [of 2] nth [of 7] nth [of 13] nth [of 15] Suc.prems
    by (simp add: Let_def W_bits W_rotl(1) [unfolded One_nat_def])
qed simp

lemma W_extend_16:
  "sha1_extend 64 [W a0, W a1, W a2, W a3, W a4, W a5, W a6, W a7, W a8, W a9, W a10, W a11, W a12, W a13, W a14, W a15] =
     map W (rev (W_extend 64 [a15, a14, a13, a12, a11, a10, a9, a8, a7, a6, a5, a4, a3, a2, a1, a0]))"
  using W_extend [of "[a15, a14, a13, a12, a11, a10, a9, a8, a7, a6, a5, a4, a3, a2, a1, a0]" 64] by simp

lemma be_word_W:
  "be_word [a, b, c, d] = W (uint a * 16777216 + uint b * 65536 + uint c * 256 + uint (d :: u8))"
  by (simp add: be_word_bytes W_def algebra_simps)

lemma upt_16: "[0..<16] = [0, 1, 2, 3, 4, 5, 6, 7, 8, 9, 10, 11, 12, 13, 14, 15]"
  by (simp add: upt_rec)

lemma upt_80:
  "[0..<80] =
     [0, 1, 2, 3, 4, 5, 6, 7, 8, 9, 10, 11, 12, 13, 14, 15, 16, 17, 18, 19, 20, 21, 22, 23, 24, 25, 26,
      27, 28, 29, 30, 31, 32, 33, 34, 35, 36, 37, 38, 39, 40, 41, 42, 43, 44, 45, 46, 47, 48, 49, 50, 51, 52, 53,
      54, 55, 56, 57, 58, 59, 60, 61, 62, 63, 64, 65, 66, 67, 68, 69, 70, 71, 72, 73, 74, 75, 76, 77, 78, 79]"
  by (simp add: upt_rec)

lemma sha1_compress_W:
  "sha1_compress (W a, W b, W c, W d, W e) block =
     (case fold sha1_round (zip [0..<80] (sha1_schedule block)) (W a, W b, W c, W d, W e) of
        (a', b', c', d', e') \<Rightarrow> (W a + a', W b + b', W c + c', W d + d', W e + e'))"
  by (simp add: sha1_compress_def Let_def)

lemma sha1_blocks_step:
  "64 \<le> length buffered \<Longrightarrow>
     sha1_blocks state buffered = sha1_blocks (sha1_compress state (take 64 buffered)) (drop 64 buffered)"
  by (subst sha1_blocks.simps) simp

lemma sha1_blocks_end: "sha1_blocks state [] = state"
  by (subst sha1_blocks.simps) simp

lemma W_init: "sha1_init = (W 0x67452301, W 0xEFCDAB89, W 0x98BADCFE, W 0x10325476, W 0xC3D2E1F0)"
  by (simp add: sha1_init_def W_def)

lemma be_bytes_4:
  "be_bytes 4 w = [ucast (drop_bit 24 w), ucast (drop_bit 16 w), ucast (drop_bit 8 w), ucast w]"
  by (simp add: be_bytes_def numeral_eq_Suc drop_bit_drop_bit)

lemma be_bytes_8:
  "be_bytes 8 w =
     [ucast (drop_bit 56 w), ucast (drop_bit 48 w), ucast (drop_bit 40 w), ucast (drop_bit 32 w),
      ucast (drop_bit 24 w), ucast (drop_bit 16 w), ucast (drop_bit 8 w), ucast w]"
  by (simp add: be_bytes_def numeral_eq_Suc drop_bit_drop_bit)

lemma replicate_numeral: "replicate (numeral k) x = x # replicate (pred_numeral k) x"
  by (simp add: numeral_eq_Suc)

lemma W_bytes:
  "be_bytes 4 (W a) = [of_int (a div 16777216), of_int (a div 65536), of_int (a div 256), of_int a]"
proof -
  have "(ucast (drop_bit n (W a)) :: u8) = of_int (a div 2 ^ n)" if "n \<le> 24" for n
    unfolding W_def using that
    by transfer (auto simp: drop_bit_take_bit min_def simp flip: drop_bit_eq_div)
  from this [of 24] this [of 16] this [of 8] this [of 0] show ?thesis
    by (simp add: be_bytes_4)
qed

lemmas sha1_eval =
  replicate_numeral be_bytes_8
  sha1_spec_blocks sha1_padding_def sha1_blocks_step sha1_blocks_end W_init sha1_digest_def W_bytes
  sha1_compress_W sha1_schedule_def sha1_load_def upt_16 be_word_W W_extend_16 W_extend_numeral W_extend.simps
  upt_80 W_round W_add W_temp_def [of "numeral a" _ "numeral e" "numeral k" _ for a e k]
  W_rot1_def W_rot30_def

end
