(* ===== verification/Text.thy ===== *)
theory Text
  imports Utf8
begin

text \<open>
  The operations of Rust's \<open>str\<close> that the handshake and the URL parser use, on the UTF-8 bytes of the
  string: \<open>split\<close>, \<open>split_once\<close>, \<open>rsplit_once\<close>, \<open>trim\<close>, \<open>trim_end_matches\<close>, \<open>strip_prefix\<close>,
  \<open>contains\<close>, \<open>eq_ignore_ascii_case\<close> and \<open>parse::<u16>\<close>. Every pattern character the crate passes is
  ASCII, and an ASCII byte is never part of a longer encoding, so a search for the character is a
  search for its byte.
\<close>

section \<open>Definitions\<close>

text \<open>An ASCII literal.\<close>

definition ascii :: "string \<Rightarrow> str" where
  "ascii s = map of_char s"

primrec split_char :: "u8 \<Rightarrow> str \<Rightarrow> str list" where
  "split_char c [] = [[]]"
| "split_char c (x # xs) =
     (let ps = split_char c xs in if x = c then [] # ps else (x # hd ps) # tl ps)"

primrec split_once :: "u8 \<Rightarrow> str \<Rightarrow> (str \<times> str) option" where
  "split_once c [] = None"
| "split_once c (x # xs) = (if x = c then Some ([], xs) else map_option (apfst (Cons x)) (split_once c xs))"

definition rsplit_once :: "u8 \<Rightarrow> str \<Rightarrow> (str \<times> str) option" where
  "rsplit_once c s = map_option (\<lambda>(after, before). (rev before, rev after)) (split_once c (rev s))"

definition trim_end_cr :: "str \<Rightarrow> str" where
  "trim_end_cr s = rev (dropWhile (\<lambda>b. b = 13) (rev s))"

text \<open>The UTF-8 encodings of the characters with the Unicode property \<open>White_Space\<close>: U+0009 to U+000D,
  U+0020, U+0085, U+00A0, U+1680, U+2000 to U+200A, U+2028, U+2029, U+202F, U+205F, U+3000.\<close>

definition white_space :: "str list" where
  "white_space =
     [[0x20], [0x09], [0x0A], [0x0B], [0x0C], [0x0D], [0xC2, 0x85], [0xC2, 0xA0], [0xE1, 0x9A, 0x80],
      [0xE2, 0x80, 0x80], [0xE2, 0x80, 0x81], [0xE2, 0x80, 0x82], [0xE2, 0x80, 0x83], [0xE2, 0x80, 0x84],
      [0xE2, 0x80, 0x85], [0xE2, 0x80, 0x86], [0xE2, 0x80, 0x87], [0xE2, 0x80, 0x88], [0xE2, 0x80, 0x89],
      [0xE2, 0x80, 0x8A], [0xE2, 0x80, 0xA8], [0xE2, 0x80, 0xA9], [0xE2, 0x80, 0xAF], [0xE2, 0x81, 0x9F],
      [0xE3, 0x80, 0x80]]"

definition leading_space :: "str \<Rightarrow> str option" where
  "leading_space s = find (\<lambda>w. take (length w) s = w) white_space"

definition trailing_space :: "str \<Rightarrow> str option" where
  "trailing_space s = find (\<lambda>w. take (length w) (rev s) = rev w) white_space"

lemma white_space_nonempty: "w \<in> set white_space \<Longrightarrow> w \<noteq> []"
  by (auto simp: white_space_def)

lemma leading_space_SomeD: "leading_space s = Some w \<Longrightarrow> w \<noteq> [] \<and> w = take (length w) s"
  by (auto simp: leading_space_def find_Some_iff dest: white_space_nonempty nth_mem)

lemma trailing_space_SomeD: "trailing_space s = Some w \<Longrightarrow> w \<noteq> [] \<and> rev w = take (length w) (rev s)"
  by (auto simp: trailing_space_def find_Some_iff dest: white_space_nonempty nth_mem)

function trim_start :: "str \<Rightarrow> str" where
  "trim_start s = (case leading_space s of None \<Rightarrow> s | Some w \<Rightarrow> trim_start (drop (length w) s))"
  by pat_completeness auto
termination
proof (relation "measure length")
  fix s w :: str
  assume "leading_space s = Some w"
  then have "w \<noteq> []" "w = take (length w) s"
    using leading_space_SomeD by blast+
  then show "(drop (length w) s, s) \<in> measure length"
    by (cases s) auto
qed simp

function trim_end :: "str \<Rightarrow> str" where
  "trim_end s = (case trailing_space s of None \<Rightarrow> s | Some w \<Rightarrow> trim_end (take (length s - length w) s))"
  by pat_completeness auto
termination
proof (relation "measure length")
  fix s w :: str
  assume "trailing_space s = Some w"
  then have "w \<noteq> []" "rev w = take (length w) (rev s)"
    using trailing_space_SomeD by blast+
  then show "(take (length s - length w) s, s) \<in> measure length"
    by (cases "s = []") auto
qed simp

declare trim_start.simps [simp del] trim_end.simps [simp del]

definition trim :: "str \<Rightarrow> str" where
  "trim s = trim_end (trim_start s)"

definition ascii_lower :: "u8 \<Rightarrow> u8" where
  "ascii_lower b = (if 65 \<le> b \<and> b \<le> 90 then b + 32 else b)"

definition eq_ignore_ascii_case :: "str \<Rightarrow> str \<Rightarrow> bool" where
  "eq_ignore_ascii_case a b \<longleftrightarrow> map ascii_lower a = map ascii_lower b"

definition strip_prefix :: "str \<Rightarrow> str \<Rightarrow> str option" where
  "strip_prefix p s = (if take (length p) s = p then Some (drop (length p) s) else None)"

primrec contains_str :: "str \<Rightarrow> str \<Rightarrow> bool" where
  "contains_str p [] \<longleftrightarrow> p = []"
| "contains_str p (x # xs) \<longleftrightarrow> take (length p) (x # xs) = p \<or> contains_str p xs"

text \<open>\<open>parse::<u16>\<close>: an optional plus sign and at least one digit, the value at most 65535. A minus
  sign is not a digit.\<close>

definition is_digit :: "u8 \<Rightarrow> bool" where
  "is_digit b \<longleftrightarrow> 48 \<le> b \<and> b \<le> 57"

definition parse_u16 :: "str \<Rightarrow> u16 option" where
  "parse_u16 s =
     (let digits = (case s of b # rest \<Rightarrow> if b = 43 then rest else s | [] \<Rightarrow> s);
          value = foldl (\<lambda>n b. 10 * n + unat (b - 48)) 0 digits
      in if digits \<noteq> [] \<and> list_all is_digit digits \<and> value < 2 ^ 16 then Some (of_nat value) else None)"

section \<open>Splitting\<close>

lemma split_char_not_Nil [simp]: "split_char c s \<noteq> []"
  by (cases s) (simp_all add: Let_def)

lemma split_char_free [slice_simps]: "c \<notin> set s \<Longrightarrow> split_char c s = [s]"
  by (induction s) (auto simp: Let_def)

lemma split_char_append [slice_simps]: "c \<notin> set s \<Longrightarrow> split_char c (s @ c # t) = s # split_char c t"
  by (induction s) (auto simp: Let_def)

lemma split_char_pieces: "p \<in> set (split_char c s) \<Longrightarrow> c \<notin> set p"
proof (induction s arbitrary: p)
  case (Cons x xs)
  have "hd (split_char c xs) \<in> set (split_char c xs)" "set (tl (split_char c xs)) \<subseteq> set (split_char c xs)"
    by (cases "split_char c xs"; force)+
  then show ?case
    using Cons by (auto simp: Let_def split: if_splits)
qed simp

text \<open>Joining with the separator inverts splitting.\<close>

primrec join_char :: "u8 \<Rightarrow> str list \<Rightarrow> str" where
  "join_char c [] = []"
| "join_char c (p # ps) = (if ps = [] then p else p @ c # join_char c ps)"

lemma join_split_char: "join_char c (split_char c s) = s"
proof (induction s)
  case (Cons x xs)
  obtain p ps where "split_char c xs = p # ps"
    using split_char_not_Nil by (metis list.exhaust)
  then show ?case
    using Cons by (auto simp: Let_def)
qed simp

lemma split_join_char:
  "ps \<noteq> [] \<Longrightarrow> (\<forall>p\<in>set ps. c \<notin> set p) \<Longrightarrow> split_char c (join_char c ps) = ps"
  by (induction ps) (auto simp: slice_simps)

lemma split_once_append [slice_simps]: "c \<notin> set s \<Longrightarrow> split_once c (s @ c # t) = Some (s, t)"
  by (induction s) auto

lemma split_once_free [slice_simps]: "split_once c s = None \<longleftrightarrow> c \<notin> set s"
  by (induction s) auto

lemma split_once_SomeD: "split_once c s = Some (a, b) \<Longrightarrow> s = a @ c # b \<and> c \<notin> set a"
  by (induction s arbitrary: a) (auto split: if_splits)

lemma rsplit_once_append [slice_simps]: "c \<notin> set t \<Longrightarrow> rsplit_once c (s @ c # t) = Some (s, t)"
  using split_once_append [of c "rev t" "rev s"] by (simp add: rsplit_once_def)

lemma rsplit_once_free [slice_simps]: "rsplit_once c s = None \<longleftrightarrow> c \<notin> set s"
  by (simp add: rsplit_once_def split_once_free)

section \<open>Trimming\<close>

definition trimmed :: "str \<Rightarrow> bool" where
  "trimmed s \<longleftrightarrow> leading_space s = None \<and> trailing_space s = None"

lemma trim_trimmed [slice_simps]: "trimmed s \<Longrightarrow> trim s = s"
  by (simp add: trimmed_def trim_def trim_start.simps [of s] trim_end.simps [of s])

lemma leading_space_blank: "leading_space (0x20 # s) = Some [0x20]"
  by (simp add: leading_space_def white_space_def)

lemma trim_blank [slice_simps]: "trim (0x20 # s) = trim s"
  by (simp add: trim_def trim_start.simps [of "0x20 # s"] leading_space_blank)

lemma leading_space_trim_start: "leading_space (trim_start s) = None"
  by (induction s rule: trim_start.induct) (subst trim_start.simps, auto split: option.split)

lemma trailing_space_trim_end: "trailing_space (trim_end s) = None"
  by (induction s rule: trim_end.induct) (subst trim_end.simps, auto split: option.split)

lemma trim_end_take: "\<exists>n. trim_end s = take n s"
proof (induction s rule: trim_end.induct)
  case (1 s)
  show ?case
  proof (cases "trailing_space s")
    case None
    then show ?thesis
      by (intro exI [of _ "length s"]) (simp add: trim_end.simps [of s])
  next
    case (Some w)
    then show ?thesis
      using "1.IH" [OF Some] by (auto simp: trim_end.simps [of s])
  qed
qed

lemma leading_space_take: "leading_space s = None \<Longrightarrow> leading_space (take n s) = None"
proof -
  assume none: "leading_space s = None"
  have "take (length w) (take n s) \<noteq> w" if "w \<in> set white_space" for w
  proof
    assume eq: "take (length w) (take n s) = w"
    then have "length w \<le> n"
      by (metis length_take min.bounded_iff nle_le take_take)
    then have "take (length w) s = w"
      using eq by (simp add: min_def)
    then show False
      using none that by (simp add: leading_space_def find_None_iff)
  qed
  then show ?thesis
    by (auto simp: leading_space_def find_None_iff)
qed

text \<open>What \<open>trim\<close> returns has no white space at either end, and trimming it again changes nothing.\<close>

lemma trimmed_trim [simp]: "trimmed (trim s)"
  unfolding trimmed_def trim_def
  using leading_space_take [OF leading_space_trim_start] trim_end_take trailing_space_trim_end by metis

lemma trim_trim [simp]: "trim (trim s) = trim s"
  by (simp add: slice_simps)

lemma trimmed_Nil [simp]: "trimmed []"
  by (simp add: trimmed_def leading_space_def trailing_space_def white_space_def)

text \<open>A string whose first and last byte are printable ASCII is trimmed.\<close>

lemma white_space_ends:
  "w \<in> set white_space \<Longrightarrow> (hd w < 0x21 \<or> 0x80 \<le> hd w) \<and> (last w < 0x21 \<or> 0x80 \<le> last w)"
  by (auto simp: white_space_def)

lemma leading_space_ascii:
  assumes "s \<noteq> []" "0x21 \<le> hd s" "hd s < 0x80"
  shows "leading_space s = None"
proof -
  have "take (length w) s \<noteq> w" if "w \<in> set white_space" for w
    using white_space_ends [OF that] white_space_nonempty [OF that] assms by (cases s; cases w) auto
  then show ?thesis
    by (simp add: leading_space_def find_None_iff)
qed

lemma trailing_space_ascii:
  assumes "s \<noteq> []" "0x21 \<le> last s" "last s < 0x80"
  shows "trailing_space s = None"
proof -
  have "take (length w) (rev s) \<noteq> rev w" if "w \<in> set white_space" for w
    using white_space_ends [OF that] white_space_nonempty [OF that] assms
    by (cases s rule: rev_cases; cases w rule: rev_cases) auto
  then show ?thesis
    by (simp add: trailing_space_def find_None_iff)
qed

lemma trimmed_ascii:
  "s \<noteq> [] \<Longrightarrow> 0x21 \<le> hd s \<Longrightarrow> hd s < 0x80 \<Longrightarrow> 0x21 \<le> last s \<Longrightarrow> last s < 0x80 \<Longrightarrow> trimmed s"
  by (simp add: trimmed_def leading_space_ascii trailing_space_ascii)

lemma trim_end_cr_crlf [slice_simps]: "trim_end_cr (s @ [13]) = trim_end_cr s"
  by (simp add: trim_end_cr_def)

lemma trim_end_cr_id [slice_simps]: "s = [] \<or> last s \<noteq> 13 \<Longrightarrow> trim_end_cr s = s"
  by (cases s rule: rev_cases) (simp_all add: trim_end_cr_def)

section \<open>Comparison and search\<close>

lemma eq_ignore_ascii_case_refl [simp]: "eq_ignore_ascii_case s s"
  by (simp add: eq_ignore_ascii_case_def)

lemma eq_ignore_ascii_case_sym: "eq_ignore_ascii_case s t \<longleftrightarrow> eq_ignore_ascii_case t s"
  by (auto simp: eq_ignore_ascii_case_def)

lemma eq_ignore_ascii_case_trans:
  "eq_ignore_ascii_case s t \<Longrightarrow> eq_ignore_ascii_case t u \<Longrightarrow> eq_ignore_ascii_case s u"
  by (simp add: eq_ignore_ascii_case_def)

lemma contains_str_append: "contains_str p (a @ p @ b)"
proof (induction a)
  case Nil
  have "contains_str p s" if "take (length p) s = p" for s
    using that by (cases s) auto
  then show ?case
    by simp
qed simp

lemma contains_str_iff: "contains_str p s \<longleftrightarrow> (\<exists>a b. s = a @ p @ b)"
proof
  show "contains_str p s \<Longrightarrow> \<exists>a b. s = a @ p @ b"
  proof (induction s)
    case (Cons x xs)
    show ?case
    proof (cases "take (length p) (x # xs) = p")
      case True
      then have "x # xs = [] @ p @ drop (length p) (x # xs)"
        by (metis append_Nil append_take_drop_id)
      then show ?thesis
        by blast
    next
      case False
      then obtain a b where "xs = a @ p @ b"
        using Cons by auto
      then have "x # xs = (x # a) @ p @ b"
        by simp
      then show ?thesis
        by blast
    qed
  qed simp
qed (auto simp: contains_str_append)

lemma strip_prefix_append [slice_simps]: "strip_prefix p (p @ s) = Some s"
  by (simp add: strip_prefix_def)

lemma strip_prefix_Some_iff: "strip_prefix p s = Some t \<longleftrightarrow> s = p @ t"
  by (auto simp: strip_prefix_def) (metis append_take_drop_id)

end
