(* ===== verification/Accept.thy ===== *)
theory Accept
  imports Sha1 Text
begin

text \<open>
  Base64 and the values of \<open>Sec-WebSocket-Key\<close> and \<open>Sec-WebSocket-Accept\<close>, from
  \<open>src/src/proto/handshake.rs\<close>, against a decoder written from RFC 4648; and the interface through
  which the handshake relies on them: a base64 text can stand as a header value.
\<close>

section \<open>Definitions\<close>

definition B64 :: str where
  "B64 = ascii ''ABCDEFGHIJKLMNOPQRSTUVWXYZabcdefghijklmnopqrstuvwxyz0123456789+/''"

text \<open>The body of the loop over \<open>input.chunks(3)\<close>.\<close>

definition base64_chunk :: "bytes \<Rightarrow> str" where
  "base64_chunk chunk =
     (let b0 = ucast (chunk ! 0) :: u32;
          b1 = ucast (if 1 < length chunk then chunk ! 1 else 0);
          b2 = ucast (if 2 < length chunk then chunk ! 2 else 0);
          triple = push_bit 16 b0 OR push_bit 8 b1 OR b2
      in [B64 ! unat (drop_bit 18 triple AND 0x3F),
          B64 ! unat (drop_bit 12 triple AND 0x3F),
          if 1 < length chunk then B64 ! unat (drop_bit 6 triple AND 0x3F) else 61,
          if 2 < length chunk then B64 ! unat (triple AND 0x3F) else 61])"

function base64_encode :: "bytes \<Rightarrow> str" where
  "base64_encode input =
     (if input = [] then [] else base64_chunk (take 3 input) @ base64_encode (drop 3 input))"
  by pat_completeness auto
termination
  by (relation "measure length") auto

declare base64_encode.simps [simp del]

definition WS_GUID :: bytes where
  "WS_GUID = ascii ''258EAFA5-E914-47DA-95CA-C5AB0DC85B11''"

definition accept_for :: "bytes \<Rightarrow> str" where
  "accept_for key = base64_encode (sha1_finish (sha1_update (sha1_update sha1_new key) WS_GUID))"

definition is_ascii_alphanumeric :: "u8 \<Rightarrow> bool" where
  "is_ascii_alphanumeric b \<longleftrightarrow> 48 \<le> b \<and> b \<le> 57 \<or> 65 \<le> b \<and> b \<le> 90 \<or> 97 \<le> b \<and> b \<le> 122"

definition is_valid_key :: "bytes \<Rightarrow> bool" where
  "is_valid_key key \<longleftrightarrow>
     length key = 24 \<and> drop 22 key = [61, 61]
       \<and> list_all (\<lambda>b. is_ascii_alphanumeric b \<or> b = 43 \<or> b = 47) (take 22 key)"

definition new_key :: "bytes \<Rightarrow> str" where
  "new_key entropy = base64_encode entropy"

section \<open>A decoder, RFC 4648\<close>

definition b64_value :: "u8 \<Rightarrow> nat option" where
  "b64_value c =
     (if 65 \<le> c \<and> c \<le> 90 then Some (unat c - 65)
      else if 97 \<le> c \<and> c \<le> 122 then Some (unat c - 71)
      else if 48 \<le> c \<and> c \<le> 57 then Some (unat c + 4)
      else if c = 43 then Some 62
      else if c = 47 then Some 63
      else None)"

text \<open>The first \<open>k\<close> of the three bytes in a group of four sextets.\<close>

definition b64_group :: "nat \<Rightarrow> nat option list \<Rightarrow> bytes option" where
  "b64_group k vs =
     (if None \<in> set vs then None
      else let n = foldl (\<lambda>n v. 64 * n + the v) 0 vs
           in Some (take k [of_nat (n div 65536), of_nat (n div 256), of_nat n]))"

fun base64_decode :: "str \<Rightarrow> bytes option" where
  "base64_decode [] = Some []"
| "base64_decode (w # x # y # z # rest) =
     (if z = 61 then
        (if rest \<noteq> [] then None
         else if y = 61 then b64_group 1 [b64_value w, b64_value x, Some 0, Some 0]
         else b64_group 2 [b64_value w, b64_value x, b64_value y, Some 0])
      else
        (case (b64_group 3 [b64_value w, b64_value x, b64_value y, b64_value z], base64_decode rest) of
           (Some g, Some gs) \<Rightarrow> Some (g @ gs)
         | _ \<Rightarrow> None))"
| "base64_decode _ = None"

section \<open>Sextets\<close>

lemma length_B64: "length B64 = 64"
  by (simp add: B64_def ascii_def)

lemma B64_eval:
  "map b64_value B64 = map Some [0..<64]"
  "list_all (\<lambda>c. is_ascii_alphanumeric c \<or> c = 43 \<or> c = 47) B64"
  by (simp_all add: B64_def ascii_def b64_value_def is_ascii_alphanumeric_def upt_rec)

lemma B64_nth:
  assumes "i < 64"
  shows "b64_value (B64 ! i) = Some i"
    and "is_ascii_alphanumeric (B64 ! i) \<or> B64 ! i = 43 \<or> B64 ! i = 47"
  using arg_cong [OF B64_eval(1), of "\<lambda>xs. xs ! i"] B64_eval(2) assms
  by (auto simp: length_B64 list_all_length)

lemma b64_value_pad: "b64_value 61 = None"
  by (simp add: b64_value_def)

lemma B64_not_pad: "i < 64 \<Longrightarrow> B64 ! i \<noteq> 61"
  using B64_nth(1) [of i] by (auto simp: b64_value_pad)

text \<open>The three bytes of a chunk as a number.\<close>

definition b64_triple :: "bytes \<Rightarrow> nat" where
  "b64_triple chunk =
     unat (chunk ! 0) * 65536
       + (if 1 < length chunk then unat (chunk ! 1) * 256 else 0)
       + (if 2 < length chunk then unat (chunk ! 2) else 0)"

lemma u24_join:
  "unat (push_bit 16 (ucast a) OR push_bit 8 (ucast b) OR ucast c :: u32)
     = unat (a :: u8) * 65536 + unat (b :: u8) * 256 + unat (c :: u8)"
proof -
  have "unat (be_word [0, a, b, c] :: u32) = unat a * 65536 + unat b * 256 + unat c"
  proof -
    have bounds: "uint x < 256" "0 \<le> uint x" for x :: u8
      using uint_bounded [of x] by simp_all
    have "uint (be_word [0, a, b, c] :: u32) = uint a * 65536 + uint b * 256 + uint c"
      using bounds [of a] bounds [of b] bounds [of c]
      unfolding be_word_W W_def uint_word_of_int by simp
    then show ?thesis
      unfolding uint_nat by linarith
  qed
  moreover have "be_word [0, a, b, c] = (push_bit 16 (ucast a) OR push_bit 8 (ucast b) OR ucast c :: u32)"
    by (rule bit_word_eqI) (auto simp: be_word_def bit_simps)
  ultimately show ?thesis
    by simp
qed

lemma unat_sextet: "unat (drop_bit k (w :: u32) AND 0x3F) = unat w div 2 ^ k mod 64"
proof -
  have "drop_bit k w AND 0x3F = take_bit 6 (drop_bit k w)"
    by (simp add: take_bit_eq_mask mask_eq_exp_minus_1)
  moreover have "unat (take_bit 6 (drop_bit k w)) = take_bit 6 (unat (drop_bit k w))"
    by (simp only: unsigned_take_bit_eq)
  moreover have "unat (drop_bit k w) = unat w div 2 ^ k"
    by (simp only: unat_drop_bit_eq) (simp only: drop_bit_eq_div)
  ultimately show ?thesis
    by (simp add: take_bit_eq_mod)
qed

lemma base64_chunk_eq:
  "base64_chunk chunk =
     [B64 ! (b64_triple chunk div 262144 mod 64),
      B64 ! (b64_triple chunk div 4096 mod 64),
      if 1 < length chunk then B64 ! (b64_triple chunk div 64 mod 64) else 61,
      if 2 < length chunk then B64 ! (b64_triple chunk mod 64) else 61]"
proof -
  define b1 b2 where "b1 = (if 1 < length chunk then chunk ! 1 else 0)"
    and "b2 = (if 2 < length chunk then chunk ! 2 else 0)"
  define t :: u32 where "t = push_bit 16 (ucast (chunk ! 0)) OR push_bit 8 (ucast b1) OR ucast b2"
  have t: "unat t = b64_triple chunk"
    unfolding t_def u24_join by (simp add: b64_triple_def b1_def b2_def)
  show ?thesis
    using unat_sextet [of 18 t] unat_sextet [of 12 t] unat_sextet [of 6 t] unat_sextet [of 0 t]
    unfolding base64_chunk_def Let_def b1_def [symmetric] b2_def [symmetric] t_def [symmetric]
    by (simp add: t)
qed

section \<open>Round trip\<close>

lemma sextets_join:
  assumes "t < 16777216"
  shows "64 * (64 * (64 * (t div 262144 mod 64) + t div 4096 mod 64) + t div 64 mod 64) + t mod 64 = (t :: nat)"
proof -
  have "t div 64 div 64 = t div 4096" "t div 4096 div 64 = t div 262144"
    by (simp_all add: div_mult2_eq [symmetric])
  moreover have "t div 262144 mod 64 = t div 262144"
    using assms by (simp add: div_less_iff_less_mult)
  ultimately have "64 * (t div 262144 mod 64) + t div 4096 mod 64 = t div 4096"
    "64 * (t div 4096) + t div 64 mod 64 = t div 64"
    by (metis mult_div_mod_eq)+
  then show ?thesis
    by simp
qed

lemma u8_less: "unat (x :: u8) < 256"
  using unsigned_less [of x] by simp

lemma b64_triple_less: "b64_triple chunk < 16777216"
  using u8_less [of "chunk ! 0"] u8_less [of "chunk ! 1"] u8_less [of "chunk ! 2"]
  by (simp add: b64_triple_def)

lemma b64_group_triple:
  "b64_group k [Some (b64_triple cs div 262144 mod 64), Some (b64_triple cs div 4096 mod 64),
                Some (b64_triple cs div 64 mod 64), Some (b64_triple cs mod 64)]
     = Some (take k [cs ! 0, if 1 < length cs then cs ! 1 else 0, if 2 < length cs then cs ! 2 else 0])"
proof -
  have "(65536 :: u8) = 0" "(256 :: u8) = 0"
    by simp_all
  then have zero: "x * 65536 = 0" "x * 256 = 0" for x :: u8
    by (metis mult_zero_right)+
  have "b64_triple cs div 65536 = unat (cs ! 0)"
    using u8_less [of "cs ! 1"] u8_less [of "cs ! 2"]
    by (intro div_nat_eqI) (simp_all add: b64_triple_def)
  moreover have "b64_triple cs div 256 = unat (cs ! 0) * 256 + (if 1 < length cs then unat (cs ! 1) else 0)"
    using u8_less [of "cs ! 2"] by (intro div_nat_eqI) (simp_all add: b64_triple_def)
  moreover have "(of_nat (b64_triple cs) :: u8) = (if 2 < length cs then cs ! 2 else 0)"
    by (simp add: b64_triple_def zero)
  ultimately show ?thesis
    using sextets_join [OF b64_triple_less [of cs]] by (simp add: b64_group_def zero)
qed

text \<open>Decoding what \<open>base64_encode\<close> wrote gives the input back, for inputs of every length, and
  the text has four characters for every three bytes begun.\<close>

lemma base64_roundtrip:
  "base64_decode (base64_encode input) = Some input
     \<and> length (base64_encode input) = (length input + 2) div 3 * 4"
proof (induction input rule: base64_encode.induct)
  case (1 input)
  note group = b64_group_triple [of _ input]
  have sextet: "b64_value (B64 ! (n mod 64)) = Some (n mod 64)" "B64 ! (n mod 64) \<noteq> 61" for n
    using B64_nth(1) [of "n mod 64"] B64_not_pad [of "n mod 64"] by simp_all
  consider "input = []" | a where "input = [a]" | a b where "input = [a, b]"
    | a b c rest where "input = a # b # c # rest"
    by (metis list.exhaust)
  then show ?case
  proof cases
    case 2
    have "b64_triple [a] mod 64 = 0" "b64_triple [a] div 64 mod 64 = 0"
      by (simp_all add: b64_triple_def)
    then show ?thesis
      using b64_group_triple [of 1 "[a]"]
      by (simp add: base64_encode.simps base64_chunk_eq sextet 2)
  next
    case 3
    have "b64_triple [a, b] mod 64 = 0"
      by (simp add: b64_triple_def mod_add_eq [symmetric])
    then show ?thesis
      using b64_group_triple [of 2 "[a, b]"]
      by (simp add: base64_encode.simps base64_chunk_eq sextet 3)
  next
    case 4
    have IH: "base64_decode (base64_encode rest) = Some rest"
      "length (base64_encode rest) = (length rest + 2) div 3 * 4"
      using 1 4 by simp_all
    have "base64_encode input = base64_chunk [a, b, c] @ base64_encode rest"
      by (simp add: base64_encode.simps [of "a # b # c # rest"] 4)
    moreover have "(5 + length rest) div 3 = Suc (Suc (Suc (length rest)) div 3)"
      by presburger
    ultimately show ?thesis
      using b64_group_triple [of 3 "[a, b, c]"] IH
      by (simp add: base64_chunk_eq sextet 4)
  qed (simp add: base64_encode.simps)
qed

section \<open>Header values\<close>

text \<open>What a text needs so that a header line carries it unchanged: it has no line feed, \<open>trim\<close>
  leaves it alone, and it is valid UTF-8. The client of the interface writes the line
  \<open>name: value\<close> as the builders of the handshake do, and reads it back as the parsers do.\<close>

definition ok_value :: "str \<Rightarrow> bool" where
  "ok_value v \<longleftrightarrow> trimmed v \<and> 10 \<notin> set v \<and> utf8_valid v"

definition header_line :: "str \<Rightarrow> str \<Rightarrow> str" where
  "header_line name v = name @ [58, 32] @ v @ [13]"

lemma ascii_utf8_valid: "list_all (\<lambda>b. b < 0x80) s \<Longrightarrow> utf8_valid s"
proof (induction s)
  case (Cons b s)
  then show ?case
    by (simp add: utf8_valid.simps(2) word_less_nat_alt word_le_nat_alt)
qed simp

text \<open>The carriage return that ends the line is removed. A value that itself ends with one would lose
  it, but such a value is not trimmed.\<close>

lemma trimmed_not_cr: "trimmed v \<Longrightarrow> v = [] \<or> last v \<noteq> 13"
  by (cases v rule: rev_cases) (auto simp: trimmed_def trailing_space_def white_space_def)

lemma header_line_split:
  assumes "ok_value v" and "58 \<notin> set name"
  shows "split_once 58 (trim_end_cr (header_line name v)) = Some (name, 32 # v)"
proof -
  have "trim_end_cr (header_line name v) = trim_end_cr (name @ 58 # 32 # v)"
    using trim_end_cr_crlf [of "name @ 58 # 32 # v"] by (simp add: header_line_def)
  also have "\<dots> = name @ 58 # 32 # v"
    using assms trimmed_not_cr [of v] by (intro trim_end_cr_id) (auto simp: ok_value_def)
  finally show ?thesis
    using assms by (simp add: slice_simps)
qed

locale header_values =
  fixes value_of :: "'a \<Rightarrow> str"
  assumes ok_value_of: "ok_value (value_of x)"
begin

lemma line_has_no_lf: "10 \<notin> set name \<Longrightarrow> 10 \<notin> set (header_line name (value_of x))"
  using ok_value_of [of x] by (simp add: ok_value_def header_line_def)

lemma line_read_back:
  "58 \<notin> set name \<Longrightarrow>
     map_option (\<lambda>(n, v). (n, trim v)) (split_once 58 (trim_end_cr (header_line name (value_of x))))
       = Some (name, value_of x)"
  using ok_value_of [of x]
  by (simp add: header_line_split ok_value_def slice_simps)

end

lemma base64_chars:
  "c \<in> set (base64_encode input) \<Longrightarrow> is_ascii_alphanumeric c \<or> c = 43 \<or> c = 47 \<or> c = 61"
proof (induction input rule: base64_encode.induct)
  case (1 input)
  have "is_ascii_alphanumeric (B64 ! (n mod 64)) \<or> B64 ! (n mod 64) = 43 \<or> B64 ! (n mod 64) = 47" for n
    using B64_nth(2) [of "n mod 64"] by simp
  then show ?case
    using 1 by (auto simp: base64_encode.simps [of input] base64_chunk_eq split: if_splits)
qed

lemma base64_char_range: "c \<in> set (base64_encode input) \<Longrightarrow> 0x21 \<le> c \<and> c < 0x80"
  using base64_chars [of c input] by (auto simp: is_ascii_alphanumeric_def word_le_nat_alt word_less_nat_alt)

lemma base64_ok_value: "ok_value (base64_encode input)"
proof -
  have "trimmed (base64_encode input)"
  proof (cases "base64_encode input = []")
    case False
    then show ?thesis
      using base64_char_range hd_in_set last_in_set by (blast intro: trimmed_ascii)
  qed simp
  moreover have "utf8_valid (base64_encode input)"
    using base64_char_range by (intro ascii_utf8_valid) (auto simp: list_all_iff)
  moreover have "10 \<notin> set (base64_encode input)"
    using base64_char_range [of 10 input] by auto
  ultimately show ?thesis
    by (simp add: ok_value_def)
qed

interpretation base64_value: header_values base64_encode
  by unfold_locales (rule base64_ok_value)

interpretation accept_value: header_values accept_for
  by unfold_locales (simp add: accept_for_def base64_ok_value)

interpretation key_value: header_values new_key
  by unfold_locales (simp add: new_key_def base64_ok_value)

section \<open>Keys\<close>

lemma accept_for_eq: "accept_for key = base64_encode (sha1_spec (key @ WS_GUID))"
  by (simp add: accept_for_def sha1_update_update sha1_finish_update_new)

text \<open>C35: The accept value is the base64 text of the FIPS 180-4 digest of the key followed by the
  GUID of RFC 6455: a header line carries it and reads back as the value, it has 28 characters, and
  decoding it gives the digest.\<close>

theorem accept_for_spec:
  "base64_decode (accept_for key) = Some (sha1_spec (key @ WS_GUID))
     \<and> length (accept_for key) = 28
     \<and> split_once 58 (trim_end_cr (header_line (ascii ''Sec-WebSocket-Accept'') (accept_for key)))
         = Some (ascii ''Sec-WebSocket-Accept'', 32 # accept_for key)
     \<and> trim (32 # accept_for key) = accept_for key"
proof -
  have "58 \<notin> set (ascii ''Sec-WebSocket-Accept'')"
    by (simp add: ascii_def)
  then show ?thesis
    using base64_roundtrip [of "sha1_spec (key @ WS_GUID)"] accept_value.ok_value_of [of key]
    by (simp add: header_line_split ok_value_def slice_simps) (simp add: accept_for_eq length_sha1_spec)
qed

lemma base64_encode_append:
  "length xs mod 3 = 0 \<Longrightarrow> base64_encode (xs @ ys) = base64_encode xs @ base64_encode ys"
proof (induction xs rule: base64_encode.induct)
  case (1 xs)
  show ?case
  proof (cases "xs = []")
    case False
    then have "3 \<le> length xs"
      using 1(2) by (cases xs rule: base64_decode.cases) auto
    then show ?thesis
      using 1 False by (simp add: base64_encode.simps [of "xs @ ys"] base64_encode.simps [of xs] le_mod_geq)
  qed (simp add: base64_encode.simps [of "[]"])
qed

lemma base64_encode_unpadded:
  "length xs mod 3 = 0 \<Longrightarrow> list_all (\<lambda>b. is_ascii_alphanumeric b \<or> b = 43 \<or> b = 47) (base64_encode xs)"
proof (induction xs rule: base64_encode.induct)
  case (1 xs)
  have "is_ascii_alphanumeric (B64 ! (n mod 64)) \<or> B64 ! (n mod 64) = 43 \<or> B64 ! (n mod 64) = 47" for n
    using B64_nth(2) [of "n mod 64"] by simp
  moreover have "3 \<le> length xs" if "xs \<noteq> []"
    using 1(2) that by (cases xs rule: base64_decode.cases) auto
  ultimately show ?case
    using 1 by (auto simp: base64_encode.simps [of xs] base64_chunk_eq le_mod_geq)
qed

lemma new_key_is_valid:
  assumes "length entropy = 16"
  shows "is_valid_key (new_key entropy)"
proof -
  define front where "front = take 15 entropy"
  have split: "entropy = front @ [entropy ! 15]" and front: "length front = 15"
    using assms take_Suc_conv_app_nth [of 15 entropy] by (simp_all add: front_def)
  have "base64_encode [entropy ! 15] =
      [B64 ! (b64_triple [entropy ! 15] div 262144 mod 64), B64 ! (b64_triple [entropy ! 15] div 4096 mod 64), 61, 61]"
    by (simp add: base64_encode.simps base64_chunk_eq)
  moreover have "length (base64_encode front) = 20"
    using base64_roundtrip [of front] front by simp
  moreover have "new_key entropy = base64_encode front @ base64_encode [entropy ! 15]"
    unfolding new_key_def by (subst split) (simp add: base64_encode_append front)
  ultimately show ?thesis
    using base64_encode_unpadded [of front] front B64_nth(2)
    by (simp add: is_valid_key_def)
qed

text \<open>A key made from sixteen bytes of entropy is a valid key, and different entropies give
  different keys.\<close>

lemma new_key_valid:
  assumes "length entropy = 16"
  shows "is_valid_key (new_key entropy)
           \<and> (\<forall>other. new_key other = new_key entropy \<longrightarrow> other = entropy)"
  using new_key_is_valid [OF assms] base64_roundtrip by (metis new_key_def option.inject)

end
