(* ===== verification/Vectors.thy ===== *)
theory Vectors
  imports Accept
begin

text \<open>
  Published test vectors, evaluated by rewriting in the kernel: FIPS 180-4 for SHA-1, RFC 4648 for base64,
  and the worked handshake of RFC 6455. They tie the definitions to the standards rather than to each
  other.
\<close>

text \<open>Two of the published vectors: the empty string and \<open>abc\<close>.\<close>

lemma sha1_empty:
  "sha1_spec [] =
     [0xDA, 0x39, 0xA3, 0xEE, 0x5E, 0x6B, 0x4B, 0x0D, 0x32, 0x55, 0xBF, 0xEF, 0x95, 0x60, 0x18, 0x90, 0xAF,
      0xD8, 0x07, 0x09]"
  by (simp add: sha1_eval)

lemma sha1_abc:
  "sha1_spec [97, 98, 99] =
     [0xA9, 0x99, 0x3E, 0x36, 0x47, 0x06, 0x81, 0x6A, 0xBA, 0x3E, 0x25, 0x71, 0x78, 0x50, 0xC2, 0x6C, 0x9C,
      0xD0, 0xD8, 0x9D]"
  by (simp add: sha1_eval)

text \<open>The worked example of RFC 6455, section 1.3: the accept value of the key
  \<open>dGhlIHNhbXBsZSBub25jZQ==\<close> is \<open>s3pPLMBiTxaQ9kYGzzhZRbK+xOo=\<close>.\<close>

lemma accept_for_rfc6455:
  "accept_for (ascii ''dGhlIHNhbXBsZSBub25jZQ=='') = ascii ''s3pPLMBiTxaQ9kYGzzhZRbK+xOo=''"
proof -
  have "sha1_spec (ascii ''dGhlIHNhbXBsZSBub25jZQ=='' @ WS_GUID) =
      [0xB3, 0x7A, 0x4F, 0x2C, 0xC0, 0x62, 0x4F, 0x16, 0x90, 0xF6, 0x46, 0x06, 0xCF, 0x38, 0x59, 0x45, 0xB2,
       0xBE, 0xC4, 0xEA]"
    by (simp add: ascii_def WS_GUID_def sha1_eval)
  then show ?thesis
    by (simp add: accept_for_eq base64_encode.simps base64_chunk_eq b64_triple_def B64_def ascii_def)
qed

end
