(* ===== verification/Transport.thy ===== *)
theory Transport
  imports Wss_Prelude
begin

text \<open>
  The transport under a connection (\<open>src/src/stream.rs\<close>) and the growable buffer it reads into. The
  traits' implementations are \<open>nagoya\<close>'s and not part of this repository: a stream is a record of
  operations on an abstract state, and the allocator of \<open>BytesMut\<close> a function. What the crate relies on
  is stated as two locales; the default methods of \<open>StreamExt\<close> are shown to lift a byte stream that
  obeys the first to one that obeys the second.
\<close>

section \<open>Definitions\<close>

datatype errno = Errno int

type_synonym 'a io = "errno + 'a"

subsection \<open>Buffers\<close>

text \<open>A \<open>BytesMut\<close>: its bytes and its capacity. How much an allocation yields is up to the allocator,
  a function of the length, the capacity and the number of bytes asked for.\<close>

type_synonym alloc = "nat \<Rightarrow> nat \<Rightarrow> nat \<Rightarrow> nat"

record bytes_mut =
  bm_data :: bytes
  bm_cap :: nat

definition bm_spare :: "bytes_mut \<Rightarrow> nat" where
  "bm_spare b = bm_cap b - length (bm_data b)"

definition bm_with_capacity :: "alloc \<Rightarrow> nat \<Rightarrow> bytes_mut" where
  "bm_with_capacity al n = \<lparr>bm_data = [], bm_cap = al 0 0 n\<rparr>"

definition bm_reserve :: "alloc \<Rightarrow> nat \<Rightarrow> bytes_mut \<Rightarrow> bytes_mut" where
  "bm_reserve al n b =
     (if bm_spare b < n then b\<lparr>bm_cap := al (length (bm_data b)) (bm_cap b) n\<rparr> else b)"

definition bm_extend :: "alloc \<Rightarrow> bytes \<Rightarrow> bytes_mut \<Rightarrow> bytes_mut" where
  "bm_extend al xs b = (bm_reserve al (length xs) b)\<lparr>bm_data := bm_data b @ xs\<rparr>"

definition bm_split_to :: "nat \<Rightarrow> bytes_mut \<Rightarrow> bytes \<times> bytes_mut" where
  "bm_split_to n b = (take n (bm_data b), \<lparr>bm_data = drop n (bm_data b), bm_cap = bm_cap b - n\<rparr>)"

subsection \<open>Streams\<close>

text \<open>\<open>ByteStream\<close>: \<open>read\<close> is given the length of the slice to fill and returns what it put there, no
  bytes at the end of the stream.\<close>

record 's byte_stream =
  bs_read :: "'s \<Rightarrow> nat \<Rightarrow> bytes io \<times> 's"
  bs_write_all :: "'s \<Rightarrow> bytes \<Rightarrow> unit io \<times> 's"

text \<open>\<open>StreamExt\<close>, with the operation it inherits.\<close>

record 's stream_ext =
  sx_read_buf :: "'s \<Rightarrow> bytes_mut \<Rightarrow> nat io \<times> bytes_mut \<times> 's"
  sx_write_all :: "'s \<Rightarrow> bytes \<Rightarrow> unit io \<times> 's"
  sx_write_all_vectored :: "'s \<Rightarrow> bytes \<Rightarrow> bytes \<Rightarrow> unit io \<times> 's"

definition default_read_buf ::
    "alloc \<Rightarrow> 's byte_stream \<Rightarrow> 's \<Rightarrow> bytes_mut \<Rightarrow> nat io \<times> bytes_mut \<times> 's" where
  "default_read_buf al bs s buffer =
     (let chunk_len = 16 * 1024;
          count = max (min chunk_len (bm_spare buffer)) 1
      in case bs_read bs s count of
           (Inl e, s') \<Rightarrow> (Inl e, buffer, s')
         | (Inr chunk, s') \<Rightarrow> (Inr (length chunk), bm_extend al chunk buffer, s'))"

definition default_write_all_vectored :: "'s byte_stream \<Rightarrow> 's \<Rightarrow> bytes \<Rightarrow> bytes \<Rightarrow> unit io \<times> 's" where
  "default_write_all_vectored bs s header payload =
     (let joined = header @ payload in bs_write_all bs s joined)"

definition default_ext :: "alloc \<Rightarrow> 's byte_stream \<Rightarrow> 's stream_ext" where
  "default_ext al bs =
     \<lparr>sx_read_buf = default_read_buf al bs,
      sx_write_all = bs_write_all bs,
      sx_write_all_vectored = default_write_all_vectored bs\<rparr>"

text \<open>A socket has its own \<open>read_buf\<close> and \<open>write_all_vectored\<close>, which are \<open>nagoya\<close>'s; the implementation of
  \<open>StreamExt\<close> for it calls them.\<close>

record 's tcp_stream =
  tcp_bytes :: "'s byte_stream"
  tcp_read_buf :: "'s \<Rightarrow> bytes_mut \<Rightarrow> nat io \<times> bytes_mut \<times> 's"
  tcp_write_all_vectored :: "'s \<Rightarrow> bytes \<Rightarrow> bytes \<Rightarrow> unit io \<times> 's"

definition tcp_stream_ext :: "'s tcp_stream \<Rightarrow> 's stream_ext" where
  "tcp_stream_ext tcp =
     \<lparr>sx_read_buf = tcp_read_buf tcp,
      sx_write_all = bs_write_all (tcp_bytes tcp),
      sx_write_all_vectored = tcp_write_all_vectored tcp\<rparr>"

section \<open>Interfaces\<close>

text \<open>\<open>BytesMut::reserve\<close> makes room for at least what was asked.\<close>

locale allocator =
  fixes al :: alloc
  assumes alloc_room: "len + n \<le> al len cap n"
begin

lemma reserve_spare: "n \<le> bm_spare (bm_reserve al n b)"
  using alloc_room [of "length (bm_data b)" n "bm_cap b"] by (auto simp: bm_reserve_def bm_spare_def)

lemma with_capacity_spare: "n \<le> bm_spare (bm_with_capacity al n)"
  using alloc_room [of 0 n 0] by (simp add: bm_with_capacity_def bm_spare_def)

end

lemma bm_data_simps [simp]:
  "bm_data (bm_reserve al n b) = bm_data b"
  "bm_data (bm_extend al xs b) = bm_data b @ xs"
  "bm_data (bm_with_capacity al n) = []"
  by (simp_all add: bm_reserve_def bm_extend_def bm_with_capacity_def)

lemma bm_reserve_guard [simp]: "(if bm_spare b < n then bm_reserve al n b else b) = bm_reserve al n b"
  by (simp add: bm_reserve_def)

text \<open>A byte stream whose peer sends the bytes \<open>incoming\<close> and then ends its side: a read takes a piece of
  them, an empty one only at the end; a write hands over all its bytes.\<close>

locale lossless_stream =
  fixes bs :: "'s byte_stream" and incoming :: "'s \<Rightarrow> bytes" and sent :: "'s \<Rightarrow> bytes"
  assumes read_piece: "0 < n \<Longrightarrow> \<exists>k s'. bs_read bs s n = (Inr (take k (incoming s)), s') \<and> k \<le> length (incoming s)
      \<and> (incoming s \<noteq> [] \<longrightarrow> 0 < k) \<and> incoming s' = drop k (incoming s) \<and> sent s' = sent s"
    and write_sends: "\<exists>s'. bs_write_all bs s xs = (Inr (), s') \<and> sent s' = sent s @ xs \<and> incoming s' = incoming s"

text \<open>The same for the extended operations: what is read is appended to the buffer, as long as the
  buffer has room for a byte.\<close>

locale lossless_ext =
  fixes sx :: "'s stream_ext" and incoming :: "'s \<Rightarrow> bytes" and sent :: "'s \<Rightarrow> bytes"
  assumes read_buf_piece: "0 < bm_spare b \<Longrightarrow> \<exists>k b' s'. sx_read_buf sx s b = (Inr k, b', s')
      \<and> k \<le> length (incoming s) \<and> (incoming s \<noteq> [] \<longrightarrow> 0 < k) \<and> bm_data b' = bm_data b @ take k (incoming s)
      \<and> incoming s' = drop k (incoming s) \<and> sent s' = sent s"
    and write_all_sends:
      "\<exists>s'. sx_write_all sx s xs = (Inr (), s') \<and> sent s' = sent s @ xs \<and> incoming s' = incoming s"
    and write_vectored_sends: "\<exists>s'. sx_write_all_vectored sx s header payload = (Inr (), s')
      \<and> sent s' = sent s @ header @ payload \<and> incoming s' = incoming s"
begin

lemma read_conserves:
  assumes "0 < bm_spare b" "sx_read_buf sx s b = (r, b', s')"
  shows "bm_data b' @ incoming s' = bm_data b @ incoming s \<and> sent s' = sent s"
  using read_buf_piece [OF assms(1), of s] assms(2) by auto

lemma read_zero_iff:
  assumes "0 < bm_spare b" "sx_read_buf sx s b = (Inr k, b', s')"
  shows "k = 0 \<longleftrightarrow> incoming s = []"
  using read_buf_piece [OF assms(1), of s] assms(2) by auto

end

context lossless_stream
begin

lemma default_read_buf_piece:
  "\<exists>k b' s'. sx_read_buf (default_ext al bs) s b = (Inr k, b', s')
      \<and> k \<le> length (incoming s) \<and> (incoming s \<noteq> [] \<longrightarrow> 0 < k) \<and> bm_data b' = bm_data b @ take k (incoming s)
      \<and> incoming s' = drop k (incoming s) \<and> sent s' = sent s"
proof -
  have "0 < max (min (16 * 1024) (bm_spare b)) 1"
    by simp
  from read_piece [OF this, of s] show ?thesis
    by (auto simp: default_ext_def default_read_buf_def)
qed

end

sublocale lossless_stream \<subseteq> default: lossless_ext "default_ext al bs" incoming sent for al
proof unfold_locales
  show "\<exists>s'. sx_write_all (default_ext al bs) s xs = (Inr (), s') \<and> sent s' = sent s @ xs \<and> incoming s' = incoming s"
    for s xs
    using write_sends by (simp add: default_ext_def)
  show "\<exists>s'. sx_write_all_vectored (default_ext al bs) s header payload = (Inr (), s')
      \<and> sent s' = sent s @ header @ payload \<and> incoming s' = incoming s" for s header payload
    using write_sends [of s "header @ payload"] by (simp add: default_ext_def default_write_all_vectored_def)
qed (rule default_read_buf_piece)

text \<open>A socket whose own operations keep the same promises: it reads into the spare capacity of the buffer,
  and writes a header and a payload as one.\<close>

locale lossless_socket = lossless_stream "tcp_bytes tcp" incoming sent
  for tcp :: "'s tcp_stream" and incoming :: "'s \<Rightarrow> bytes" and sent :: "'s \<Rightarrow> bytes" +
  assumes tcp_read_piece: "0 < bm_spare b \<Longrightarrow> \<exists>k s'. tcp_read_buf tcp s b
      = (Inr k, b\<lparr>bm_data := bm_data b @ take k (incoming s)\<rparr>, s')
      \<and> k \<le> bm_spare b \<and> k \<le> length (incoming s) \<and> (incoming s \<noteq> [] \<longrightarrow> 0 < k)
      \<and> incoming s' = drop k (incoming s) \<and> sent s' = sent s"
    and tcp_vectored_sends: "\<exists>s'. tcp_write_all_vectored tcp s header payload = (Inr (), s')
      \<and> sent s' = sent s @ header @ payload \<and> incoming s' = incoming s"

sublocale lossless_socket \<subseteq> socket: lossless_ext "tcp_stream_ext tcp" incoming sent
proof unfold_locales
  show "\<exists>s'. sx_write_all (tcp_stream_ext tcp) s xs = (Inr (), s') \<and> sent s' = sent s @ xs \<and> incoming s' = incoming s"
    for s xs
    using write_sends by (simp add: tcp_stream_ext_def)
  show "\<exists>s'. sx_write_all_vectored (tcp_stream_ext tcp) s header payload = (Inr (), s')
      \<and> sent s' = sent s @ header @ payload \<and> incoming s' = incoming s" for s header payload
    using tcp_vectored_sends by (simp add: tcp_stream_ext_def)
  show "\<exists>k b' s'. sx_read_buf (tcp_stream_ext tcp) s b = (Inr k, b', s')
      \<and> k \<le> length (incoming s) \<and> (incoming s \<noteq> [] \<longrightarrow> 0 < k) \<and> bm_data b' = bm_data b @ take k (incoming s)
      \<and> incoming s' = drop k (incoming s) \<and> sent s' = sent s" if "0 < bm_spare b" for s b
    using tcp_read_piece [OF that, of s] by (auto simp: tcp_stream_ext_def)
qed

section \<open>An in-memory pipe\<close>

text \<open>The pieces that will arrive, one for each read at most, and what has been sent.\<close>

record pipe =
  p_pieces :: "bytes list"
  p_sent :: bytes

definition pipe_read :: "pipe \<Rightarrow> nat \<Rightarrow> bytes io \<times> pipe" where
  "pipe_read p n =
     (case dropWhile (\<lambda>c. c = []) (p_pieces p) of
        [] \<Rightarrow> (Inr [], p)
      | c # cs \<Rightarrow> (Inr (take n c), p\<lparr>p_pieces := drop n c # cs\<rparr>))"

definition pipe_stream :: "pipe byte_stream" where
  "pipe_stream = \<lparr>bs_read = pipe_read, bs_write_all = (\<lambda>p xs. (Inr (), p\<lparr>p_sent := p_sent p @ xs\<rparr>))\<rparr>"

definition pipe_incoming :: "pipe \<Rightarrow> bytes" where
  "pipe_incoming p = concat (p_pieces p)"

text \<open>An allocator that gives exactly what is asked.\<close>

definition exact_alloc :: alloc where
  "exact_alloc len cap n = len + n"

lemma concat_dropWhile_Nil: "concat (dropWhile (\<lambda>c. c = []) cs) = concat cs"
  by (induction cs) auto

interpretation pipe: lossless_stream pipe_stream pipe_incoming p_sent
proof
  fix n and s :: pipe
  assume "(0 :: nat) < n"
  have inc: "pipe_incoming s = concat (dropWhile (\<lambda>c. c = []) (p_pieces s))"
    by (simp add: pipe_incoming_def concat_dropWhile_Nil)
  show "\<exists>k s'. bs_read pipe_stream s n = (Inr (take k (pipe_incoming s)), s') \<and> k \<le> length (pipe_incoming s)
      \<and> (pipe_incoming s \<noteq> [] \<longrightarrow> 0 < k) \<and> pipe_incoming s' = drop k (pipe_incoming s) \<and> p_sent s' = p_sent s"
  proof (cases "dropWhile (\<lambda>c. c = []) (p_pieces s)")
    case Nil
    then show ?thesis
      using inc by (intro exI [of _ 0] exI [of _ s])
        (simp add: pipe_stream_def pipe_read_def del: dropWhile_eq_Nil_conv)
  next
    case (Cons c cs)
    then have "c \<noteq> []"
      by (metis (mono_tags) dropWhile_eq_Cons_conv)
    then show ?thesis
      using Cons \<open>0 < n\<close> unfolding inc
      by (intro exI [of _ "min n (length c)"])
        (auto simp: pipe_stream_def pipe_read_def pipe_incoming_def min_def)
  qed
qed (simp add: pipe_stream_def pipe_incoming_def)

interpretation exact: allocator exact_alloc
  by unfold_locales (simp add: exact_alloc_def)

text \<open>The pipe as a socket: a read fills the spare capacity, a vectored write hands over header and payload.\<close>

definition pipe_tcp :: "pipe tcp_stream" where
  "pipe_tcp =
     \<lparr>tcp_bytes = pipe_stream,
      tcp_read_buf = (\<lambda>p b. case pipe_read p (bm_spare b) of
         (Inl e, p') \<Rightarrow> (Inl e, b, p')
       | (Inr chunk, p') \<Rightarrow> (Inr (length chunk), b\<lparr>bm_data := bm_data b @ chunk\<rparr>, p')),
      tcp_write_all_vectored = (\<lambda>p header payload. (Inr (), p\<lparr>p_sent := p_sent p @ header @ payload\<rparr>))\<rparr>"

lemma pipe_read_fits: "pipe_read p n = (Inr chunk, p') \<Longrightarrow> length chunk \<le> n"
  by (auto simp: pipe_read_def split: list.splits)

interpretation pipe_socket: lossless_socket pipe_tcp pipe_incoming p_sent
proof (unfold lossless_socket_def lossless_socket_axioms_def, intro conjI allI impI)
  show "lossless_stream (tcp_bytes pipe_tcp) pipe_incoming p_sent"
    by (simp add: pipe_tcp_def pipe.lossless_stream_axioms)
next
  fix b and s :: pipe
  assume "0 < bm_spare b"
  from pipe.read_piece [OF this, of s] obtain k s' where
    read: "pipe_read s (bm_spare b) = (Inr (take k (pipe_incoming s)), s')" and
    k: "k \<le> length (pipe_incoming s)" "pipe_incoming s \<noteq> [] \<longrightarrow> 0 < k" "pipe_incoming s' = drop k (pipe_incoming s)"
      "p_sent s' = p_sent s"
    by (auto simp: pipe_stream_def)
  then show "\<exists>k s'. tcp_read_buf pipe_tcp s b
      = (Inr k, b\<lparr>bm_data := bm_data b @ take k (pipe_incoming s)\<rparr>, s')
      \<and> k \<le> bm_spare b \<and> k \<le> length (pipe_incoming s) \<and> (pipe_incoming s \<noteq> [] \<longrightarrow> 0 < k)
      \<and> pipe_incoming s' = drop k (pipe_incoming s) \<and> p_sent s' = p_sent s"
    using pipe_read_fits [OF read] by (auto simp: pipe_tcp_def)
next
  fix s :: pipe and header payload
  show "\<exists>s'. tcp_write_all_vectored pipe_tcp s header payload = (Inr (), s')
      \<and> p_sent s' = p_sent s @ header @ payload \<and> pipe_incoming s' = pipe_incoming s"
    by (simp add: pipe_tcp_def pipe_incoming_def)
qed

end
