(* ===== verification/Handshake.thy ===== *)
theory Handshake
  imports Accept
begin

text \<open>
  The HTTP side of the opening handshake (\<open>src/src/proto/handshake.rs\<close>): finding the end of a head,
  parsing a request, building the response, the refusal and the request, and checking a response.
  Strings are their UTF-8 bytes; a carriage return is 13, a line feed 10, a colon 58, a comma 44.
\<close>

section \<open>Definitions\<close>

datatype upgrade_error = Malformed | NotGet | NotAnUpgrade | WrongVersion | BadKey | HeadTooLarge

definition DEFAULT_MAX_HEAD :: nat where "DEFAULT_MAX_HEAD = 16 * 1024"

definition MAX_HEADERS :: nat where "MAX_HEADERS = 128"

datatype http_method = Get | Options | Head | Other str

type_synonym field = "str \<times> str"

record request =
  r_method :: http_method
  r_path :: str
  r_key :: bytes
  r_protocols :: "str list"
  r_headers :: "field list"

datatype parsed = Upgrade request | Plain request

fun parsed_request :: "parsed \<Rightarrow> request" where
  "parsed_request (Upgrade request) = request"
| "parsed_request (Plain request) = request"

fun parsed_into_request :: "parsed \<Rightarrow> request" where
  "parsed_into_request (Upgrade request) = request"
| "parsed_into_request (Plain request) = request"

text \<open>\<open>input.windows(n).position(|window| window == w)\<close>.\<close>

primrec find_at :: "bytes \<Rightarrow> bytes \<Rightarrow> nat option" where
  "find_at w [] = None"
| "find_at w (x # xs) = (if take (length w) (x # xs) = w then Some 0 else map_option Suc (find_at w xs))"

definition head_end :: "bytes \<Rightarrow> nat option" where
  "head_end input =
     (case map_option (\<lambda>at. at + 4) (find_at [13, 10, 13, 10] input) of
        Some end \<Rightarrow> Some end
      | None \<Rightarrow> map_option (\<lambda>at. at + 2) (find_at [10, 10] input))"

definition parse_method :: "str \<Rightarrow> http_method" where
  "parse_method method =
     (if eq_ignore_ascii_case method (ascii ''GET'') then Get
      else if eq_ignore_ascii_case method (ascii ''OPTIONS'') then Options
      else if eq_ignore_ascii_case method (ascii ''HEAD'') then Head
      else Other method)"

text \<open>The local variables of the loop over the header lines.\<close>

record scan =
  s_upgrade_seen :: bool
  s_connection_seen :: bool
  s_version_ok :: bool
  s_key :: "bytes option"
  s_protocols :: "str list"
  s_headers :: "field list"

definition scan_new :: scan where
  "scan_new = \<lparr>s_upgrade_seen = False, s_connection_seen = False, s_version_ok = False, s_key = None,
               s_protocols = [], s_headers = []\<rparr>"

definition has_upgrade_token :: "str \<Rightarrow> bool" where
  "has_upgrade_token value \<longleftrightarrow>
     list_ex (\<lambda>token. eq_ignore_ascii_case (trim token) (ascii ''upgrade'')) (split_char 44 value)"

definition offered_tokens :: "str \<Rightarrow> str list" where
  "offered_tokens value = filter (\<lambda>token. token \<noteq> []) (map trim (split_char 44 value))"

definition interpret_field :: "scan \<Rightarrow> str \<Rightarrow> str \<Rightarrow> scan" where
  "interpret_field s name value =
     (if eq_ignore_ascii_case name (ascii ''upgrade'') then
        s\<lparr>s_upgrade_seen := eq_ignore_ascii_case value (ascii ''websocket'')\<rparr>
      else if eq_ignore_ascii_case name (ascii ''connection'') then
        s\<lparr>s_connection_seen := has_upgrade_token value\<rparr>
      else if eq_ignore_ascii_case name (ascii ''sec-websocket-version'') then
        s\<lparr>s_version_ok := value = ascii ''13''\<rparr>
      else if eq_ignore_ascii_case name (ascii ''sec-websocket-key'') then s\<lparr>s_key := Some value\<rparr>
      else if eq_ignore_ascii_case name (ascii ''sec-websocket-protocol'') then
        s\<lparr>s_protocols := s_protocols s @ offered_tokens value\<rparr>
      else s)"

definition scan_line :: "scan \<Rightarrow> str \<Rightarrow> upgrade_error + scan" where
  "scan_line s line =
     (if line = [] then Inr s
      else
        case split_once 58 line of
          None \<Rightarrow> Inl Malformed
        | Some (name, value) \<Rightarrow>
            let value = trim value;
                s' = interpret_field s name value
            in if length (s_headers s') = MAX_HEADERS then Inl HeadTooLarge
               else Inr (s'\<lparr>s_headers := s_headers s' @ [(name, value)]\<rparr>))"

fun scan_lines :: "scan \<Rightarrow> str list \<Rightarrow> upgrade_error + scan" where
  "scan_lines s [] = Inr s"
| "scan_lines s (line # lines) =
     (case scan_line s line of Inl e \<Rightarrow> Inl e | Inr s' \<Rightarrow> scan_lines s' lines)"

text \<open>The end of \<open>parse_request\<close>, once every line has been read.\<close>

definition conclude_request :: "http_method \<Rightarrow> str \<Rightarrow> scan \<Rightarrow> upgrade_error + parsed" where
  "conclude_request method path s =
     (let request = \<lparr>r_method = method, r_path = path, r_key = [], r_protocols = s_protocols s,
                     r_headers = s_headers s\<rparr>
      in if r_method request \<noteq> Get \<or> \<not> s_upgrade_seen s \<or> \<not> s_connection_seen s then Inr (Plain request)
         else if \<not> s_version_ok s then Inl WrongVersion
         else
           case s_key s of
             None \<Rightarrow> Inl BadKey
           | Some k \<Rightarrow>
               if \<not> is_valid_key k then Inl BadKey else Inr (Upgrade (request\<lparr>r_key := k\<rparr>)))"

definition parse_request :: "bytes \<Rightarrow> nat \<Rightarrow> upgrade_error + parsed" where
  "parse_request input max_head =
     (if length input > max_head then Inl HeadTooLarge
      else if \<not> utf8_valid input then Inl Malformed
      else
        case map trim_end_cr (split_char 10 input) of
          [] \<Rightarrow> Inl Malformed
        | start # lines \<Rightarrow>
            (case split_char 32 start of
               method # path # _ \<Rightarrow>
                 (case scan_lines scan_new lines of
                    Inl e \<Rightarrow> Inl e
                  | Inr s \<Rightarrow> conclude_request (parse_method method) path s)
             | _ \<Rightarrow> Inl Malformed))"

definition crlf :: str where "crlf = [13, 10]"

text \<open>The loop that appends \<open>extra\<close>.\<close>

primrec push_extra :: "field list \<Rightarrow> str" where
  "push_extra [] = []"
| "push_extra (nv # extra) = fst nv @ ascii '': '' @ snd nv @ crlf @ push_extra extra"

definition build_response :: "bytes \<Rightarrow> str option \<Rightarrow> field list \<Rightarrow> bytes" where
  "build_response key protocol extra =
     (let accept = accept_for key
      in ascii ''HTTP/1.1 101 Switching Protocols'' @ crlf
           @ ascii ''Upgrade: websocket'' @ crlf
           @ ascii ''Connection: Upgrade'' @ crlf
           @ ascii ''Sec-WebSocket-Accept: '' @ accept @ crlf
           @ (case protocol of None \<Rightarrow> [] | Some p \<Rightarrow> ascii ''Sec-WebSocket-Protocol: '' @ p @ crlf)
           @ push_extra extra
           @ crlf)"

definition rejection_status :: "upgrade_error \<Rightarrow> str \<times> str" where
  "rejection_status error =
     (case error of
        WrongVersion \<Rightarrow> (ascii ''426 Upgrade Required'', ascii ''Sec-WebSocket-Version: 13'' @ crlf)
      | HeadTooLarge \<Rightarrow> (ascii ''431 Request Header Fields Too Large'', [])
      | _ \<Rightarrow> (ascii ''400 Bad Request'', []))"

definition build_rejection :: "upgrade_error \<Rightarrow> field list \<Rightarrow> bytes" where
  "build_rejection error extra =
     (let (status, reason) = rejection_status error
      in ascii ''HTTP/1.1 '' @ status @ crlf @ reason
           @ ascii ''Connection: close'' @ crlf
           @ ascii ''Content-Length: 0'' @ crlf
           @ push_extra extra
           @ crlf)"

text \<open>\<open>protocols.join(", ")\<close>.\<close>

primrec join_comma :: "str list \<Rightarrow> str" where
  "join_comma [] = []"
| "join_comma (p # ps) = (if ps = [] then p else p @ ascii '', '' @ join_comma ps)"

definition build_request :: "str \<Rightarrow> str \<Rightarrow> str \<Rightarrow> str list \<Rightarrow> field list \<Rightarrow> bytes" where
  "build_request path host key protocols extra =
     ascii ''GET '' @ path @ ascii '' HTTP/1.1'' @ crlf
       @ ascii ''Host: '' @ host @ crlf
       @ ascii ''Upgrade: websocket'' @ crlf
       @ ascii ''Connection: Upgrade'' @ crlf
       @ ascii ''Sec-WebSocket-Key: '' @ key @ crlf
       @ ascii ''Sec-WebSocket-Version: 13'' @ crlf
       @ (if protocols \<noteq> [] then ascii ''Sec-WebSocket-Protocol: '' @ join_comma protocols @ crlf else [])
       @ push_extra extra
       @ crlf"

text \<open>The loop of \<open>check_response\<close>: whether the accept value matched, and the protocol.\<close>

definition response_line :: "str \<Rightarrow> bool \<times> str option \<Rightarrow> str \<Rightarrow> bool \<times> str option" where
  "response_line expected s line =
     (if line = [] then s
      else
        case split_once 58 line of
          None \<Rightarrow> s
        | Some (name, value) \<Rightarrow>
            let value = trim value
            in if eq_ignore_ascii_case name (ascii ''sec-websocket-accept'') then (value = expected, snd s)
               else if eq_ignore_ascii_case name (ascii ''sec-websocket-protocol'') then (fst s, Some value)
               else s)"

definition check_response :: "bytes \<Rightarrow> str \<Rightarrow> upgrade_error + str option" where
  "check_response input key =
     (if \<not> utf8_valid input then Inl Malformed
      else
        case map trim_end_cr (split_char 10 input) of
          [] \<Rightarrow> Inl Malformed
        | status # lines \<Rightarrow>
            if \<not> contains_str (ascii ''101'') status then Inl NotAnUpgrade
            else
              let expected = accept_for key;
                  (accept_ok, protocol) = foldl (response_line expected) (False, None) lines
              in if \<not> accept_ok then Inl BadKey else Inr protocol)"

section \<open>Field names\<close>

lemma ascii_lower_map:
  "map ascii_lower (ascii ''upgrade'') = ascii ''upgrade''"
  "map ascii_lower (ascii ''connection'') = ascii ''connection''"
  "map ascii_lower (ascii ''sec-websocket-version'') = ascii ''sec-websocket-version''"
  "map ascii_lower (ascii ''sec-websocket-key'') = ascii ''sec-websocket-key''"
  "map ascii_lower (ascii ''sec-websocket-protocol'') = ascii ''sec-websocket-protocol''"
  "map ascii_lower (ascii ''sec-websocket-accept'') = ascii ''sec-websocket-accept''"
  by (simp_all add: ascii_def ascii_lower_def)

lemma eq_lower: "map ascii_lower c = c \<Longrightarrow> eq_ignore_ascii_case n c \<longleftrightarrow> map ascii_lower n = c"
  by (simp add: eq_ignore_ascii_case_def)

lemmas name_lower = ascii_lower_map [THEN eq_lower]

lemma ascii_eq_iff: "ascii s = ascii t \<longleftrightarrow> s = t"
proof -
  have "inj (of_char :: char \<Rightarrow> u8)"
  proof
    fix c d
    assume "(of_char c :: u8) = of_char d"
    then have "unat (of_nat (of_char c) :: u8) = unat (of_nat (of_char d) :: u8)"
      by (simp only: of_nat_of_char)
    then show "c = d"
      by (simp add: unat_of_nat del: of_nat_of_char)
  qed
  then show ?thesis
    by (simp add: ascii_def inj_map_eq_map)
qed

section \<open>What a head says\<close>

text \<open>
  The specification of the parser works on the fields of the head, without the scan's variables: which
  lines are fields, the last field of a name, and all fields of a name.
\<close>

primrec fields_of :: "nat \<Rightarrow> str list \<Rightarrow> upgrade_error + field list" where
  "fields_of room [] = Inr []"
| "fields_of room (line # lines) =
     (if line = [] then fields_of room lines
      else
        case split_once 58 line of
          None \<Rightarrow> Inl Malformed
        | Some (name, value) \<Rightarrow>
            if room = 0 then Inl HeadTooLarge
            else map_sum id (Cons (name, trim value)) (fields_of (room - 1) lines))"

definition all_fields :: "str \<Rightarrow> field list \<Rightarrow> str list" where
  "all_fields n fs = map snd (filter (\<lambda>f. eq_ignore_ascii_case (fst f) n) fs)"

definition last_field :: "str \<Rightarrow> field list \<Rightarrow> str option" where
  "last_field n fs = (if all_fields n fs = [] then None else Some (last (all_fields n fs)))"

definition asks_upgrade :: "http_method \<Rightarrow> field list \<Rightarrow> bool" where
  "asks_upgrade m fs \<longleftrightarrow>
     m = Get
       \<and> (case last_field (ascii ''upgrade'') fs of
            Some v \<Rightarrow> eq_ignore_ascii_case v (ascii ''websocket'') | None \<Rightarrow> False)
       \<and> (case last_field (ascii ''connection'') fs of
            Some v \<Rightarrow> (\<exists>t\<in>set (split_char 44 v). eq_ignore_ascii_case (trim t) (ascii ''upgrade''))
          | None \<Rightarrow> False)"

definition judge :: "http_method \<Rightarrow> str \<Rightarrow> field list \<Rightarrow> upgrade_error + parsed" where
  "judge m path fs =
     (let request = \<lparr>r_method = m, r_path = path, r_key = [],
                     r_protocols = concat (map offered_tokens (all_fields (ascii ''sec-websocket-protocol'') fs)),
                     r_headers = fs\<rparr>
      in if \<not> asks_upgrade m fs then Inr (Plain request)
         else if last_field (ascii ''sec-websocket-version'') fs \<noteq> Some (ascii ''13'') then Inl WrongVersion
         else
           case last_field (ascii ''sec-websocket-key'') fs of
             Some k \<Rightarrow> if is_valid_key k then Inr (Upgrade (request\<lparr>r_key := k\<rparr>)) else Inl BadKey
           | None \<Rightarrow> Inl BadKey)"

definition request_spec :: "bytes \<Rightarrow> nat \<Rightarrow> upgrade_error + parsed" where
  "request_spec input max_head =
     (if length input > max_head then Inl HeadTooLarge
      else if \<not> utf8_valid input then Inl Malformed
      else
        let lines = map trim_end_cr (split_char 10 input);
            words = split_char 32 (hd lines)
        in if length words < 2 then Inl Malformed
           else
             case fields_of MAX_HEADERS (tl lines) of
               Inl e \<Rightarrow> Inl e
             | Inr fs \<Rightarrow> judge (parse_method (words ! 0)) (words ! 1) fs)"

text \<open>The scan's variables as functions of the fields it has retained.\<close>

definition scan_of :: "field list \<Rightarrow> scan" where
  "scan_of fs =
     \<lparr>s_upgrade_seen =
        (case last_field (ascii ''upgrade'') fs of
           Some v \<Rightarrow> eq_ignore_ascii_case v (ascii ''websocket'') | None \<Rightarrow> False),
      s_connection_seen =
        (case last_field (ascii ''connection'') fs of Some v \<Rightarrow> has_upgrade_token v | None \<Rightarrow> False),
      s_version_ok = (last_field (ascii ''sec-websocket-version'') fs = Some (ascii ''13'')),
      s_key = last_field (ascii ''sec-websocket-key'') fs,
      s_protocols = concat (map offered_tokens (all_fields (ascii ''sec-websocket-protocol'') fs)),
      s_headers = fs\<rparr>"

lemma all_fields_snoc:
  "all_fields n (fs @ [f]) = all_fields n fs @ (if eq_ignore_ascii_case (fst f) n then [snd f] else [])"
  by (simp add: all_fields_def)

lemma last_field_snoc:
  "last_field n (fs @ [f]) = (if eq_ignore_ascii_case (fst f) n then Some (snd f) else last_field n fs)"
  by (simp add: last_field_def all_fields_snoc)

lemma scan_of_Nil: "scan_of [] = scan_new"
  by (simp add: scan_of_def scan_new_def last_field_def all_fields_def)

lemma interpret_field_scan_of:
  "(interpret_field (scan_of fs) name v)\<lparr>s_headers := fs @ [(name, v)]\<rparr> = scan_of (fs @ [(name, v)])"
  by (auto simp: interpret_field_def scan_of_def last_field_snoc all_fields_snoc name_lower ascii_eq_iff)

lemma s_headers_interpret_field [simp]: "s_headers (interpret_field s name v) = s_headers s"
  by (simp add: interpret_field_def)

lemma scan_lines_fields:
  "length fs \<le> MAX_HEADERS \<Longrightarrow>
     scan_lines (scan_of fs) lines =
       map_sum id (\<lambda>gs. scan_of (fs @ gs)) (fields_of (MAX_HEADERS - length fs) lines)"
proof (induction lines arbitrary: fs)
  case (Cons line lines)
  have headers: "s_headers (scan_of fs) = fs"
    by (simp add: scan_of_def)
  show ?case
  proof (cases "line = [] \<or> split_once 58 line = None")
    case True
    then show ?thesis
      using Cons by (auto simp: scan_line_def)
  next
    case False
    then obtain name v where split: "split_once 58 line = Some (name, v)" "line \<noteq> []"
      by auto
    show ?thesis
    proof (cases "length fs = MAX_HEADERS")
      case True
      then show ?thesis
        using split by (simp add: scan_line_def Let_def headers)
    next
      case room: False
      have "scan_line (scan_of fs) line = Inr (scan_of (fs @ [(name, trim v)]))"
        using split room interpret_field_scan_of [of fs name "trim v"]
        by (simp add: scan_line_def Let_def headers)
      then show ?thesis
        using Cons.IH [of "fs @ [(name, trim v)]"] Cons.prems room split
        by (simp add: sum.map_comp comp_def id_def)
    qed
  qed
qed simp

lemma conclude_scan_of: "conclude_request m path (scan_of fs) = judge m path fs"
  by (auto simp: conclude_request_def judge_def scan_of_def asks_upgrade_def has_upgrade_token_def
      list_ex_iff Let_def split: option.splits)

lemma split_char_words:
  "(case split_char 32 start of method # path # _ \<Rightarrow> f method path | _ \<Rightarrow> e)
     = (if length (split_char 32 start) < 2 then e else f (split_char 32 start ! 0) (split_char 32 start ! 1))"
  by (auto split: list.split)

lemma parse_request_is_spec: "parse_request input max_head = request_spec input max_head"
proof -
  have scan: "scan_lines scan_new lines = map_sum id scan_of (fields_of MAX_HEADERS lines)" for lines
    using scan_lines_fields [of "[]" lines] by (simp add: scan_of_Nil)
  have "map trim_end_cr (split_char 10 input) \<noteq> []"
    by simp
  then obtain start lines where "map trim_end_cr (split_char 10 input) = start # lines"
    by (meson list.exhaust)
  then show ?thesis
    unfolding parse_request_def request_spec_def
    by (simp only: list.case Let_def list.sel split_char_words scan)
      (auto simp: conclude_scan_of split: sum.split)
qed

text \<open>C10: \<open>parse_request\<close> is its specification: the answer depends only on the length and UTF-8 of the
  head, the first two words of its first line and the list of its fields. A head asks for a WebSocket
  when it is a GET whose last \<open>Upgrade\<close> field is \<open>websocket\<close> and whose last \<open>Connection\<close> field lists
  \<open>upgrade\<close>; then the last version field must be 13 and the last key field a valid key; every other
  well-formed head is a plain request, with all its fields and all offered protocols in order.\<close>

theorem parse_request_refines: "parse_request input max_head = request_spec input max_head"
  by (rule parse_request_is_spec)

section \<open>What a response says\<close>

definition lenient_fields :: "str list \<Rightarrow> field list" where
  "lenient_fields lines =
     concat (map (\<lambda>l. case split_once 58 l of None \<Rightarrow> [] | Some (n, v) \<Rightarrow> [(n, trim v)]) lines)"

definition response_spec :: "bytes \<Rightarrow> str \<Rightarrow> upgrade_error + str option" where
  "response_spec input key =
     (if \<not> utf8_valid input then Inl Malformed
      else
        let lines = map trim_end_cr (split_char 10 input);
            fs = lenient_fields (tl lines)
        in if \<not> (\<exists>a b. hd lines = a @ ascii ''101'' @ b) then Inl NotAnUpgrade
           else if last_field (ascii ''sec-websocket-accept'') fs \<noteq> Some (accept_for key) then Inl BadKey
           else Inr (last_field (ascii ''sec-websocket-protocol'') fs))"

lemma response_lines:
  "foldl (response_line expected) (False, None) lines =
     (last_field (ascii ''sec-websocket-accept'') (lenient_fields lines) = Some expected,
      last_field (ascii ''sec-websocket-protocol'') (lenient_fields lines))"
proof (induction lines rule: rev_induct)
  case Nil
  show ?case
    by (simp add: lenient_fields_def last_field_def all_fields_def)
next
  case (snoc l lines)
  have step: "lenient_fields (lines @ [l]) =
      lenient_fields lines @ (case split_once 58 l of None \<Rightarrow> [] | Some (n, v) \<Rightarrow> [(n, trim v)])"
    by (simp add: lenient_fields_def)
  show ?case
    using snoc
    by (cases "split_once 58 l")
      (auto simp: step response_line_def last_field_snoc name_lower ascii_eq_iff Let_def split: option.split)
qed

text \<open>\<open>check_response\<close> is its specification: a response is accepted exactly when it is UTF-8, its
  first line contains the digits 101 and its last accept field is the accept value of the key that
  was sent; the protocol is its last protocol field. Lines without a colon are ignored.\<close>

lemma check_response_is_spec: "check_response input key = response_spec input key"
proof -
  have "map trim_end_cr (split_char 10 input) \<noteq> []"
    by simp
  then obtain status lines where "map trim_end_cr (split_char 10 input) = status # lines"
    by (meson list.exhaust)
  then show ?thesis
    by (simp add: check_response_def response_spec_def response_lines contains_str_iff Let_def)
qed

section \<open>Heads made of lines\<close>

definition line_bytes :: "str list \<Rightarrow> bytes" where
  "line_bytes ls = concat (map (\<lambda>l. l @ [10]) ls)"

lemma line_bytes_simps [simp]:
  "line_bytes [] = []"
  "line_bytes (l # ls) = l @ 10 # line_bytes ls"
  "line_bytes (ls @ ms) = line_bytes ls @ line_bytes ms"
  by (simp_all add: line_bytes_def)

lemma split_line_bytes: "\<forall>l\<in>set ls. 10 \<notin> set l \<Longrightarrow> split_char 10 (line_bytes ls) = ls @ [[]]"
  by (induction ls) (auto simp: slice_simps)

lemma utf8_line_bytes: "\<forall>l\<in>set ls. utf8_valid l \<Longrightarrow> utf8_valid (line_bytes ls)"
  by (induction ls) (auto simp: utf8_valid_append utf8_valid.simps(2))

text \<open>A field that a line can carry, and lines of such fields.\<close>

definition ok_field :: "field \<Rightarrow> bool" where
  "ok_field f \<longleftrightarrow> 58 \<notin> set (fst f) \<and> 10 \<notin> set (fst f) \<and> utf8_valid (fst f) \<and> ok_value (snd f)"

abbreviation field_line :: "field \<Rightarrow> str" where
  "field_line f \<equiv> header_line (fst f) (snd f)"

lemma field_line_ok:
  assumes "ok_field f"
  shows "10 \<notin> set (field_line f)"
    and "utf8_valid (field_line f)"
    and "split_once 58 (trim_end_cr (field_line f)) = Some (fst f, 32 # snd f)"
    and "trim (32 # snd f) = snd f"
proof -
  show "split_once 58 (trim_end_cr (field_line f)) = Some (fst f, 32 # snd f)"
    using assms by (simp add: header_line_split ok_field_def)
qed (use assms in \<open>auto simp: ok_field_def ok_value_def header_line_def utf8_valid_append
  utf8_valid.simps(2) slice_simps\<close>)

lemma field_line_not_Nil:
  assumes "ok_field f"
  shows "trim_end_cr (field_line f) \<noteq> []"
  using field_line_ok(3) [OF assms] by auto

text \<open>The lines of a head after the first one, as the parsers see them.\<close>

definition tail_lines :: "field list \<Rightarrow> str list" where
  "tail_lines fs = map trim_end_cr (map field_line fs @ [[13], []])"

lemma trim_end_cr_blank [simp]: "trim_end_cr [13] = []" "trim_end_cr [] = []"
  by (simp_all add: trim_end_cr_def)

lemma fields_of_tail_lines:
  "list_all ok_field fs \<Longrightarrow> length fs \<le> room \<Longrightarrow> fields_of room (tail_lines fs) = Inr fs"
proof (induction fs arbitrary: room)
  case (Cons f fs)
  then show ?case
    using field_line_ok(3,4) [of f] field_line_not_Nil [of f]
    by (cases room) (auto simp: tail_lines_def)
qed (simp add: tail_lines_def)

lemma lenient_fields_tail_lines: "list_all ok_field fs \<Longrightarrow> lenient_fields (tail_lines fs) = fs"
proof (induction fs)
  case (Cons f fs)
  then show ?case
    using field_line_ok(3,4) [of f]
    by (auto simp: tail_lines_def lenient_fields_def)
qed (simp add: tail_lines_def lenient_fields_def)

definition head_bytes :: "str \<Rightarrow> field list \<Rightarrow> bytes" where
  "head_bytes start fs = line_bytes ((start @ [13]) # map field_line fs @ [[13]])"

lemma head_bytes_lines:
  assumes "10 \<notin> set start" and "list_all ok_field fs"
  shows "map trim_end_cr (split_char 10 (head_bytes start fs)) = trim_end_cr start # tail_lines fs"
proof -
  have "\<forall>l\<in>set ((start @ [13]) # map field_line fs @ [[13]]). 10 \<notin> set l"
    using assms field_line_ok(1) by (auto simp: list_all_iff)
  then show ?thesis
    by (simp only: head_bytes_def split_line_bytes) (simp add: tail_lines_def slice_simps)
qed

lemma utf8_head_bytes:
  assumes "utf8_valid start" and "list_all ok_field fs"
  shows "utf8_valid (head_bytes start fs)"
proof -
  have "utf8_valid (start @ [13])" "utf8_valid [13]"
    using assms by (simp_all add: utf8_valid_append utf8_valid.simps(2))
  then show ?thesis
    unfolding head_bytes_def using assms field_line_ok(2)
    by (intro utf8_line_bytes) (auto simp: list_all_iff)
qed

lemma push_extra_eq: "push_extra extra = line_bytes (map field_line extra)"
  by (induction extra) (simp_all add: header_line_def crlf_def ascii_def)

section \<open>Round trips\<close>

definition request_fields :: "str \<Rightarrow> str \<Rightarrow> str list \<Rightarrow> field list \<Rightarrow> field list" where
  "request_fields host key protos extra =
     [(ascii ''Host'', host), (ascii ''Upgrade'', ascii ''websocket''), (ascii ''Connection'', ascii ''Upgrade''),
      (ascii ''Sec-WebSocket-Key'', key), (ascii ''Sec-WebSocket-Version'', ascii ''13'')]
     @ (if protos \<noteq> [] then [(ascii ''Sec-WebSocket-Protocol'', join_comma protos)] else [])
     @ extra"

lemma build_request_eq:
  "build_request path host key protos extra =
     head_bytes (ascii ''GET '' @ path @ ascii '' HTTP/1.1'') (request_fields host key protos extra)"
  by (simp add: build_request_def head_bytes_def request_fields_def push_extra_eq header_line_def crlf_def)
    (simp add: ascii_def)

definition response_fields :: "str \<Rightarrow> str option \<Rightarrow> field list \<Rightarrow> field list" where
  "response_fields accept protocol extra =
     [(ascii ''Upgrade'', ascii ''websocket''), (ascii ''Connection'', ascii ''Upgrade''),
      (ascii ''Sec-WebSocket-Accept'', accept)]
     @ (case protocol of None \<Rightarrow> [] | Some p \<Rightarrow> [(ascii ''Sec-WebSocket-Protocol'', p)])
     @ extra"

lemma build_response_eq:
  "build_response key protocol extra =
     head_bytes (ascii ''HTTP/1.1 101 Switching Protocols'') (response_fields (accept_for key) protocol extra)"
  by (simp add: build_response_def head_bytes_def response_fields_def push_extra_eq header_line_def crlf_def
      split: option.split)
    (simp add: ascii_def)

text \<open>A token of a comma-separated list, and its list.\<close>

definition ok_token :: "str \<Rightarrow> bool" where
  "ok_token t \<longleftrightarrow> ok_value t \<and> t \<noteq> [] \<and> 44 \<notin> set t"

text \<open>White space never straddles the end of a non-empty piece of valid text, so joining pieces makes
  no white space at the ends that was not there.\<close>

lemma white_space_parts:
  "w \<in> set white_space \<Longrightarrow> 0 < n \<Longrightarrow> n < length w \<Longrightarrow> \<not> utf8_valid (take n w) \<and> \<not> utf8_valid (drop n w)"
proof -
  have parts: "\<forall>w\<in>set white_space. \<forall>n\<in>{1, 2}. n < length w \<longrightarrow> \<not> utf8_valid (take n w) \<and> \<not> utf8_valid (drop n w)"
    by (simp add: white_space_def utf8_valid.simps utf8_second3_def utf8_cont_def)
  moreover have "\<forall>w\<in>set white_space. length w \<le> 3"
    by (simp add: white_space_def)
  moreover assume w: "w \<in> set white_space" and n: "0 < n" "n < length w"
  ultimately have "n = 1 \<or> n = 2"
    by fastforce
  then show ?thesis
    using parts w n by blast
qed

lemma leading_space_append:
  assumes "utf8_valid p" "p \<noteq> []" "leading_space p = None"
  shows "leading_space (p @ s) = None"
proof -
  have "take (length w) (p @ s) \<noteq> w" if w: "w \<in> set white_space" for w
  proof
    assume eq: "take (length w) (p @ s) = w"
    show False
    proof (cases "length w \<le> length p")
      case True
      then show False
        using eq w assms(3) by (simp add: leading_space_def find_None_iff)
    next
      case False
      then have "p = take (length p) w"
        using eq by (metis append_eq_conv_conj append_take_drop_id nle_le take_all_iff take_append)
      then show False
        using white_space_parts [OF w, of "length p"] False assms(1,2) by auto
    qed
  qed
  then show ?thesis
    by (simp add: leading_space_def find_None_iff)
qed

lemma trailing_space_append:
  assumes "utf8_valid p" "p \<noteq> []" "trailing_space p = None"
  shows "trailing_space (s @ p) = None"
proof -
  have "take (length w) (rev (s @ p)) \<noteq> rev w" if w: "w \<in> set white_space" for w
  proof
    assume eq: "take (length w) (rev (s @ p)) = rev w"
    show False
    proof (cases "length w \<le> length p")
      case True
      then show False
        using eq w assms(3) by (simp add: trailing_space_def find_None_iff)
    next
      case False
      then have "rev w = rev p @ take (length w - length p) (rev s)"
        using eq by simp
      then have "w = rev (take (length w - length p) (rev s)) @ p"
        by (metis rev_append rev_rev_ident)
      then have "p = drop (length w - length p) w"
        using False by (metis append_eq_conv_conj diff_diff_cancel length_append length_rev nle_le add_diff_cancel_right')
      then show False
        using white_space_parts [OF w, of "length w - length p"] False assms(1,2)
        by (cases p) auto
    qed
  qed
  then show ?thesis
    by (simp add: trailing_space_def find_None_iff)
qed

lemma join_comma_ends:
  "list_all ok_token ps \<Longrightarrow> ps \<noteq> [] \<Longrightarrow>
     \<exists>s. join_comma ps = hd ps @ s \<and> (\<exists>r. join_comma ps = r @ last ps)"
proof (induction ps)
  case (Cons p ps)
  show ?case
  proof (cases "ps = []")
    case False
    then obtain r where "join_comma ps = r @ last ps"
      using Cons by auto
    then have "join_comma (p # ps) = (p @ ascii '', '' @ r) @ last (p # ps)"
      using False by simp
    then show ?thesis
      using False by auto
  qed auto
qed simp

lemma ok_value_join_comma:
  assumes "list_all ok_token ps"
  shows "ok_value (join_comma ps)"
proof (cases "ps = []")
  case False
  have "utf8_valid (join_comma ps) \<and> 10 \<notin> set (join_comma ps)"
    using assms
    by (induction ps) (auto simp: ok_token_def ok_value_def utf8_valid_append utf8_valid.simps(2) ascii_def)
  moreover obtain s r where "join_comma ps = hd ps @ s" "join_comma ps = r @ last ps"
    using join_comma_ends [OF assms False] by auto
  moreover have "ok_token (hd ps)" "ok_token (last ps)"
    using assms False by (auto simp: list_all_iff)
  ultimately show ?thesis
    using leading_space_append [of "hd ps" s] trailing_space_append [of "last ps" r]
    by (simp add: ok_value_def ok_token_def trimmed_def)
qed (simp add: ok_value_def)

lemma offered_tokens_join_comma:
  assumes "list_all ok_token ps"
  shows "offered_tokens (join_comma ps) = ps"
proof -
  have "map trim (split_char 44 (join_comma (p # ps))) = p # ps" if "list_all ok_token (p # ps)" for p ps
    using that
  proof (induction ps arbitrary: p)
    case Nil
    then show ?case
      by (simp add: slice_simps ok_token_def ok_value_def)
  next
    case (Cons q ps)
    have "join_comma (p # q # ps) = p @ 44 # 32 # join_comma (q # ps)"
      by (simp add: ascii_def)
    moreover have "map trim (split_char 44 (32 # x)) = map trim (split_char 44 x)" for x
      by (cases "split_char 44 x") (auto simp: Let_def slice_simps)
    ultimately show ?case
      using Cons.IH [of q] Cons.prems
      by (simp add: slice_simps ok_token_def ok_value_def del: join_comma.simps split_char.simps)
  qed
  then show ?thesis
    using assms by (cases ps) (auto simp: offered_tokens_def list_all_iff ok_token_def slice_simps)
qed

text \<open>The names the parsers interpret, and what a caller's extra fields must not be.\<close>

definition interpreted_names :: "str list" where
  "interpreted_names =
     [ascii ''upgrade'', ascii ''connection'', ascii ''sec-websocket-version'', ascii ''sec-websocket-key'',
      ascii ''sec-websocket-protocol'', ascii ''sec-websocket-accept'']"

definition ok_extra :: "field \<Rightarrow> bool" where
  "ok_extra f \<longleftrightarrow> ok_field f \<and> list_all (\<lambda>n. \<not> eq_ignore_ascii_case (fst f) n) interpreted_names"

lemma all_fields_extra:
  "list_all ok_extra extra \<Longrightarrow> n \<in> set interpreted_names \<Longrightarrow> all_fields n extra = []"
  by (auto simp: all_fields_def ok_extra_def list_all_iff filter_empty_conv)

lemma all_fields_append: "all_fields n (fs @ gs) = all_fields n fs @ all_fields n gs"
  by (simp add: all_fields_def)

lemma all_fields_simps:
  "all_fields n [] = []"
  "all_fields n (f # fs) = (if eq_ignore_ascii_case (fst f) n then [snd f] else []) @ all_fields n fs"
  by (simp_all add: all_fields_def)

lemma no_extra:
  assumes "list_all ok_extra extra"
  shows "all_fields (ascii ''upgrade'') extra = []"
    and "all_fields (ascii ''connection'') extra = []"
    and "all_fields (ascii ''sec-websocket-version'') extra = []"
    and "all_fields (ascii ''sec-websocket-key'') extra = []"
    and "all_fields (ascii ''sec-websocket-protocol'') extra = []"
    and "all_fields (ascii ''sec-websocket-accept'') extra = []"
  using assms by (simp_all add: all_fields_extra interpreted_names_def)

lemma lower_names:
  "map ascii_lower (ascii ''Host'') = ascii ''host''"
  "map ascii_lower (ascii ''Upgrade'') = ascii ''upgrade''"
  "map ascii_lower (ascii ''Connection'') = ascii ''connection''"
  "map ascii_lower (ascii ''Sec-WebSocket-Version'') = ascii ''sec-websocket-version''"
  "map ascii_lower (ascii ''Sec-WebSocket-Key'') = ascii ''sec-websocket-key''"
  "map ascii_lower (ascii ''Sec-WebSocket-Protocol'') = ascii ''sec-websocket-protocol''"
  "map ascii_lower (ascii ''Sec-WebSocket-Accept'') = ascii ''sec-websocket-accept''"
  by (simp_all add: ascii_def ascii_lower_def)

lemmas names_eval = name_lower lower_names ascii_eq_iff

lemma request_fields_lookup:
  assumes "list_all ok_extra extra"
  shows "all_fields (ascii ''upgrade'') (request_fields host key protos extra) = [ascii ''websocket'']"
    and "all_fields (ascii ''connection'') (request_fields host key protos extra) = [ascii ''Upgrade'']"
    and "all_fields (ascii ''sec-websocket-version'') (request_fields host key protos extra) = [ascii ''13'']"
    and "all_fields (ascii ''sec-websocket-key'') (request_fields host key protos extra) = [key]"
    and "all_fields (ascii ''sec-websocket-protocol'') (request_fields host key protos extra)
           = (if protos \<noteq> [] then [join_comma protos] else [])"
  by (simp_all add: request_fields_def all_fields_append all_fields_simps names_eval no_extra [OF assms])

lemma response_fields_lookup:
  assumes "list_all ok_extra extra"
  shows "all_fields (ascii ''sec-websocket-accept'') (response_fields accept protocol extra) = [accept]"
    and "all_fields (ascii ''sec-websocket-protocol'') (response_fields accept protocol extra)
           = (case protocol of None \<Rightarrow> [] | Some p \<Rightarrow> [p])"
  by (simp_all add: response_fields_def all_fields_append all_fields_simps names_eval no_extra [OF assms]
      split: option.split)

lemma ok_value_ascii:
  "s \<noteq> [] \<Longrightarrow> list_all (\<lambda>b. 0x21 \<le> b \<and> b < 0x80) s \<Longrightarrow> ok_value s"
  unfolding ok_value_def
  by (intro conjI trimmed_ascii ascii_utf8_valid) (auto simp: list_all_iff hd_in_set last_in_set)

lemma is_valid_key_ok_value:
  assumes "is_valid_key key"
  shows "ok_value key"
proof (rule ok_value_ascii)
  have "set key = set (take 22 key) \<union> set (drop 22 key)"
    by (metis append_take_drop_id set_append)
  then have "set key \<subseteq> insert 61 (set (take 22 key))"
    using assms by (simp add: is_valid_key_def)
  moreover have "0x21 \<le> b \<and> b < 0x80" if "b \<in> set (take 22 key)" for b
    using assms that
    by (auto simp: is_valid_key_def list_all_iff is_ascii_alphanumeric_def word_le_nat_alt word_less_nat_alt)
  ultimately show "list_all (\<lambda>b. 0x21 \<le> b \<and> b < 0x80) key"
    by (auto simp: list_all_iff)
  show "key \<noteq> []"
    using assms by (auto simp: is_valid_key_def)
qed

lemma ok_request_fields:
  assumes "ok_value host" "is_valid_key key" "list_all ok_token protos" "list_all ok_extra extra"
  shows "list_all ok_field (request_fields host key protos extra)"
proof -
  have "list_all ok_field extra"
    using assms(4) by (auto simp: list_all_iff ok_extra_def)
  moreover have "ok_field (ascii ''Upgrade'', ascii ''websocket'')" "ok_field (ascii ''Connection'', ascii ''Upgrade'')"
    "ok_field (ascii ''Sec-WebSocket-Version'', ascii ''13'')"
    by (simp_all add: ok_field_def ascii_def utf8_valid.simps(2) ok_value_ascii)
  moreover have "ok_field (ascii ''Host'', host)" "ok_field (ascii ''Sec-WebSocket-Key'', key)"
    "ok_field (ascii ''Sec-WebSocket-Protocol'', join_comma protos)"
    using assms is_valid_key_ok_value ok_value_join_comma
    by (simp_all add: ok_field_def ascii_def utf8_valid.simps(2))
  ultimately show ?thesis
    by (simp add: request_fields_def)
qed

lemma ok_response_fields:
  assumes "case protocol of None \<Rightarrow> True | Some p \<Rightarrow> ok_value p" "list_all ok_extra extra"
  shows "list_all ok_field (response_fields (accept_for key) protocol extra)"
proof -
  have "list_all ok_field extra"
    using assms by (auto simp: list_all_iff ok_extra_def)
  moreover have "ok_field (ascii ''Upgrade'', ascii ''websocket'')" "ok_field (ascii ''Connection'', ascii ''Upgrade'')"
    by (simp_all add: ok_field_def ascii_def utf8_valid.simps(2) ok_value_ascii)
  moreover have "ok_field (ascii ''Sec-WebSocket-Accept'', accept_for key)"
    using accept_value.ok_value_of [of key] by (simp add: ok_field_def ascii_def utf8_valid.simps(2))
  moreover have "ok_field (ascii ''Sec-WebSocket-Protocol'', p)" if "ok_value p" for p
    using that by (simp add: ok_field_def ascii_def utf8_valid.simps(2))
  ultimately show ?thesis
    using assms by (cases protocol) (simp_all add: response_fields_def)
qed

section \<open>The end of a head\<close>

lemma find_at_bound: "find_at w s = Some i \<Longrightarrow> i + length w \<le> length s"
proof (induction s arbitrary: i)
  case (Cons x s)
  show ?case
  proof (cases "take (length w) (x # s) = w")
    case True
    then have "length w \<le> length (x # s)"
      by (metis nle_le take_all_iff)
    then show ?thesis
      using Cons.prems True by simp
  next
    case False
    then show ?thesis
      using Cons.prems Cons.IH by auto
  qed
qed simp

lemma find_at_append: "find_at w s = Some i \<Longrightarrow> find_at w (s @ t) = Some i"
proof (induction s arbitrary: i)
  case (Cons x s)
  have "length w \<le> length (x # s)"
    using find_at_bound [OF Cons.prems] by simp
  then have "take (length w) ((x # s) @ t) = take (length w) (x # s)"
    by (metis diff_is_0_eq' append.right_neutral take0 take_append)
  then show ?case
    using Cons by (auto split: if_splits)
qed simp

lemma find_at_prefix:
  "find_at w (s @ t) = None \<or> (\<exists>i. find_at w (s @ t) = Some i \<and> length s < i + length w) \<Longrightarrow> find_at w s = None"
  using find_at_append [of w s _ t] find_at_bound [of w s] by (cases "find_at w s") fastforce+

text \<open>Lines that end with a carriage return, none of them blank.\<close>

definition cr_lines :: "str list \<Rightarrow> bytes" where
  "cr_lines ms = line_bytes (map (\<lambda>m. m @ [13]) ms)"

lemma find_blank_step:
  "10 \<notin> set m \<Longrightarrow>
     find_at [13, 10, 13, 10] (m @ 13 # 10 # s) =
       (if take 2 s = [13, 10] then Some (length m)
        else map_option (\<lambda>i. i + length m + 2) (find_at [13, 10, 13, 10] s))"
proof (induction m)
  case Nil
  have "take (Suc (Suc 0)) s = take 2 s"
    by (simp add: numeral_2_eq_2)
  then show ?case
    by (simp add: option.map_comp comp_def)
next
  case (Cons x m)
  then have "take (Suc (Suc (Suc (Suc 0)))) (x # m @ 13 # 10 # s) \<noteq> [13, 10, 13, 10]"
    by (cases m) auto
  then show ?case
    using Cons by (auto simp: option.map_comp comp_def)
qed

lemma find_blank:
  assumes "ms \<noteq> []" "\<forall>m\<in>set ms. m \<noteq> [] \<and> 10 \<notin> set m"
  shows "find_at [13, 10, 13, 10] (cr_lines ms @ 13 # 10 # t) = Some (length (cr_lines ms) - 2)"
  using assms
proof (induction ms)
  case (Cons m ms)
  show ?case
  proof (cases ms)
    case Nil
    then show ?thesis
      using Cons.prems by (simp add: cr_lines_def find_blank_step)
  next
    case (Cons n ns)
    then have "n \<noteq> [] \<and> 10 \<notin> set n"
      using Cons.prems by simp
    then have "take 2 (cr_lines ms @ 13 # 10 # t) \<noteq> [13, 10]"
      using Cons by (cases n; cases "tl n") (auto simp: cr_lines_def)
    moreover have "cr_lines (m # ms) @ 13 # 10 # t = m @ 13 # 10 # (cr_lines ms @ 13 # 10 # t)"
      by (simp add: cr_lines_def)
    moreover have "2 \<le> length (cr_lines ms)"
      using Cons by (simp add: cr_lines_def)
    ultimately show ?thesis
      using Cons.IH Cons.prems Cons by (simp add: find_blank_step)
  qed
qed simp

lemma find_lf_step:
  "10 \<notin> set m \<Longrightarrow> find_at [10, 10] (m @ 13 # 10 # s) =
     map_option (\<lambda>i. i + length m + 1) (find_at [10, 10] (10 # s))"
  by (induction m) (simp_all add: option.map_comp comp_def)

lemma no_double_lf:
  assumes "\<forall>m\<in>set ms. 10 \<notin> set m"
  shows "find_at [10, 10] (cr_lines ms) = None \<and> find_at [10, 10] (10 # cr_lines ms) = None"
  using assms
proof (induction ms)
  case (Cons m ms)
  have lines: "cr_lines (m # ms) = m @ 13 # 10 # cr_lines ms"
    by (simp add: cr_lines_def)
  then have "find_at [10, 10] (cr_lines (m # ms)) = None"
    using Cons by (simp add: find_lf_step)
  moreover have "take 2 (10 # cr_lines (m # ms)) \<noteq> [10, 10]"
    using Cons.prems unfolding lines by (cases m) auto
  ultimately show ?case
    by simp
qed (simp add: cr_lines_def)

definition ok_start :: "str \<Rightarrow> bool" where
  "ok_start start \<longleftrightarrow> start \<noteq> [] \<and> 10 \<notin> set start"

text \<open>Of everything that starts with a head of lines, however much has arrived, the end of the head is
  found exactly when the whole head is there.\<close>

lemma head_end_prefix:
  assumes "ok_start start" "list_all ok_field fs" "p @ q = head_bytes start fs @ t"
  shows "head_end p = (if length p < length (head_bytes start fs) then None
                       else Some (length (head_bytes start fs)))"
proof -
  define ms where "ms = start # map (\<lambda>f. fst f @ [58, 32] @ snd f) fs"
  have ms: "ms \<noteq> []" "\<forall>m\<in>set ms. m \<noteq> [] \<and> 10 \<notin> set m"
    using assms(1,2) by (auto simp: ms_def ok_start_def ok_field_def ok_value_def list_all_iff)
  have "map (\<lambda>m. m @ [13]) ms = (start @ [13]) # map field_line fs"
    by (simp add: ms_def header_line_def)
  then have head: "head_bytes start fs = cr_lines ms @ [13, 10]"
    by (simp add: head_bytes_def cr_lines_def)
  have len: "2 \<le> length (cr_lines ms)"
    using ms(1) by (cases ms) (simp_all add: cr_lines_def)
  have found: "find_at [13, 10, 13, 10] (head_bytes start fs @ t) = Some (length (head_bytes start fs) - 4)"
    using find_blank [OF ms, of t] by (simp add: head)
  show ?thesis
  proof (cases "length p < length (head_bytes start fs)")
    case True
    have "find_at [13, 10, 13, 10] p = None"
      using found [folded assms(3)] True len by (intro find_at_prefix [of _ p q] disjI2) (auto simp: head)
    moreover have "find_at [10, 10] p = None"
    proof -
      have "\<exists>r. p @ r = cr_lines ms @ [13, 10]"
        using assms(3) True unfolding head by (metis append_eq_append_conv2 append_Nil2 length_append not_add_less1)
      then obtain r where r: "p @ r = cr_lines (ms @ [[]])"
        by (auto simp: cr_lines_def)
      have "\<forall>m\<in>set (ms @ [[]]). 10 \<notin> set m"
        using ms by auto
      then have "find_at [10, 10] (cr_lines (ms @ [[]])) = None"
        using no_double_lf by blast
      then show ?thesis
        unfolding r [symmetric] by (intro find_at_prefix [of _ p r]) simp
    qed
    ultimately show ?thesis
      using True by (simp add: head_end_def)
  next
    case False
    then have "take (length (head_bytes start fs)) p = head_bytes start fs"
      using arg_cong [OF assms(3), of "take (length (head_bytes start fs))"] by simp
    then obtain u where u: "p = head_bytes start fs @ u"
      by (metis append_take_drop_id)
    have "find_at [13, 10, 13, 10] (head_bytes start fs @ u) = Some (length (head_bytes start fs) - 4)"
      using find_blank [OF ms, of u] by (simp add: head)
    then show ?thesis
      using False len by (simp add: head_end_def u head)
  qed
qed

section \<open>Properties\<close>

definition ok_path :: "str \<Rightarrow> bool" where
  "ok_path path \<longleftrightarrow> 10 \<notin> set path \<and> 32 \<notin> set path \<and> utf8_valid path"

lemma request_line_words:
  assumes "ok_path path"
  shows "trim_end_cr (ascii ''GET '' @ path @ ascii '' HTTP/1.1'') = ascii ''GET '' @ path @ ascii '' HTTP/1.1''"
    and "split_char 32 (ascii ''GET '' @ path @ ascii '' HTTP/1.1'') = [ascii ''GET'', path, ascii ''HTTP/1.1'']"
    and "utf8_valid (ascii ''GET '' @ path @ ascii '' HTTP/1.1'')"
    and "10 \<notin> set (ascii ''GET '' @ path @ ascii '' HTTP/1.1'')"
proof -
  have lit: "ascii ''GET '' = ascii ''GET'' @ [32]" "ascii '' HTTP/1.1'' = 32 # ascii ''HTTP/1.1''"
    "32 \<notin> set (ascii ''GET'')" "32 \<notin> set (ascii ''HTTP/1.1'')"
    by (simp_all add: ascii_def)
  show "split_char 32 (ascii ''GET '' @ path @ ascii '' HTTP/1.1'') = [ascii ''GET'', path, ascii ''HTTP/1.1'']"
    using assms lit(3,4) by (simp add: lit(1,2) slice_simps ok_path_def)
  show "trim_end_cr (ascii ''GET '' @ path @ ascii '' HTTP/1.1'') = ascii ''GET '' @ path @ ascii '' HTTP/1.1''"
    by (rule trim_end_cr_id) (simp add: ascii_def)
qed (use assms in \<open>auto simp: ok_path_def utf8_valid_append ascii_def utf8_valid.simps(2)\<close>)

lemma built_request_parsed:
  assumes "ok_path path" "ok_value host" "is_valid_key key"
    and "list_all ok_token protos" "list_all ok_extra extra"
    and "length (request_fields host key protos extra) \<le> MAX_HEADERS"
    and "length (build_request path host key protos extra) \<le> max_head"
  shows "parse_request (build_request path host key protos extra) max_head =
           Inr (Upgrade \<lparr>r_method = Get, r_path = path, r_key = key, r_protocols = protos,
                         r_headers = request_fields host key protos extra\<rparr>)"
proof -
  let ?start = "ascii ''GET '' @ path @ ascii '' HTTP/1.1''"
  let ?fs = "request_fields host key protos extra"
  note line = request_line_words [OF assms(1)]
  note ok = ok_request_fields [OF assms(2-5)]
  have "judge Get path ?fs = Inr (Upgrade \<lparr>r_method = Get, r_path = path, r_key = key, r_protocols = protos,
                                          r_headers = ?fs\<rparr>)"
  proof -
    have "eq_ignore_ascii_case (ascii ''websocket'') (ascii ''websocket'')"
      "split_char 44 (ascii ''Upgrade'') = [ascii ''Upgrade'']" "trim (ascii ''Upgrade'') = ascii ''Upgrade''"
      "eq_ignore_ascii_case (ascii ''Upgrade'') (ascii ''upgrade'')"
      by (simp_all add: names_eval) (simp_all add: ascii_def trim_trimmed trimmed_ascii)
    then have "asks_upgrade Get ?fs"
      using request_fields_lookup [OF assms(5)] by (simp add: asks_upgrade_def last_field_def)
    then show ?thesis
      using request_fields_lookup [OF assms(5)] assms(3) offered_tokens_join_comma [OF assms(4)]
      by (simp add: judge_def last_field_def)
  qed
  moreover have "parse_method (ascii ''GET'') = Get"
    by (simp add: parse_method_def)
  ultimately show ?thesis
    using assms(6,7) utf8_head_bytes [OF line(3) ok] head_bytes_lines [OF line(4) ok]
      fields_of_tail_lines [OF ok assms(6)]
    unfolding parse_request_is_spec request_spec_def build_request_eq
    by (simp add: line(1,2) Let_def del: ascii_def)
qed

lemma built_response_checked:
  assumes "case protocol of None \<Rightarrow> True | Some p \<Rightarrow> ok_value p" "list_all ok_extra extra"
  shows "check_response (build_response key protocol extra) sent =
           (if accept_for sent = accept_for key then Inr protocol else Inl BadKey)"
proof -
  let ?start = "ascii ''HTTP/1.1 101 Switching Protocols''"
  let ?fs = "response_fields (accept_for key) protocol extra"
  note ok = ok_response_fields [OF assms, of key]
  have line: "trim_end_cr ?start = ?start" "utf8_valid ?start" "10 \<notin> set ?start"
    by (rule trim_end_cr_id) (simp_all add: ascii_def utf8_valid.simps(2))
  have "?start = ascii ''HTTP/1.1 '' @ ascii ''101'' @ ascii '' Switching Protocols''"
    by (simp add: ascii_def)
  then have "\<exists>a b. ?start = a @ ascii ''101'' @ b"
    by blast
  then show ?thesis
    using utf8_head_bytes [OF line(2) ok] head_bytes_lines [OF line(3) ok]
      response_fields_lookup [OF assms(2)]
    unfolding check_response_is_spec response_spec_def build_response_eq
    by (auto simp: line(1) Let_def lenient_fields_tail_lines [OF ok] last_field_def split: option.split)
qed

lemma built_response_accepted:
  assumes "case protocol of None \<Rightarrow> True | Some p \<Rightarrow> ok_value p" "list_all ok_extra extra"
  shows "check_response (build_response key protocol extra) key = Inr protocol"
  using built_response_checked [OF assms] by simp

text \<open>C31: The server reads the request the client built as an upgrade with the same path, key,
  subprotocols and fields, in order, for every path without a blank, every valid key, all subprotocol
  tokens and extra fields that a header line can carry, within the limits on bytes and fields.\<close>

theorem request_roundtrip:
  assumes "ok_path path" "ok_value host" "is_valid_key key"
    and "list_all ok_token protos" "list_all ok_extra extra"
    and "length (request_fields host key protos extra) \<le> MAX_HEADERS"
    and "length (build_request path host key protos extra) \<le> max_head"
  shows "parse_request (build_request path host key protos extra) max_head =
           Inr (Upgrade \<lparr>r_method = Get, r_path = path, r_key = key, r_protocols = protos,
                         r_headers = request_fields host key protos extra\<rparr>)"
  using built_request_parsed [OF assms] .

text \<open>C32: The client accepts the response the server built for its key, with the subprotocol the
  server named and whatever extra fields it added; a response built for a key with another accept value
  is refused.\<close>

theorem response_roundtrip:
  assumes "case protocol of None \<Rightarrow> True | Some p \<Rightarrow> ok_value p" "list_all ok_extra extra"
  shows "check_response (build_response key protocol extra) sent =
           (if accept_for sent = accept_for key then Inr protocol else Inl BadKey)"
  using built_response_checked [OF assms] .

theorem request_roundtrip_witness:
  "parse_request
     (build_request (ascii ''/chat'') (ascii ''example.com'') (new_key (replicate 16 7)) [ascii ''mcp''] [(ascii ''Origin'', ascii ''x'')])
     DEFAULT_MAX_HEAD =
   Inr (Upgrade \<lparr>r_method = Get, r_path = ascii ''/chat'', r_key = new_key (replicate 16 7),
                 r_protocols = [ascii ''mcp''],
                 r_headers = request_fields (ascii ''example.com'') (new_key (replicate 16 7)) [ascii ''mcp'']
                   [(ascii ''Origin'', ascii ''x'')]\<rparr>)"
proof (rule request_roundtrip)
  show "is_valid_key (new_key (replicate 16 7))"
    using new_key_is_valid [of "replicate 16 7"] by simp
qed (simp_all add: ok_path_def ok_token_def ok_extra_def ok_field_def ascii_def utf8_valid.simps(2) ok_value_ascii
  interpreted_names_def eq_ignore_ascii_case_def ascii_lower_def request_fields_def MAX_HEADERS_def
  DEFAULT_MAX_HEAD_def build_request_def crlf_def new_key_def base64_roundtrip)

theorem response_roundtrip_witness:
  "check_response (build_response (ascii ''abc'') (Some (ascii ''mcp'')) [(ascii ''Server'', ascii ''x'')]) (ascii ''abc'')
     = Inr (Some (ascii ''mcp''))"
proof -
  have "ok_value (ascii ''mcp'')" "list_all ok_extra [(ascii ''Server'', ascii ''x'')]"
    by (simp_all add: ok_extra_def ok_field_def ascii_def utf8_valid.simps(2) ok_value_ascii
      interpreted_names_def eq_ignore_ascii_case_def ascii_lower_def)
  then show ?thesis
    using response_roundtrip [of "Some (ascii ''mcp'')" "[(ascii ''Server'', ascii ''x'')]" "ascii ''abc''" "ascii ''abc''"]
    by simp
qed

lemma fields_of_ok:
  "fields_of room lines = Inr fs \<Longrightarrow>
     length fs \<le> room \<and> (\<forall>f\<in>set fs. trimmed (snd f) \<and> 58 \<notin> set (fst f))"
proof (induction lines arbitrary: room fs)
  case (Cons l ls)
  then show ?case
    by (cases "fields_of room ls"; cases "fields_of (room - 1) ls")
      (fastforce split: if_splits option.splits dest: split_once_SomeD)+
qed simp

lemma fields_of_error: "fields_of room lines = Inl e \<Longrightarrow> e = Malformed \<or> e = HeadTooLarge"
proof (induction lines arbitrary: room)
  case (Cons l ls)
  then show ?case
    by (cases "fields_of (room - 1) ls") (auto split: if_splits option.splits)
qed simp

lemma offered_tokens_ok:
  "t \<in> set (offered_tokens v) \<Longrightarrow> t \<noteq> [] \<and> trimmed t"
  by (auto simp: offered_tokens_def)

text \<open>C33: What \<open>parse_request\<close> returns is bounded and well formed, for every input: at most 128 fields out of
  at most \<open>max_head\<close> bytes of UTF-8, no colon in a name, values and offered protocols trimmed, no empty
  protocol. An upgrade is a GET that asked for one and carries a valid key; a plain request carries no
  key.\<close>

theorem parse_request_safe:
  assumes "parse_request input max_head = Inr p"
  shows "length input \<le> max_head \<and> utf8_valid input
    \<and> length (r_headers (parsed_request p)) \<le> 128
    \<and> (\<forall>f\<in>set (r_headers (parsed_request p)). trimmed (snd f) \<and> 58 \<notin> set (fst f))
    \<and> (\<forall>t\<in>set (r_protocols (parsed_request p)). t \<noteq> [] \<and> trimmed t)
    \<and> (case p of
         Upgrade r \<Rightarrow> r_method r = Get \<and> asks_upgrade Get (r_headers r) \<and> is_valid_key (r_key r)
       | Plain r \<Rightarrow> \<not> asks_upgrade (r_method r) (r_headers r) \<and> r_key r = [])"
proof -
  define lines where "lines = map trim_end_cr (split_char 10 input)"
  have len: "length input \<le> max_head" and utf8: "utf8_valid input"
    using assms by (auto simp: parse_request_is_spec request_spec_def split: if_splits)
  obtain m path fs where fs: "fields_of MAX_HEADERS (tl lines) = Inr fs" and judge: "judge m path fs = Inr p"
    using assms by (auto simp: parse_request_is_spec request_spec_def Let_def lines_def split: if_splits sum.splits)
  have "r_headers (parsed_request p) = fs
      \<and> set (r_protocols (parsed_request p)) \<subseteq> \<Union> (set ` offered_tokens ` UNIV)
      \<and> (case p of
         Upgrade r \<Rightarrow> r_method r = Get \<and> asks_upgrade Get (r_headers r) \<and> is_valid_key (r_key r)
       | Plain r \<Rightarrow> \<not> asks_upgrade (r_method r) (r_headers r) \<and> r_key r = [])"
    using judge
    by (auto simp: judge_def Let_def asks_upgrade_def split: if_splits option.splits)
  then show ?thesis
    using len utf8 fields_of_ok [OF fs] offered_tokens_ok by (fastforce simp: MAX_HEADERS_def)
qed

theorem parse_request_safe_witness:
  "case parse_request (ascii ''HEAD /x HTTP/1.1'' @ crlf @ ascii ''A: b'' @ crlf @ crlf) 100 of
     Inr p \<Rightarrow> p = Plain \<lparr>r_method = Head, r_path = ascii ''/x'', r_key = [], r_protocols = [],
                         r_headers = [(ascii ''A'', ascii ''b'')]\<rparr>
              \<and> r_key (parsed_request p) = []
   | Inl e \<Rightarrow> False"
proof -
  have ok: "list_all ok_field [(ascii ''A'', ascii ''b'')]"
    by (simp add: ok_field_def ascii_def utf8_valid.simps(2) ok_value_ascii)
  have head: "ascii ''HEAD /x HTTP/1.1'' @ crlf @ ascii ''A: b'' @ crlf @ crlf =
      head_bytes (ascii ''HEAD /x HTTP/1.1'') [(ascii ''A'', ascii ''b'')]"
    by (simp add: head_bytes_def header_line_def crlf_def ascii_def)
  have start: "10 \<notin> set (ascii ''HEAD /x HTTP/1.1'')" "utf8_valid (ascii ''HEAD /x HTTP/1.1'')"
    "trim_end_cr (ascii ''HEAD /x HTTP/1.1'') = ascii ''HEAD /x HTTP/1.1''"
    "split_char 32 (ascii ''HEAD /x HTTP/1.1'') = [ascii ''HEAD'', ascii ''/x'', ascii ''HTTP/1.1'']"
    by (simp_all add: ascii_def utf8_valid.simps(2) trim_end_cr_def Let_def)
  have parse: "parse_request (head_bytes (ascii ''HEAD /x HTTP/1.1'') [(ascii ''A'', ascii ''b'')]) 100 =
      judge Head (ascii ''/x'') [(ascii ''A'', ascii ''b'')]"
    using utf8_head_bytes [OF start(2) ok] head_bytes_lines [OF start(1) ok]
      fields_of_tail_lines [OF ok, of MAX_HEADERS]
    unfolding parse_request_is_spec request_spec_def
    by (simp add: start(3,4) Let_def MAX_HEADERS_def parse_method_def)
      (simp add: ascii_def eq_ignore_ascii_case_def ascii_lower_def head_bytes_def header_line_def)
  have "judge Head (ascii ''/x'') [(ascii ''A'', ascii ''b'')] =
      Inr (Plain \<lparr>r_method = Head, r_path = ascii ''/x'', r_key = [], r_protocols = [],
                  r_headers = [(ascii ''A'', ascii ''b'')]\<rparr>)"
    by (simp add: judge_def asks_upgrade_def all_fields_def eq_ignore_ascii_case_def ascii_def ascii_lower_def)
  then show ?thesis
    using parse_request_safe [of "head_bytes (ascii ''HEAD /x HTTP/1.1'') [(ascii ''A'', ascii ''b'')]" 100]
    unfolding head parse by simp
qed

text \<open>The error behaviour, for every input: the parser never raises the two errors the documentation
  says it no longer raises, it refuses a head as too large only for its length or for more than 128
  fields, and it raises a version or key error only for a head that asked for a WebSocket.\<close>

lemma parse_request_errors:
  "let fields = fields_of MAX_HEADERS (tl (map trim_end_cr (split_char 10 input))) in
   case parse_request input max_head of
     Inl NotGet \<Rightarrow> False
   | Inl NotAnUpgrade \<Rightarrow> False
   | Inl HeadTooLarge \<Rightarrow> length input > max_head \<or> fields = Inl HeadTooLarge
   | Inl Malformed \<Rightarrow> length input \<le> max_head
   | Inl WrongVersion \<Rightarrow> (\<exists>fs. fields = Inr fs \<and> asks_upgrade Get fs)
   | Inl BadKey \<Rightarrow> (\<exists>fs. fields = Inr fs \<and> asks_upgrade Get fs)
   | Inr p \<Rightarrow> (\<exists>fs. fields = Inr fs \<and> r_headers (parsed_request p) = fs)"
proof -
  have judge: "case judge m path fs of
      Inl e \<Rightarrow> (e = WrongVersion \<or> e = BadKey) \<and> asks_upgrade Get fs
    | Inr p \<Rightarrow> r_headers (parsed_request p) = fs" for m path fs
    by (auto simp: judge_def Let_def asks_upgrade_def split: option.split)
  show ?thesis
  proof (cases "fields_of MAX_HEADERS (tl (map trim_end_cr (split_char 10 input)))")
    case (Inl e)
    then show ?thesis
      using fields_of_error [OF Inl] unfolding parse_request_is_spec request_spec_def
      by (auto simp: Let_def)
  next
    case (Inr fs)
    then show ?thesis
      using judge [where fs = fs and m = "parse_method (split_char 32 (hd (map trim_end_cr (split_char 10 input))) ! 0)"
          and path = "split_char 32 (hd (map trim_end_cr (split_char 10 input))) ! 1"]
      unfolding parse_request_is_spec request_spec_def
      by (auto simp: Let_def split: sum.splits upgrade_error.splits)
  qed
qed

text \<open>However little or much of the client's request and the bytes after it has arrived, the end of
  the head is found exactly when the whole request is there, and it is the end of the request.\<close>

lemma request_head_end:
  assumes "ok_path path" "ok_value host" "is_valid_key key" "list_all ok_token protos" "list_all ok_extra extra"
    and "arrived @ pending = build_request path host key protos extra @ frames"
  shows "head_end arrived =
           (if length arrived < length (build_request path host key protos extra) then None
            else Some (length (build_request path host key protos extra)))"
proof -
  have "ok_start (ascii ''GET '' @ path @ ascii '' HTTP/1.1'')"
    using request_line_words(4) [OF assms(1)] by (simp add: ok_start_def ascii_def)
  then show ?thesis
    using head_end_prefix [OF _ ok_request_fields [OF assms(2-5)], where p = arrived and q = pending and t = frames] assms(6)
    unfolding build_request_eq by blast
qed

lemma response_head_end:
  assumes "case protocol of None \<Rightarrow> True | Some p \<Rightarrow> ok_value p" "list_all ok_extra extra"
    and "arrived @ pending = build_response key protocol extra @ frames"
  shows "head_end arrived =
           (if length arrived < length (build_response key protocol extra) then None
            else Some (length (build_response key protocol extra)))"
proof -
  have "ok_start (ascii ''HTTP/1.1 101 Switching Protocols'')"
    by (simp add: ok_start_def ascii_def)
  then show ?thesis
    using head_end_prefix [OF _ ok_response_fields [OF assms(1,2)], where p = arrived and q = pending and t = frames] assms(3)
    unfolding build_response_eq by blast
qed

text \<open>No refusal completes a handshake: whatever the error and whatever extra headers it carries, a
  client that gets one reports an error.\<close>

lemma rejection_refused:
  "\<exists>e. check_response (build_rejection error extra) key = Inl e"
proof -
  obtain status reason where status: "rejection_status error = (status, reason)"
    by fastforce
  have "10 \<notin> set (ascii ''HTTP/1.1 '' @ status)" "\<not> contains_str (ascii ''101'') (ascii ''HTTP/1.1 '' @ status)"
    "trim_end_cr (ascii ''HTTP/1.1 '' @ status) = ascii ''HTTP/1.1 '' @ status"
    using status by (auto simp: rejection_status_def ascii_def trim_end_cr_def split: upgrade_error.splits)
  moreover obtain rest where "build_rejection error extra = (ascii ''HTTP/1.1 '' @ status) @ [13] @ 10 # rest"
    by (simp add: build_rejection_def status crlf_def)
  then have "split_char 10 (build_rejection error extra) = ((ascii ''HTTP/1.1 '' @ status) @ [13]) # split_char 10 rest"
    using split_char_append [of 10 "(ascii ''HTTP/1.1 '' @ status) @ [13]" rest] calculation by simp
  ultimately show ?thesis
    by (simp add: check_response_def trim_end_cr_crlf del: append_assoc)
qed

section \<open>Behaviour worth knowing\<close>

text \<open>The status code of a response is not parsed: any first line that contains the digits 101 will do,
  here a refusal.\<close>

lemma status_not_parsed:
  "check_response
     (head_bytes (ascii ''HTTP/1.1 404 Not Found 101'') [(ascii ''Sec-WebSocket-Accept'', accept_for key)]) key
   = Inr None"
proof -
  let ?start = "ascii ''HTTP/1.1 404 Not Found 101''"
  let ?fs = "[(ascii ''Sec-WebSocket-Accept'', accept_for key)]"
  have ok: "list_all ok_field ?fs"
    using accept_value.ok_value_of [of key] by (simp add: ok_field_def ascii_def utf8_valid.simps(2))
  have line: "trim_end_cr ?start = ?start" "utf8_valid ?start" "10 \<notin> set ?start"
    by (rule trim_end_cr_id) (simp_all add: ascii_def utf8_valid.simps(2))
  have "?start = ascii ''HTTP/1.1 404 Not Found '' @ ascii ''101'' @ []"
    by (simp add: ascii_def)
  then have "\<exists>a b. ?start = a @ ascii ''101'' @ b"
    by blast
  then show ?thesis
    using utf8_head_bytes [OF line(2) ok] head_bytes_lines [OF line(3) ok]
    unfolding check_response_is_spec response_spec_def
    by (simp add: line(1) Let_def lenient_fields_tail_lines [OF ok] last_field_def all_fields_simps names_eval)
qed

text \<open>A head that ends with two bare line feeds is found at once when it is alone, but if the bytes after
  it contain a blank line with carriage returns, the head is taken to end there.\<close>

lemma bare_lf_head_end:
  "head_end (ascii ''GET / HTTP/1.1'' @ [10, 10]) = Some 16"
  "head_end (ascii ''GET / HTTP/1.1'' @ [10, 10] @ [1, 2] @ [13, 10, 13, 10]) = Some 22"
  by (simp_all add: head_end_def ascii_def)

end
