(* ===== verification/Conn.thy ===== *)
theory Conn
  imports Transport Frame Mask Message Handshake
begin

text \<open>
  A live connection (\<open>src/src/conn.rs\<close>): the read loop with its buffer, the parse loop, every write
  path, the masking keys, the closing rules and the errors with the codes they are reported under.
  The state is the struct's fields; every operation takes it and returns it. The stream's operations,
  the allocator, the byte order and the UTF-8 validator are the environment \<open>env\<close>.
\<close>

section \<open>Definitions\<close>

record 's env =
  v_endian :: endian
  v_utf8 :: utf8_impl
  v_alloc :: alloc
  v_stream :: "'s stream_ext"

datatype role = Client | Server

datatype conn_error =
    EIo errno
  | EFrame frame_error
  | EProtocol protocol_error
  | EMaskingViolation
  | EUnexpectedEof
  | EUpgrade upgrade_error
  | EUrl str

definition error_close_code :: "conn_error \<Rightarrow> close_code option" where
  "error_close_code err =
     (case err of
        EFrame e \<Rightarrow> (case e of FrameTooLarge \<Rightarrow> Some TOO_LARGE | _ \<Rightarrow> Some PROTOCOL)
      | EMaskingViolation \<Rightarrow> Some PROTOCOL
      | EProtocol e \<Rightarrow>
          (case e of InvalidUtf8 \<Rightarrow> Some INVALID_PAYLOAD | MessageTooLarge \<Rightarrow> Some TOO_LARGE | _ \<Rightarrow> Some PROTOCOL)
      | EIo _ \<Rightarrow> None
      | EUnexpectedEof \<Rightarrow> None
      | EUpgrade _ \<Rightarrow> None
      | EUrl _ \<Rightarrow> None)"

text \<open>\<open>From<Errno>\<close>, which the \<open>?\<close> operator applies.\<close>

definition error_from_errno :: "errno \<Rightarrow> conn_error" where
  "error_from_errno e = EIo e"

definition READ_CHUNK :: nat where "READ_CHUNK = 16 * 1024"

definition MAX_RETAINED_OUTGOING :: nat where "MAX_RETAINED_OUTGOING = 8 * 1024"

text \<open>A \<open>Vec<u8>\<close> kept across calls is its bytes; its spare capacity has no effect here.\<close>

record 's connection =
  c_stream :: 's
  c_role :: role
  c_assembler :: assembler
  c_read_buffer :: bytes_mut
  c_scratch :: bytes
  c_outgoing :: bytes
  c_mask_state :: u64
  c_close_sent :: bool

text \<open>The seed, from the clock and the address of a local, both given.\<close>

definition stream_seed :: "endian \<Rightarrow> u64 \<Rightarrow> u64 \<Rightarrow> bytes" where
  "stream_seed e nanos address = ne_bytes e 8 nanos @ ne_bytes e 8 address"

definition seed_from :: "endian \<Rightarrow> bytes \<Rightarrow> u64" where
  "seed_from e seed = ne_word e (take 8 seed) XOR ne_word e (drop 8 seed)"

definition with_buffered ::
    "'s env \<Rightarrow> bytes \<Rightarrow> 's \<Rightarrow> role \<Rightarrow> limits \<Rightarrow> bytes \<Rightarrow> 's connection" where
  "with_buffered v seed stream role limits buffered =
     (let read_buffer = bm_extend (v_alloc v) buffered (bm_with_capacity (v_alloc v) READ_CHUNK)
      in \<lparr>c_stream = stream, c_role = role, c_assembler = assembler_new limits, c_read_buffer = read_buffer,
          c_scratch = [], c_outgoing = [], c_mask_state = seed_from (v_endian v) seed, c_close_sent = False\<rparr>)"

definition connection_new :: "'s env \<Rightarrow> bytes \<Rightarrow> 's \<Rightarrow> role \<Rightarrow> limits \<Rightarrow> 's connection" where
  "connection_new v seed stream role limits = with_buffered v seed stream role limits []"

definition connection_role :: "'s connection \<Rightarrow> role" where
  "connection_role c = c_role c"

subsection \<open>Reading\<close>

text \<open>The check of RFC 6455 5.1, both directions.\<close>

definition masking_violation :: "role \<Rightarrow> mask_key option \<Rightarrow> bool" where
  "masking_violation role key \<longleftrightarrow>
     (case (role, key) of
        (Server, None) \<Rightarrow> True
      | (Client, Some _) \<Rightarrow> True
      | _ \<Rightarrow> False)"

text \<open>One turn of the parse loop: \<open>Inl\<close> says what to return, \<open>Inr ()\<close> to go on, \<open>None\<close> that the assembler
  panicked.\<close>

definition parse_step ::
    "'s env \<Rightarrow> 's connection \<Rightarrow> (((conn_error + message option) + unit) \<times> 's connection) option" where
  "parse_step v c =
     (let limits = assembler_limits (c_assembler c)
      in case header_decode (bm_data (c_read_buffer c)) (max_frame limits) of
           Inl e \<Rightarrow> Some (Inl (Inl (EFrame e)), c)
         | Inr (Inl _) \<Rightarrow> Some (Inl (Inr None), c)
         | Inr (Inr (header, header_len)) \<Rightarrow>
             let total = header_len + unat (h_payload_len header)
             in if length (bm_data (c_read_buffer c)) < total then
                  Some (Inl (Inr None),
                        c\<lparr>c_read_buffer :=
                            bm_reserve (v_alloc v) (total - length (bm_data (c_read_buffer c))) (c_read_buffer c)\<rparr>)
                else if masking_violation (c_role c) (h_mask header) then Some (Inl (Inl EMaskingViolation), c)
                else
                  let (frame, buffer) = bm_split_to total (c_read_buffer c);
                      payload = drop header_len frame;
                      payload' = (case h_mask header of
                                    None \<Rightarrow> payload
                                  | Some key \<Rightarrow> fst (mask_apply (v_endian v) payload key 0))
                  in case assembler_accept (v_utf8 v) (c_assembler c) (h_opcode header) (h_fin header) payload' of
                       None \<Rightarrow> None
                     | Some (r, a) \<Rightarrow>
                         let c' = c\<lparr>c_read_buffer := buffer, c_assembler := a\<rparr>
                         in Some (case r of
                                    Inr (Some message) \<Rightarrow> (Inl (Inr (Some message)), c')
                                  | Inr None \<Rightarrow> (Inr (), c')
                                  | Inl e \<Rightarrow> (Inl (Inl (EProtocol e)), c')))"

lemma parse_step_shrinks:
  assumes "parse_step v c = Some (Inr (), c')"
  shows "length (bm_data (c_read_buffer c')) < length (bm_data (c_read_buffer c))"
proof -
  obtain h n where "header_decode (bm_data (c_read_buffer c)) (max_frame (a_limits (c_assembler c))) = Inr (Inr (h, n))"
    and "n + unat (h_payload_len h) \<le> length (bm_data (c_read_buffer c))"
    and "bm_data (c_read_buffer c') = drop (n + unat (h_payload_len h)) (bm_data (c_read_buffer c))"
    using assms
    by (auto simp: parse_step_def Let_def bm_split_to_def split: sum.splits if_splits option.splits)
  moreover have "2 \<le> n"
    using header_decode_ok [OF calculation(1)] encoded_len_bounds(1) [of h] by simp
  ultimately show ?thesis
    by simp
qed

function parse_buffered ::
    "'s env \<Rightarrow> 's connection \<Rightarrow> ((conn_error + message option) \<times> 's connection) option" where
  "parse_buffered v c =
     (case parse_step v c of
        None \<Rightarrow> None
      | Some (Inl r, c') \<Rightarrow> Some (r, c')
      | Some (Inr _, c') \<Rightarrow> parse_buffered v c')"
  by pat_completeness auto
termination
  by (relation "measure (\<lambda>(v, c). length (bm_data (c_read_buffer c)))") (auto dest: parse_step_shrinks)

declare parse_buffered.simps [simp del]

text \<open>\<open>Connection::read\<close>. The value \<open>None\<close> is a read that never returns: a peer that keeps sending frames
  that deliver nothing, or a panic in the assembler.\<close>

partial_function (option) conn_read ::
    "'s env \<Rightarrow> 's connection \<Rightarrow> ((conn_error + message option) \<times> 's connection) option" where
  "conn_read v c =
     (case parse_buffered v c of
        None \<Rightarrow> None
      | Some (r, c1) \<Rightarrow>
          (case r of
             Inl e \<Rightarrow> Some (Inl e, c1)
           | Inr (Some message) \<Rightarrow> Some (Inr (Some message), c1)
           | Inr None \<Rightarrow>
               let buffer = (if bm_spare (c_read_buffer c1) < READ_CHUNK
                             then bm_reserve (v_alloc v) READ_CHUNK (c_read_buffer c1) else c_read_buffer c1);
                   (read, buffer', stream') = sx_read_buf (v_stream v) (c_stream c1) buffer;
                   c2 = c1\<lparr>c_read_buffer := buffer', c_stream := stream'\<rparr>
               in (case read of
                     Inl e \<Rightarrow> Some (Inl (error_from_errno e), c2)
                   | Inr k \<Rightarrow>
                       if k = 0 then
                         if assembler_is_closed (c_assembler c2) then Some (Inr None, c2)
                         else Some (Inl EUnexpectedEof, c2)
                       else conn_read v c2)))"

subsection \<open>Writing\<close>

definition next_mask :: "endian \<Rightarrow> u64 \<Rightarrow> mask_key \<times> u64" where
  "next_mask e mask_state =
     (let state = mask_state + 0x9E3779B97F4A7C15;
          z = state;
          z = (z XOR drop_bit 30 z) * 0xBF58476D1CE4E5B9;
          z = (z XOR drop_bit 27 z) * 0x94D049BB133111EB;
          z = z XOR drop_bit 31 z;
          out = ne_bytes e 4 (ucast z :: u32)
      in ((out ! 0, out ! 1, out ! 2, out ! 3), state))"

text \<open>The mask of the next frame: \<open>match self.role\<close>.\<close>

definition role_mask :: "'s env \<Rightarrow> 's connection \<Rightarrow> mask_key option \<times> 's connection" where
  "role_mask v c =
     (case c_role c of
        Client \<Rightarrow>
          let (key, state) = next_mask (v_endian v) (c_mask_state c)
          in (Some key, c\<lparr>c_mask_state := state\<rparr>)
      | Server \<Rightarrow> (None, c))"

text \<open>The header of a frame, encoded into an array of \<open>MAX_ENCODED_LEN\<close> bytes; \<open>None\<close> is the panic of
  \<open>expect\<close>.\<close>

definition frame_header :: "bool \<Rightarrow> opcode \<Rightarrow> mask_key option \<Rightarrow> bytes \<Rightarrow> bytes option" where
  "frame_header fin op key payload =
     (let header = \<lparr>h_fin = fin, h_opcode = op, h_mask = key, h_payload_len = of_nat (length payload)\<rparr>
      in map_option (\<lambda>(out, n). take n out) (header_encode header (replicate MAX_ENCODED_LEN 0)))"

definition write_frame ::
    "'s env \<Rightarrow> 's connection \<Rightarrow> opcode \<Rightarrow> bool \<Rightarrow> bytes \<Rightarrow> ((conn_error + unit) \<times> 's connection) option" where
  "write_frame v c op fin payload =
     (let (mask, c1) = role_mask v c
      in case frame_header fin op mask payload of
           None \<Rightarrow> None
         | Some header \<Rightarrow>
             Some (case mask of
                     None \<Rightarrow>
                       let (r, stream') = sx_write_all_vectored (v_stream v) (c_stream c1) header payload
                       in (map_sum error_from_errno id r, c1\<lparr>c_stream := stream'\<rparr>)
                   | Some key \<Rightarrow>
                       let scratch = fst (mask_apply (v_endian v) payload key 0);
                           (r, stream') = sx_write_all_vectored (v_stream v) (c_stream c1) header scratch
                       in (map_sum error_from_errno id r, c1\<lparr>c_stream := stream', c_scratch := scratch\<rparr>)))"

definition encode_close_body :: "close_frame option \<Rightarrow> bytes" where
  "encode_close_body frame =
     (case frame of
        None \<Rightarrow> []
      | Some f \<Rightarrow>
          let code = (if is_sendable (cf_code f) then cf_code f else INTERNAL_ERROR)
          in be_bytes 2 (close_number code) @ cf_reason f)"

text \<open>The \<open>match message\<close> of \<open>write\<close> and of \<open>encode_all\<close>: the opcode, the payload, and whether the message
  is a close.\<close>

definition message_frame :: "message \<Rightarrow> opcode \<times> bytes" where
  "message_frame m =
     (case m of
        MText payload \<Rightarrow> (Text, payload)
      | MBinary payload \<Rightarrow> (Binary, payload)
      | MPing payload \<Rightarrow> (Ping, payload)
      | MPong payload \<Rightarrow> (Pong, payload)
      | MClose frame \<Rightarrow> (Close, encode_close_body frame))"

definition is_close :: "message \<Rightarrow> bool" where
  "is_close m \<longleftrightarrow> (case m of MClose _ \<Rightarrow> True | _ \<Rightarrow> False)"

definition note_close :: "message \<Rightarrow> 's connection \<Rightarrow> 's connection" where
  "note_close m c = (if is_close m then c\<lparr>c_close_sent := True\<rparr> else c)"

definition conn_write :: "'s env \<Rightarrow> 's connection \<Rightarrow> message \<Rightarrow> ((conn_error + unit) \<times> 's connection) option" where
  "conn_write v c m =
     (let (op, payload) = message_frame m
      in write_frame v (note_close m c) op True payload)"

definition encode_frame ::
    "'s env \<Rightarrow> 's connection \<Rightarrow> bytes \<Rightarrow> opcode \<Rightarrow> bool \<Rightarrow> bytes \<Rightarrow> (bytes \<times> 's connection) option" where
  "encode_frame v c outgoing op fin payload =
     (let (mask, c1) = role_mask v c
      in case frame_header fin op mask payload of
           None \<Rightarrow> None
         | Some header \<Rightarrow>
             let outgoing1 = outgoing @ header;
                 from = length outgoing1;
                 outgoing2 = outgoing1 @ payload
             in Some (case mask of
                        None \<Rightarrow> (outgoing2, c1)
                      | Some key \<Rightarrow>
                          (take from outgoing2 @ fst (mask_apply (v_endian v) (drop from outgoing2) key 0), c1)))"

fun encode_all ::
    "'s env \<Rightarrow> 's connection \<Rightarrow> bytes \<Rightarrow> message list \<Rightarrow> (bytes \<times> 's connection) option" where
  "encode_all v c outgoing [] = Some (outgoing, c)"
| "encode_all v c outgoing (m # ms) =
     (let (op, payload) = message_frame m
      in case encode_frame v (note_close m c) outgoing op True payload of
           None \<Rightarrow> None
         | Some (outgoing', c') \<Rightarrow> encode_all v c' outgoing' ms)"

definition conn_write_all ::
    "'s env \<Rightarrow> 's connection \<Rightarrow> message list \<Rightarrow> ((conn_error + unit) \<times> 's connection) option" where
  "conn_write_all v c ms =
     (let outgoing0 = [];
          c0 = c\<lparr>c_outgoing := []\<rparr>
      in case encode_all v c0 outgoing0 ms of
           None \<Rightarrow> None
         | Some (outgoing, c1) \<Rightarrow>
             let (flushed, c2) =
                   (if outgoing = [] then (Inr (), c1)
                    else
                      let (r, stream') = sx_write_all (v_stream v) (c_stream c1) outgoing
                      in (map_sum EIo id r, c1\<lparr>c_stream := stream'\<rparr>));
                 kept = [] :: bytes
             in Some (flushed, c2\<lparr>c_outgoing := kept\<rparr>))"

definition conn_pong :: "'s env \<Rightarrow> 's connection \<Rightarrow> bytes \<Rightarrow> ((conn_error + unit) \<times> 's connection) option" where
  "conn_pong v c payload = write_frame v c Pong True payload"

definition conn_close ::
    "'s env \<Rightarrow> 's connection \<Rightarrow> close_frame option \<Rightarrow> ((conn_error + unit) \<times> 's connection) option" where
  "conn_close v c frame =
     (if c_close_sent c then Some (Inr (), c) else conn_write v c (MClose frame))"

end
