(* ===== verification/Conn_Read.thy ===== *)
theory Conn_Read
  imports Conn
begin

text \<open>
  The read side of a connection. The parse loop is refined to a function of the assembler and the bytes
  alone, which is monotone in the bytes; over a lossless transport \<open>read\<close> is then a function of all the
  bytes the peer sends, however they arrive.
\<close>

section \<open>Specification\<close>

type_synonym outcome = "(conn_error + message option) \<times> assembler \<times> bytes"

text \<open>The bytes of a frame's payload, unmasked.\<close>

definition unmasked :: "'s env \<Rightarrow> header \<Rightarrow> bytes \<Rightarrow> bytes" where
  "unmasked v h p = (case h_mask h of None \<Rightarrow> p | Some key \<Rightarrow> fst (mask_apply (v_endian v) p key 0))"

text \<open>The first complete frame of the data, if there is one and it is acceptable.\<close>

datatype cut = Bad conn_error | Short | Frame header bytes bytes

definition cut_frame :: "role \<Rightarrow> u64 \<Rightarrow> bytes \<Rightarrow> cut" where
  "cut_frame role limit data =
     (case header_decode data limit of
        Inl e \<Rightarrow> Bad (EFrame e)
      | Inr (Inl _) \<Rightarrow> Short
      | Inr (Inr (h, n)) \<Rightarrow>
          if length data < n + unat (h_payload_len h) then Short
          else if masking_violation role (h_mask h) then Bad EMaskingViolation
          else Frame h (take (unat (h_payload_len h)) (drop n data)) (drop (n + unat (h_payload_len h)) data))"

lemma cut_frame_shrinks: "cut_frame role limit data = Frame h p rest \<Longrightarrow> length rest < length data"
proof -
  assume "cut_frame role limit data = Frame h p rest"
  then obtain n where n: "header_decode data limit = Inr (Inr (h, n))" "n + unat (h_payload_len h) \<le> length data"
    "rest = drop (n + unat (h_payload_len h)) data"
    by (auto simp: cut_frame_def split: sum.splits if_splits)
  moreover have "2 \<le> n"
    using header_decode_ok(3) [OF n(1)] encoded_len_bounds(1) by simp
  ultimately show ?thesis
    by simp
qed

function consume :: "'s env \<Rightarrow> role \<Rightarrow> assembler \<Rightarrow> bytes \<Rightarrow> outcome option" where
  "consume v role a data =
     (case cut_frame role (max_frame (a_limits a)) data of
        Bad e \<Rightarrow> Some (Inl e, a, data)
      | Short \<Rightarrow> Some (Inr None, a, data)
      | Frame h p rest \<Rightarrow>
          (case assembler_accept (v_utf8 v) a (h_opcode h) (h_fin h) (unmasked v h p) of
             None \<Rightarrow> None
           | Some (Inl e, a') \<Rightarrow> Some (Inl (EProtocol e), a', rest)
           | Some (Inr (Some m), a') \<Rightarrow> Some (Inr (Some m), a', rest)
           | Some (Inr None, a') \<Rightarrow> consume v role a' rest))"
  by pat_completeness auto
termination
  by (relation "measure (\<lambda>(v, role, a, data). length data)") (auto dest: cut_frame_shrinks)

declare consume.simps [simp del]

text \<open>What \<open>read\<close> answers when the peer sends the given bytes and then ends its side.\<close>

definition read_spec :: "'s env \<Rightarrow> role \<Rightarrow> assembler \<Rightarrow> bytes \<Rightarrow> outcome option" where
  "read_spec v role a data =
     map_option (\<lambda>(r, a', rest).
        ((case r of Inr None \<Rightarrow> if a_closed a' then Inr None else Inl EUnexpectedEof | _ \<Rightarrow> r), a', rest))
       (consume v role a data)"

section \<open>The parse loop\<close>

abbreviation c_data :: "'s connection \<Rightarrow> bytes" where
  "c_data c \<equiv> bm_data (c_read_buffer c)"

text \<open>What parsing leaves alone.\<close>

definition same_rest :: "'s connection \<Rightarrow> 's connection \<Rightarrow> bool" where
  "same_rest c c' \<longleftrightarrow> c_stream c' = c_stream c \<and> c_role c' = c_role c \<and> c_scratch c' = c_scratch c
     \<and> c_outgoing c' = c_outgoing c \<and> c_mask_state c' = c_mask_state c \<and> c_close_sent c' = c_close_sent c"

lemma same_rest_trans: "same_rest a b \<Longrightarrow> same_rest b c \<Longrightarrow> same_rest a c"
  by (simp add: same_rest_def)

lemma parse_step_cut:
  "parse_step v c =
     (case cut_frame (c_role c) (max_frame (a_limits (c_assembler c))) (c_data c) of
        Bad e \<Rightarrow> Some (Inl (Inl e), c)
      | Short \<Rightarrow> map_option (\<lambda>(r, c'). (Inl (Inr None), c')) (parse_step v c)
      | Frame h p rest \<Rightarrow>
          map_option
            (\<lambda>(r, a). (case r of Inr (Some m) \<Rightarrow> Inl (Inr (Some m)) | Inr None \<Rightarrow> Inr () | Inl e \<Rightarrow> Inl (Inl (EProtocol e)),
                c\<lparr>c_read_buffer := snd (bm_split_to (length (c_data c) - length rest) (c_read_buffer c)),
                  c_assembler := a\<rparr>))
            (assembler_accept (v_utf8 v) (c_assembler c) (h_opcode h) (h_fin h) (unmasked v h p)))"
  by (auto simp: parse_step_def cut_frame_def Let_def bm_split_to_def unmasked_def drop_take
      split: sum.split option.split)

lemma parse_step_short:
  assumes "cut_frame (c_role c) (max_frame (a_limits (c_assembler c))) (c_data c) = Short"
  shows "\<exists>c'. parse_step v c = Some (Inl (Inr None), c') \<and> c_data c' = c_data c
           \<and> c_assembler c' = c_assembler c \<and> same_rest c c'"
  using assms by (auto simp: parse_step_def cut_frame_def Let_def same_rest_def split: sum.splits if_splits)

lemma parse_buffered_refines:
  "(case parse_buffered v c of
      None \<Rightarrow> consume v (c_role c) (c_assembler c) (c_data c) = None
    | Some (r, c') \<Rightarrow>
        consume v (c_role c) (c_assembler c) (c_data c) = Some (r, c_assembler c', c_data c') \<and> same_rest c c')"
proof (induction v c rule: parse_buffered.induct)
  case (1 v c)
  show ?case
  proof (cases "cut_frame (c_role c) (max_frame (a_limits (c_assembler c))) (c_data c)")
    case (Bad e)
    then show ?thesis
      by (simp add: parse_buffered.simps [of v c] parse_step_cut consume.simps [of v "c_role c"] same_rest_def)
  next
    case Short
    then show ?thesis
      using parse_step_short [OF Short, of v]
      by (auto simp: parse_buffered.simps [of v c] consume.simps [of v "c_role c"])
  next
    case (Frame h p rest)
    have data: "drop (length (c_data c) - length rest) (c_data c) = rest"
      using Frame by (auto simp: cut_frame_def split: sum.splits if_splits)
    show ?thesis
    proof (cases "assembler_accept (v_utf8 v) (c_assembler c) (h_opcode h) (h_fin h) (unmasked v h p)")
      case None
      then show ?thesis
        using Frame by (simp add: parse_buffered.simps [of v c] parse_step_cut consume.simps [of v "c_role c"])
    next
      case (Some ra)
      then obtain r a where ra: "assembler_accept (v_utf8 v) (c_assembler c) (h_opcode h) (h_fin h) (unmasked v h p)
          = Some (r, a)"
        by (cases ra) auto
      let ?c = "c\<lparr>c_read_buffer := snd (bm_split_to (length (c_data c) - length rest) (c_read_buffer c)),
                  c_assembler := a\<rparr>"
      have c': "c_data ?c = rest" "same_rest c ?c" "c_assembler ?c = a" "c_role ?c = c_role c"
        using data by (simp_all add: bm_split_to_def same_rest_def)
      show ?thesis
      proof (cases "r = Inr None")
        case True
        then have step: "parse_step v c = Some (Inr (), ?c)"
          using Frame ra by (subst parse_step_cut) simp
        have "consume v (c_role c) (c_assembler c) (c_data c) = consume v (c_role ?c) (c_assembler ?c) (c_data ?c)"
          using Frame ra True c' by (simp add: consume.simps [of v "c_role c" "c_assembler c"])
        moreover have "parse_buffered v c = parse_buffered v ?c"
          by (subst parse_buffered.simps) (simp add: step)
        ultimately show ?thesis
          using "1.IH" [OF step refl refl] c'(2)
          by (auto split: option.splits intro: same_rest_trans)
      next
        case False
        then have "\<exists>x. parse_step v c = Some (Inl x, ?c) \<and>
            consume v (c_role c) (c_assembler c) (c_data c) = Some (x, a, rest)"
          using Frame ra
          by (subst parse_step_cut) (auto simp: consume.simps [of v "c_role c"] split: sum.split option.split)
        then show ?thesis
          using c' by (auto simp: parse_buffered.simps [of v c])
      qed
    qed
  qed
qed

section \<open>Monotonicity\<close>

lemma cut_frame_append:
  "cut_frame role limit data \<noteq> Short \<Longrightarrow>
     cut_frame role limit (data @ later) =
       (case cut_frame role limit data of
          Bad e \<Rightarrow> Bad e | Short \<Rightarrow> Short | Frame h p rest \<Rightarrow> Frame h p (rest @ later))"
proof -
  assume cut: "cut_frame role limit data \<noteq> Short"
  then have "header_decode data limit \<noteq> Inr (Inl Incomplete)"
    by (auto simp: cut_frame_def)
  then have "header_decode (data @ later) limit = header_decode data limit"
    by (rule header_decode_append)
  then show ?thesis
    using cut by (auto simp: cut_frame_def split: sum.splits if_splits)
qed

lemma consume_append:
  "consume v role a data = Some (r, a', rest) \<Longrightarrow>
     consume v role a (data @ later) =
       (if r = Inr None then consume v role a' (rest @ later) else Some (r, a', rest @ later))"
proof (induction v role a data rule: consume.induct)
  case (1 v role a data)
  show ?case
  proof (cases "cut_frame role (max_frame (a_limits a)) data")
    case Short
    then show ?thesis
      using "1.prems" by (simp add: consume.simps [of v role a data])
  next
    case (Bad e)
    then have "r = Inl e" "a' = a" "rest = data"
      using "1.prems" by (simp_all add: consume.simps [of v role a])
    then show ?thesis
      using Bad cut_frame_append [of role "max_frame (a_limits a)" data later]
      by (simp add: consume.simps [of v role a])
  next
    case (Frame h p tail)
    then show ?thesis
      using "1.prems" "1.IH" [OF Frame] cut_frame_append [of role "max_frame (a_limits a)" data later]
      by (auto simp: consume.simps [of v role a] split: option.splits sum.splits)
  qed
qed

lemma consume_inv:
  "assembler_inv a \<Longrightarrow>
     \<exists>r a' rest. consume v role a data = Some (r, a', rest) \<and> assembler_inv a' \<and> a_limits a' = a_limits a
       \<and> (\<exists>used. data = used @ rest)"
proof (induction v role a data rule: consume.induct)
  case (1 v role a data)
  show ?case
  proof (cases "cut_frame role (max_frame (a_limits a)) data")
    case (Frame h p tail)
    then obtain used where used: "data = used @ tail"
      by (auto simp: cut_frame_def split: sum.splits if_splits) (metis append_take_drop_id)
    obtain r a' where ra: "assembler_accept (v_utf8 v) a (h_opcode h) (h_fin h) (unmasked v h p) = Some (r, a')"
      using assembler_accept_total [OF "1.prems"] by fastforce
    then have inv: "assembler_inv a' \<and> a_limits a' = a_limits a"
      using assembler_accept_step [OF "1.prems"] by blast
    show ?thesis
    proof (cases "r = Inr None")
      case True
      then obtain r2 a2 rest where "consume v role a' tail = Some (r2, a2, rest)" "assembler_inv a2"
        "a_limits a2 = a_limits a'" "\<exists>used. tail = used @ rest"
        using "1.IH" [OF Frame ra] inv by blast
      moreover have "\<exists>u. data = u @ rest"
        using calculation(4) used by (metis append_assoc)
      ultimately show ?thesis
        using Frame ra True inv by (simp add: consume.simps [of v role a])
    next
      case False
      then show ?thesis
        using Frame ra inv used
        by (cases r; cases "projr r") (auto simp: consume.simps [of v role a])
    qed
  qed (use "1.prems" in \<open>auto simp: consume.simps [of v role a]\<close>)
qed

text \<open>When the parse loop asks for more, it has nothing left to do with what it has.\<close>

lemma consume_final:
  "consume v role a data = Some (Inr None, a', rest) \<Longrightarrow>
     consume v role a' rest = Some (Inr None, a', rest) \<and> cut_frame role (max_frame (a_limits a')) rest = Short"
proof (induction v role a data rule: consume.induct)
  case (1 v role a data)
  show ?case
  proof (cases "cut_frame role (max_frame (a_limits a)) data")
    case Short
    then have "a' = a" "rest = data"
      using "1.prems" by (simp_all add: consume.simps [of v role a])
    then show ?thesis
      using "1.prems" Short by simp
  next
    case (Frame h p tail)
    then show ?thesis
      using "1.prems" "1.IH" [OF Frame]
      by (auto simp: consume.simps [of v role a data] split: option.splits sum.splits)
  qed (use "1.prems" in \<open>auto simp: consume.simps [of v role a data]\<close>)
qed

section \<open>Reading over a lossless transport\<close>

text \<open>The environment a connection relies on. The default methods of \<open>StreamExt\<close> over any lossless byte
  stream, with any allocator, provide it.\<close>

locale connection_env = lossless_ext "v_stream v" incoming sent + allocator "v_alloc v"
  for v :: "'s env" and incoming :: "'s \<Rightarrow> bytes" and sent :: "'s \<Rightarrow> bytes"
begin

definition unread :: "'s connection \<Rightarrow> bytes" where
  "unread c = bm_data (c_read_buffer c) @ incoming (c_stream c)"

text \<open>What reading leaves alone.\<close>

definition write_side :: "'s connection \<Rightarrow> role \<times> bytes \<times> bytes \<times> u64 \<times> bool \<times> bytes" where
  "write_side c = (c_role c, c_scratch c, c_outgoing c, c_mask_state c, c_close_sent c, sent (c_stream c))"

lemma conn_read_refines:
  "assembler_inv (c_assembler c) \<Longrightarrow>
     \<exists>r c'. conn_read v c = Some (r, c')
       \<and> read_spec v (c_role c) (c_assembler c) (unread c) = Some (r, c_assembler c', unread c')
       \<and> write_side c' = write_side c \<and> assembler_inv (c_assembler c')"
proof (induction "length (incoming (c_stream c))" arbitrary: c rule: less_induct)
  case less
  obtain r a' rest where spec: "consume v (c_role c) (c_assembler c) (c_data c) = Some (r, a', rest)"
    "assembler_inv a'"
    using consume_inv [OF less.prems] by blast
  then obtain c1 where parse: "parse_buffered v c = Some (r, c1)" and c1: "c_assembler c1 = a'" "c_data c1 = rest"
    "same_rest c c1"
    using parse_buffered_refines [of v c] by (auto split: option.splits)
  have "consume v (c_role c) (c_assembler c) (unread c) =
      (if r = Inr None then consume v (c_role c) a' (rest @ incoming (c_stream c))
       else Some (r, a', rest @ incoming (c_stream c)))"
    using consume_append [OF spec(1)] by (simp add: unread_def)
  then have consumed: "consume v (c_role c) (c_assembler c) (unread c) =
      (if r = Inr None then consume v (c_role c1) (c_assembler c1) (unread c1) else Some (r, a', unread c1))"
    using c1 by (simp add: unread_def same_rest_def)
  have side: "write_side c1 = write_side c"
    using c1(3) by (simp add: write_side_def same_rest_def)
  show ?case
  proof (cases "r = Inr None")
    case False
    then have "conn_read v c = Some (r, c1)"
      by (subst conn_read.simps) (auto simp: parse split: sum.split option.split)
    then show ?thesis
      using False consumed side c1 spec(2) by (auto simp: read_spec_def split: sum.split option.split)
  next
    case True
    have "0 < bm_spare (bm_reserve (v_alloc v) READ_CHUNK (c_read_buffer c1))"
      using reserve_spare [of READ_CHUNK "c_read_buffer c1"] by (simp add: READ_CHUNK_def)
    from read_buf_piece [OF this, of "c_stream c1"] obtain k b' s' where
      read: "sx_read_buf (v_stream v) (c_stream c1) (bm_reserve (v_alloc v) READ_CHUNK (c_read_buffer c1)) = (Inr k, b', s')"
      and k: "k \<le> length (incoming (c_stream c1))" "incoming (c_stream c1) \<noteq> [] \<longrightarrow> 0 < k"
      and b': "bm_data b' = c_data c1 @ take k (incoming (c_stream c1))"
      and s': "incoming s' = drop k (incoming (c_stream c1))" "sent s' = sent (c_stream c1)"
      by auto
    define c2 where "c2 = c1\<lparr>c_read_buffer := b', c_stream := s'\<rparr>"
    have c2: "unread c2 = unread c1" "write_side c2 = write_side c" "c_assembler c2 = a'" "c_role c2 = c_role c"
      using b' s' side c1 by (simp_all add: c2_def unread_def write_side_def same_rest_def)
    have step: "conn_read v c =
        (if k = 0 then Some (if a_closed a' then Inr None else Inl EUnexpectedEof, c2) else conn_read v c2)"
      using c1 by (subst conn_read.simps) (simp add: parse True read c2_def Let_def)
    show ?thesis
    proof (cases "k = 0")
      case zero: True
      then have "incoming (c_stream c1) = []"
        using k(2) by blast
      then have data: "unread c2 = rest" "c_data c1 = unread c1"
        using c1 c2(1) by (simp_all add: unread_def)
      have "consume v (c_role c) a' rest = Some (Inr None, a', rest)"
        using consume_append [OF spec(1), of "[]"] spec(1) True
        by (metis append_Nil2 consume_final)
      then show ?thesis
        using step zero consumed True c1 c2 data spec(2)
        by (auto simp: read_spec_def same_rest_def)
    next
      case False
      have "length (incoming (c_stream c2)) < length (incoming (c_stream c))"
        using False k s' c1(3) by (simp add: c2_def same_rest_def)
      from less.hyps [OF this] obtain r2 c3 where
        "conn_read v c2 = Some (r2, c3)" "write_side c3 = write_side c2" "assembler_inv (c_assembler c3)"
        "read_spec v (c_role c2) (c_assembler c2) (unread c2) = Some (r2, c_assembler c3, unread c3)"
        using spec(2) c2(3) by auto
      then show ?thesis
        using step False consumed True c1 c2 by (simp add: read_spec_def same_rest_def)
    qed
  qed
qed

end

text \<open>The in-memory pipe provides it.\<close>

definition pipe_env :: "endian \<Rightarrow> utf8_impl \<Rightarrow> pipe env" where
  "pipe_env e u =
     \<lparr>v_endian = e, v_utf8 = u, v_alloc = exact_alloc, v_stream = default_ext exact_alloc pipe_stream\<rparr>"

interpretation pipe_env: connection_env "pipe_env e u" pipe_incoming p_sent for e u
proof -
  have "lossless_ext (v_stream (pipe_env e u)) pipe_incoming p_sent" "allocator (v_alloc (pipe_env e u))"
    using pipe.default.lossless_ext_axioms exact.allocator_axioms by (simp_all add: pipe_env_def)
  then show "connection_env (pipe_env e u) pipe_incoming p_sent"
    by (rule connection_env.intro)
qed

text \<open>The pipe with the socket's own operations.\<close>

definition socket_env :: "endian \<Rightarrow> utf8_impl \<Rightarrow> pipe env" where
  "socket_env e u = \<lparr>v_endian = e, v_utf8 = u, v_alloc = exact_alloc, v_stream = tcp_stream_ext pipe_tcp\<rparr>"

interpretation socket_env: connection_env "socket_env e u" pipe_incoming p_sent for e u
proof -
  have "lossless_ext (v_stream (socket_env e u)) pipe_incoming p_sent" "allocator (v_alloc (socket_env e u))"
    using pipe_socket.socket.lossless_ext_axioms exact.allocator_axioms by (simp_all add: socket_env_def)
  then show "connection_env (socket_env e u) pipe_incoming p_sent"
    by (rule connection_env.intro)
qed

section \<open>Every read, whatever the transport does\<close>

lemma consume_delivers:
  assumes "utf8_build (v_utf8 v)"
  shows "assembler_inv a \<Longrightarrow> consume v role a data = Some (Inr (Some m), a', rest) \<Longrightarrow> message_ok (a_limits a) m"
  using assms
proof (induction v role a data rule: consume.induct)
  case (1 v role a data)
  show ?case
  proof (cases "cut_frame role (max_frame (a_limits a)) data")
    case (Frame h p tail)
    obtain r a2 where ra: "assembler_accept (v_utf8 v) a (h_opcode h) (h_fin h) (unmasked v h p) = Some (r, a2)"
      using assembler_accept_total [OF "1.prems"(1)] by fastforce
    then have inv: "assembler_inv a2 \<and> a_limits a2 = a_limits a"
      using assembler_accept_step [OF "1.prems"(1)] by blast
    show ?thesis
    proof (cases "r = Inr None")
      case True
      then have "consume v role a2 tail = Some (Inr (Some m), a', rest)"
        using "1.prems"(2) Frame ra by (simp add: consume.simps [of v role a data])
      then show ?thesis
        using "1.IH" [OF Frame ra] True inv "1.prems"(3) by simp
    next
      case False
      then have "r = Inr (Some m)"
        using "1.prems"(2) Frame ra
        by (auto simp: consume.simps [of v role a data] split: option.splits sum.splits)
      then show ?thesis
        using utf8_build.accept_ok [OF "1.prems"(3)] ra by blast
    qed
  qed (use "1.prems"(2) in \<open>auto simp: consume.simps [of v role a data]\<close>)
qed

lemma conn_read_safe_aux:
  assumes "conn_read v c = Some rc" and "utf8_build (v_utf8 v)" and "assembler_inv (c_assembler c)"
  shows "assembler_inv (c_assembler (snd rc)) \<and> a_limits (c_assembler (snd rc)) = a_limits (c_assembler c)
       \<and> c_role (snd rc) = c_role c
       \<and> (case fst rc of Inr (Some m) \<Rightarrow> message_ok (a_limits (c_assembler c)) m
          | Inr None \<Rightarrow> a_closed (c_assembler (snd rc)) | Inl _ \<Rightarrow> True)"
  using assms(2,3)
proof (induct rule: conn_read.raw_induct [OF _ assms(1), consumes 0, case_names step])
  case (step rec v c rc)
  obtain r a' rest where spec: "consume v (c_role c) (c_assembler c) (c_data c) = Some (r, a', rest)"
    "assembler_inv a'" "a_limits a' = a_limits (c_assembler c)"
    using consume_inv [OF step(4)] by blast
  then obtain c1 where parse: "parse_buffered v c = Some (r, c1)" and c1: "c_assembler c1 = a'"
    "c_role c1 = c_role c"
    using parse_buffered_refines [of v c] by (auto simp: same_rest_def split: option.splits)
  consider e where "r = Inl e" | m where "r = Inr (Some m)" | "r = Inr None"
    by (metis option.exhaust sum.exhaust)
  then show ?case
  proof cases
    case 1
    then show ?thesis
      using step(2) c1 parse spec by auto
  next
    case 2
    then show ?thesis
      using step(2) c1 parse spec consume_delivers [OF step(3,4)] by auto
  next
    case 3
    obtain rd b' s' where read: "sx_read_buf (v_stream v) (c_stream c1)
        (bm_reserve (v_alloc v) READ_CHUNK (c_read_buffer c1)) = (rd, b', s')"
      by (metis prod.exhaust)
    let ?c2 = "c1\<lparr>c_read_buffer := b', c_stream := s'\<rparr>"
    show ?thesis
      using step(2,3) step(1) [of v ?c2 rc] c1 parse 3 read spec
      by (auto simp: Let_def split: sum.splits if_splits option.splits)
  qed
qed

section \<open>Properties\<close>

text \<open>C4: Over any lossless transport and any allocator, \<open>read\<close> is its specification: the answer, the
  assembler and the bytes left depend only on the bytes already buffered followed by all the bytes the
  peer sends, and the read always returns. The specification takes whole frames off the front until
  one delivers a message or an error; if the bytes run out it reports a clean end after a close frame
  and an unexpected one otherwise.\<close>

theorem read_refines:
  assumes "connection_env v incoming sent" and "assembler_inv (c_assembler c)"
  shows "map_option (\<lambda>(r, c'). (r, c_assembler c', c_data c' @ incoming (c_stream c'))) (conn_read v c)
           = read_spec v (c_role c) (c_assembler c) (c_data c @ incoming (c_stream c))
         \<and> conn_read v c \<noteq> None"
  using connection_env.conn_read_refines [OF assms]
  by (auto simp: connection_env.unread_def [OF assms(1)])

lemma text_frame_read_spec:
  "read_spec (pipe_env Little Std) Client (assembler_new default_limits) [0x81, 0x02, 0x68, 0x69, 0x81]
     = Some (Inr (Some (MText [0x68, 0x69])), assembler_new default_limits, [0x81])"
proof -
  have "header_decode ([0x81, 0x02] @ [0x68, 0x69, 0x81]) (max_frame default_limits) =
      Inr (Inr (\<lparr>h_fin = True, h_opcode = Text, h_mask = None, h_payload_len = 2\<rparr>, 2))"
    by (simp add: header_decode_def decode_len_def decode_mask_def opcode_from_bits_def default_limits_def)
  then have "cut_frame Client (max_frame default_limits) [0x81, 0x02, 0x68, 0x69, 0x81] =
      Frame \<lparr>h_fin = True, h_opcode = Text, h_mask = None, h_payload_len = 2\<rparr> [0x68, 0x69] [0x81]"
    by (simp add: cut_frame_def masking_violation_def)
  then show ?thesis
    by (simp add: read_spec_def consume.simps [of _ Client] unmasked_def accept_eval pipe_env_def)
qed

theorem read_refines_witness:
  "map_option (\<lambda>(r, c'). (r, c_assembler c', c_data c' @ pipe_incoming (c_stream c')))
     (conn_read (pipe_env Little Std)
        (connection_new (pipe_env Little Std) [] \<lparr>p_pieces = [[0x81], [0x02, 0x68], [0x69, 0x81]], p_sent = []\<rparr>
           Client default_limits))
   = Some (Inr (Some (MText [0x68, 0x69])), assembler_new default_limits, [0x81])"
  using read_refines [OF pipe_env.connection_env_axioms, of
      "connection_new (pipe_env Little Std) [] \<lparr>p_pieces = [[0x81], [0x02, 0x68], [0x69, 0x81]], p_sent = []\<rparr>
         Client default_limits" Little Std]
  by (simp add: connection_new_def with_buffered_def pipe_incoming_def text_frame_read_spec)

text \<open>Two connections that have the same bytes to read agree, on any two transports.\<close>

lemma reads_agree:
  assumes "connection_env v incoming sent" and "connection_env v' incoming' sent'"
    and "v_utf8 v' = v_utf8 v" and "c_role c' = c_role c" and "c_assembler c' = c_assembler c"
    and "assembler_inv (c_assembler c)"
    and "c_data c' @ incoming' (c_stream c') = c_data c @ incoming (c_stream c)"
  shows "\<exists>r d d'. conn_read v c = Some (r, d) \<and> conn_read v' c' = Some (r, d') \<and> c_assembler d' = c_assembler d
      \<and> c_data d' @ incoming' (c_stream d') = c_data d @ incoming (c_stream d)"
proof -
  have "unmasked v' h p = unmasked v h p" for h p
    by (auto simp: unmasked_def mask_apply_stream split: option.split)
  then have same: "consume v' role a data = consume v role a data" for role a data
    using assms(3)
    by (induction v role a data rule: consume.induct)
      (subst (1 2) consume.simps, auto split: cut.split option.split sum.split)
  obtain r d where d: "conn_read v c = Some (r, d)"
    "read_spec v (c_role c) (c_assembler c) (c_data c @ incoming (c_stream c))
       = Some (r, c_assembler d, c_data d @ incoming (c_stream d))"
    using connection_env.conn_read_refines [OF assms(1,6)] by (auto simp: connection_env.unread_def [OF assms(1)])
  obtain r' d' where d': "conn_read v' c' = Some (r', d')"
    "read_spec v' (c_role c') (c_assembler c') (c_data c' @ incoming' (c_stream c'))
       = Some (r', c_assembler d', c_data d' @ incoming' (c_stream d'))"
    using connection_env.conn_read_refines [OF assms(2), of c'] assms(5,6)
    by (auto simp: connection_env.unread_def [OF assms(2)])
  have "read_spec v' (c_role c') (c_assembler c') (c_data c' @ incoming' (c_stream c'))
      = read_spec v (c_role c) (c_assembler c) (c_data c @ incoming (c_stream c))"
    using assms(4,5,7) by (simp add: read_spec_def same)
  then show ?thesis
    using d d' by simp
qed

text \<open>A socket's fast paths are invisible: a connection reads the same with them as with the default methods.\<close>

lemma fast_path_invisible:
  assumes "assembler_inv (c_assembler c)"
  shows "\<exists>r d d'. conn_read (socket_env e u) c = Some (r, d) \<and> conn_read (pipe_env e u) c = Some (r, d')
      \<and> c_assembler d' = c_assembler d \<and> c_data d' @ pipe_incoming (c_stream d') = c_data d @ pipe_incoming (c_stream d)"
  using reads_agree [OF socket_env.connection_env_axioms pipe_env.connection_env_axioms, of e u e u c c] assms
  by (simp add: socket_env_def pipe_env_def)

text \<open>C20: How the bytes arrive does not matter: two connections of the same role with equal assemblers
  and the same bytes still to read, over different transports, allocators and byte orders, with the
  bytes cut differently between the buffer and any pieces of any size, read the same message or
  error and keep the same bytes for the next read.\<close>

theorem read_chunking_invariant:
  assumes "connection_env v incoming sent" and "connection_env v' incoming' sent'"
    and "v_utf8 v' = v_utf8 v" and "c_role c' = c_role c" and "c_assembler c' = c_assembler c"
    and "assembler_inv (c_assembler c)"
    and "c_data c' @ incoming' (c_stream c') = c_data c @ incoming (c_stream c)"
  shows "\<exists>r d d'. conn_read v c = Some (r, d) \<and> conn_read v' c' = Some (r, d') \<and> c_assembler d' = c_assembler d
      \<and> c_data d' @ incoming' (c_stream d') = c_data d @ incoming (c_stream d)"
  by (rule reads_agree [OF assms])

theorem read_chunking_invariant_witness:
  "\<exists>r d d'. conn_read (pipe_env Little Std)
        (with_buffered (pipe_env Little Std) [] \<lparr>p_pieces = [[0x02, 0x68], [0x69]], p_sent = []\<rparr> Client default_limits [0x81])
      = Some (r, d)
    \<and> conn_read (pipe_env Big Std)
        (with_buffered (pipe_env Big Std) [] \<lparr>p_pieces = [[0x81, 0x02, 0x68, 0x69]], p_sent = []\<rparr> Client default_limits [])
      = Some (r, d')"
  using read_chunking_invariant [OF pipe_env.connection_env_axioms pipe_env.connection_env_axioms, of Big Std Little Std
      "with_buffered (pipe_env Big Std) [] \<lparr>p_pieces = [[0x81, 0x02, 0x68, 0x69]], p_sent = []\<rparr> Client default_limits []"
      "with_buffered (pipe_env Little Std) [] \<lparr>p_pieces = [[0x02, 0x68], [0x69]], p_sent = []\<rparr> Client default_limits [0x81]"]
  by (auto simp: with_buffered_def pipe_incoming_def pipe_env_def)

text \<open>When the parse loop asks for more bytes, what it holds back is less than one frame: fewer than
  fourteen bytes more than the frame limit. And the total it computes for a frame cannot overflow the
  machine's word.\<close>

lemma parse_holds_less_than_a_frame:
  assumes "parse_buffered v c = Some (Inr None, c')" and "assembler_inv (c_assembler c)"
  shows "length (c_data c') < MAX_ENCODED_LEN + unat (max_frame (a_limits (c_assembler c')))
      \<and> (\<forall>h n. header_decode (c_data c') (max_frame (a_limits (c_assembler c'))) = Inr (Inr (h, n)) \<longrightarrow>
           n + unat (h_payload_len h) < 2 ^ 64)"
proof -
  have "consume v (c_role c) (c_assembler c) (c_data c) = Some (Inr None, c_assembler c', c_data c')"
    using parse_buffered_refines [of v c] assms(1) by simp
  then have short: "cut_frame (c_role c) (max_frame (a_limits (c_assembler c'))) (c_data c') = Short"
    using consume_final by blast
  let ?d = "header_decode (c_data c') (max_frame (a_limits (c_assembler c')))"
  show ?thesis
  proof (cases "\<exists>h n. ?d = Inr (Inr (h, n))")
    case True
    then obtain h n where d: "?d = Inr (Inr (h, n))"
      by blast
    have "unat (h_payload_len h) \<le> unat (max_frame (a_limits (c_assembler c')))" "unat (h_payload_len h) < 2 ^ 63"
      using header_decode_ok(1,2) [OF d] by (simp_all add: wf_header_def word_le_nat_alt word_less_nat_alt)
    moreover have "n \<le> 14"
      using header_decode_ok(3) [OF d] encoded_len_bounds(2) [of h] by (simp add: MAX_ENCODED_LEN_def)
    moreover have "length (c_data c') < n + unat (h_payload_len h)"
      using short d by (simp add: cut_frame_def split: if_splits)
    ultimately show ?thesis
      using d by (simp add: MAX_ENCODED_LEN_def)
  next
    case False
    then have "?d = Inr (Inl Incomplete)"
      using short by (cases ?d; cases "projr ?d") (auto simp: cut_frame_def)
    then show ?thesis
      using header_decode_incomplete by fastforce
  qed
qed

text \<open>C29: The masking rule, both directions: a complete frame that the peer should have masked and did not,
  or should not have masked and did, is refused as a masking violation, whatever follows it, with the
  connection as it was: the payload is neither unmasked nor given to the assembler. The violation is
  reported to the peer as a protocol error.\<close>

theorem masking_enforced:
  assumes "wf_header h" and "h_payload_len h \<le> max_frame (a_limits (c_assembler c))"
    and "length payload = unat (h_payload_len h)"
    and "c_data c = header_bytes h @ payload @ rest"
    and "(c_role c = Server) = (h_mask h = None)"
  shows "parse_buffered v c = Some (Inl EMaskingViolation, c) \<and> error_close_code EMaskingViolation = Some PROTOCOL"
proof -
  have "header_decode (c_data c) (max_frame (a_limits (c_assembler c))) = Inr (Inr (h, encoded_len h))"
    unfolding assms(4) using header_decode_bytes [OF assms(1,2)] .
  moreover have "masking_violation (c_role c) (h_mask h)"
    using assms(5) by (cases "c_role c"; cases "h_mask h") (simp_all add: masking_violation_def)
  ultimately have "parse_step v c = Some (Inl (Inl EMaskingViolation), c)"
    using assms(3,4) by (simp add: parse_step_def Let_def)
  then show ?thesis
    by (simp add: parse_buffered.simps [of v c] error_close_code_def)
qed

theorem masking_enforced_witness:
  "\<exists>c'. parse_buffered (pipe_env Little Std)
      (with_buffered (pipe_env Little Std) [] \<lparr>p_pieces = [], p_sent = []\<rparr> Server default_limits [0x81, 0x02, 0x68, 0x69])
    = Some (Inl EMaskingViolation, c')"
proof -
  let ?h = "\<lparr>h_fin = True, h_opcode = Text, h_mask = None, h_payload_len = 2\<rparr>"
  have "header_bytes ?h = [0x81, 0x02]"
    by (simp add: header_bytes_def len_byte_def len_ext_def mask_ext_def)
  moreover have "wf_header ?h"
    by (simp add: wf_header_def)
  ultimately show ?thesis
    using masking_enforced [of ?h "with_buffered (pipe_env Little Std) [] \<lparr>p_pieces = [], p_sent = []\<rparr> Server default_limits
        [0x81, 0x02, 0x68, 0x69]" "[0x68, 0x69]" "[]" "pipe_env Little Std"]
    by (simp add: with_buffered_def assembler_new_def default_limits_def)
qed

text \<open>Every close code an error is reported under may be put on the wire, and exactly the errors with
  nobody left to tell (a failed transport, a vanished peer, a connection never established) have none.\<close>

lemma error_codes_sendable:
  "case error_close_code e of
     Some code \<Rightarrow> is_sendable code \<and> code \<in> {PROTOCOL, INVALID_PAYLOAD, TOO_LARGE}
   | None \<Rightarrow> (\<exists>x. e = EIo x) \<or> e = EUnexpectedEof \<or> (\<exists>x. e = EUpgrade x) \<or> (\<exists>x. e = EUrl x)"
  using is_sendable_constants
  by (auto simp: error_close_code_def split: conn_error.split frame_error.split protocol_error.split)

end
