(* ===== verification/Conn_Write.thy ===== *)
theory Conn_Write
  imports Conn_Read
begin

text \<open>
  The write side of a connection. Every write path puts the same bytes on the wire: the specification
  \<open>wire_messages\<close> is a function of the role, the mask generator's state and the messages, and \<open>write\<close>,
  \<open>write_all\<close>, \<open>pong\<close> and \<open>close\<close> are shown to send exactly it, in one write each.
\<close>

section \<open>Specification\<close>

definition wire_frame :: "'s env \<Rightarrow> mask_key option \<Rightarrow> opcode \<Rightarrow> bool \<Rightarrow> bytes \<Rightarrow> bytes" where
  "wire_frame v key op fin payload =
     header_bytes \<lparr>h_fin = fin, h_opcode = op, h_mask = key, h_payload_len = of_nat (length payload)\<rparr>
       @ (case key of None \<Rightarrow> payload | Some k \<Rightarrow> fst (mask_apply (v_endian v) payload k 0))"

definition frame_key :: "'s env \<Rightarrow> role \<Rightarrow> u64 \<Rightarrow> mask_key option \<times> u64" where
  "frame_key v role st = (case role of Client \<Rightarrow> apfst Some (next_mask (v_endian v) st) | Server \<Rightarrow> (None, st))"

fun wire_messages :: "'s env \<Rightarrow> role \<Rightarrow> u64 \<Rightarrow> message list \<Rightarrow> bytes \<times> u64" where
  "wire_messages v role st [] = ([], st)"
| "wire_messages v role st (m # ms) =
     (let (key, st1) = frame_key v role st;
          (op, payload) = message_frame m;
          (bs, st2) = wire_messages v role st1 ms
      in (wire_frame v key op True payload @ bs, st2))"

text \<open>Messages written one at a time, until a write fails.\<close>

fun conn_writes :: "'s env \<Rightarrow> 's connection \<Rightarrow> message list \<Rightarrow> ((conn_error + unit) \<times> 's connection) option" where
  "conn_writes v c [] = Some (Inr (), c)"
| "conn_writes v c (m # ms) =
     (case conn_write v c m of
        None \<Rightarrow> None
      | Some (Inl e, c') \<Rightarrow> Some (Inl e, c')
      | Some (Inr _, c') \<Rightarrow> conn_writes v c' ms)"

section \<open>One frame\<close>

lemma frame_header_eq:
  "frame_header fin op key payload =
     Some (header_bytes \<lparr>h_fin = fin, h_opcode = op, h_mask = key, h_payload_len = of_nat (length payload)\<rparr>)"
proof -
  let ?h = "\<lparr>h_fin = fin, h_opcode = op, h_mask = key, h_payload_len = of_nat (length payload)\<rparr>"
  have "\<not> MAX_ENCODED_LEN < encoded_len ?h"
    using encoded_len_bounds(2) [of ?h] by simp
  moreover have "take (encoded_len ?h) (header_bytes ?h @ xs) = header_bytes ?h" for xs
    by simp
  ultimately show ?thesis
    by (simp add: frame_header_def header_encode_eq)
qed

lemma role_mask_eq:
  "role_mask v c = (fst (frame_key v (c_role c) (c_mask_state c)),
                    c\<lparr>c_mask_state := snd (frame_key v (c_role c) (c_mask_state c))\<rparr>)"
  by (simp add: role_mask_def frame_key_def split_def Let_def split: role.split)

lemma header_bytes_nonempty [simp]: "header_bytes h \<noteq> []"
  by (simp add: header_bytes_def)

lemma wire_frame_nonempty [simp]: "wire_frame v key op fin payload \<noteq> []"
  by (simp add: wire_frame_def)

lemma encode_frame_eq:
  "encode_frame v c outgoing op fin payload =
     Some (let (key, st) = frame_key v (c_role c) (c_mask_state c)
           in (outgoing @ wire_frame v key op fin payload, c\<lparr>c_mask_state := st\<rparr>))"
  by (simp add: encode_frame_def role_mask_eq frame_header_eq wire_frame_def Let_def split_def
      split: option.split)

lemma note_close_simps [simp]:
  "c_role (note_close m c) = c_role c" "c_mask_state (note_close m c) = c_mask_state c"
  "c_stream (note_close m c) = c_stream c" "c_close_sent (note_close m c) = (c_close_sent c \<or> is_close m)"
  "c_assembler (note_close m c) = c_assembler c" "c_read_buffer (note_close m c) = c_read_buffer c"
  "c_outgoing (note_close m c) = c_outgoing c" "c_scratch (note_close m c) = c_scratch c"
  by (simp_all add: note_close_def)

lemma encode_all_eq:
  "encode_all v c outgoing ms =
     Some (outgoing @ fst (wire_messages v (c_role c) (c_mask_state c) ms),
           c\<lparr>c_mask_state := snd (wire_messages v (c_role c) (c_mask_state c) ms),
             c_close_sent := c_close_sent c \<or> list_ex is_close ms\<rparr>)"
proof (induction ms arbitrary: c outgoing)
  case (Cons m ms)
  show ?case
    by (simp add: encode_frame_eq Cons.IH Let_def split_def note_close_def)
qed simp

lemma wire_messages_Nil_iff: "fst (wire_messages v role st ms) = [] \<longleftrightarrow> ms = []"
  by (cases ms) (simp_all add: split_def Let_def)

lemma wire_messages_append:
  "wire_messages v role st (ms @ ns) =
     (fst (wire_messages v role st ms) @ fst (wire_messages v role (snd (wire_messages v role st ms)) ns),
      snd (wire_messages v role (snd (wire_messages v role st ms)) ns))"
  by (induction ms arbitrary: st) (simp_all add: split_def Let_def)

section \<open>Writing over a lossless transport\<close>

context connection_env
begin

text \<open>Everything but the stream's own state and the scratch buffer.\<close>

definition sends :: "'s connection \<Rightarrow> 's connection \<Rightarrow> message list \<Rightarrow> bool" where
  "sends c c' ms \<longleftrightarrow>
     sent (c_stream c') = sent (c_stream c) @ fst (wire_messages v (c_role c) (c_mask_state c) ms)
       \<and> incoming (c_stream c') = incoming (c_stream c)
       \<and> c_mask_state c' = snd (wire_messages v (c_role c) (c_mask_state c) ms)
       \<and> c_close_sent c' = (c_close_sent c \<or> list_ex is_close ms)
       \<and> c_role c' = c_role c \<and> c_assembler c' = c_assembler c \<and> c_read_buffer c' = c_read_buffer c"

lemma write_frame_sends:
  "\<exists>c'. write_frame v c op fin payload = Some (Inr (), c')
     \<and> sent (c_stream c') = sent (c_stream c)
          @ wire_frame v (fst (frame_key v (c_role c) (c_mask_state c))) op fin payload
     \<and> incoming (c_stream c') = incoming (c_stream c)
     \<and> c_mask_state c' = snd (frame_key v (c_role c) (c_mask_state c))
     \<and> c_close_sent c' = c_close_sent c \<and> c_role c' = c_role c \<and> c_assembler c' = c_assembler c
     \<and> c_read_buffer c' = c_read_buffer c \<and> c_outgoing c' = c_outgoing c"
proof -
  let ?key = "fst (frame_key v (c_role c) (c_mask_state c))"
  let ?h = "\<lparr>h_fin = fin, h_opcode = op, h_mask = ?key, h_payload_len = of_nat (length payload)\<rparr>"
  let ?p = "case ?key of None \<Rightarrow> payload | Some k \<Rightarrow> fst (mask_apply (v_endian v) payload k 0)"
  obtain s' where "sx_write_all_vectored (v_stream v) (c_stream c) (header_bytes ?h) ?p = (Inr (), s')"
    "sent s' = sent (c_stream c) @ header_bytes ?h @ ?p" "incoming s' = incoming (c_stream c)"
    using write_vectored_sends by blast
  then show ?thesis
    by (cases ?key) (simp_all add: write_frame_def role_mask_eq frame_header_eq wire_frame_def Let_def)
qed

lemma conn_write_sends: "\<exists>c'. conn_write v c m = Some (Inr (), c') \<and> sends c c' [m] \<and> c_outgoing c' = c_outgoing c"
  using write_frame_sends [of "note_close m c" "fst (message_frame m)" True "snd (message_frame m)"]
  by (auto simp: conn_write_def sends_def split_def Let_def)

lemma sends_append:
  assumes "sends c c1 [m]" and "sends c1 c2 ms"
  shows "sends c c2 (m # ms)"
  using assms by (auto simp: sends_def split_def Let_def)

lemma conn_writes_sends: "\<exists>c'. conn_writes v c ms = Some (Inr (), c') \<and> sends c c' ms \<and> c_outgoing c' = c_outgoing c"
proof (induction ms arbitrary: c)
  case Nil
  show ?case
    by (simp add: sends_def)
next
  case (Cons m ms)
  obtain c1 where c1: "conn_write v c m = Some (Inr (), c1)" "sends c c1 [m]" "c_outgoing c1 = c_outgoing c"
    using conn_write_sends by blast
  obtain c2 where "conn_writes v c1 ms = Some (Inr (), c2)" "sends c1 c2 ms" "c_outgoing c2 = c_outgoing c1"
    using Cons.IH by blast
  then show ?case
    using c1 sends_append by (intro exI [of _ c2]) auto
qed

lemma sends_trans: "sends c c1 ms \<Longrightarrow> sends c1 c2 ns \<Longrightarrow> sends c c2 (ms @ ns)"
  by (auto simp: sends_def wire_messages_append)

lemma sends_refl: "sends c c []"
  by (simp add: sends_def)

lemma sends_unread: "sends c c' ms \<Longrightarrow> unread c' = unread c"
  by (simp add: sends_def unread_def)

lemma conn_pong_is_write: "conn_pong v c p = conn_write v c (MPong p)"
  by (simp add: conn_pong_def conn_write_def message_frame_def note_close_def is_close_def)

text \<open>What has been written by several operations, whatever has been read.\<close>

definition wrote :: "'s connection \<Rightarrow> 's connection \<Rightarrow> message list \<Rightarrow> bool" where
  "wrote c c' ms \<longleftrightarrow>
     sent (c_stream c') = sent (c_stream c) @ fst (wire_messages v (c_role c) (c_mask_state c) ms)
       \<and> c_mask_state c' = snd (wire_messages v (c_role c) (c_mask_state c) ms)
       \<and> c_close_sent c' = (c_close_sent c \<or> list_ex is_close ms) \<and> c_role c' = c_role c"

lemma wrote_trans: "wrote c c1 ms \<Longrightarrow> wrote c1 c2 ns \<Longrightarrow> wrote c c2 (ms @ ns)"
  by (auto simp: wrote_def wire_messages_append)

lemma sends_wrote: "sends c c' ms \<Longrightarrow> wrote c c' ms"
  by (simp add: sends_def wrote_def)

lemma read_wrote: "write_side c' = write_side c \<Longrightarrow> wrote c c' []"
  by (simp add: write_side_def wrote_def)

lemma read_then_sends:
  assumes "write_side c1 = write_side c" and "sends c1 c2 ms"
  shows "wrote c c2 ms"
  using wrote_trans [OF read_wrote [OF assms(1)] sends_wrote [OF assms(2)]] by simp

lemma conn_write_all_sends: "\<exists>c'. conn_write_all v c ms = Some (Inr (), c') \<and> sends c c' ms \<and> c_outgoing c' = []"
proof (cases "ms = []")
  case True
  then show ?thesis
    by (simp add: conn_write_all_def sends_def)
next
  case False
  let ?bs = "fst (wire_messages v (c_role c) (c_mask_state c) ms)"
  obtain s' where "sx_write_all (v_stream v) (c_stream c) ?bs = (Inr (), s')" "sent s' = sent (c_stream c) @ ?bs"
    "incoming s' = incoming (c_stream c)"
    using write_all_sends by blast
  then show ?thesis
    using False by (simp add: conn_write_all_def encode_all_eq wire_messages_Nil_iff sends_def)
qed

end

section \<open>Close bodies\<close>

lemma be_word_be_bytes_2 [simp]: "be_word (be_bytes 2 (w :: u16)) = w"
  by simp

lemma parse_encode_close_body:
  assumes "is_utf8 u (cf_reason f)"
  shows "parse_close_body u (encode_close_body (Some f)) =
           Inr (Some (f\<lparr>cf_code := if is_sendable (cf_code f) then cf_code f else INTERNAL_ERROR\<rparr>))"
proof -
  obtain a b where ab: "be_bytes 2 (close_number (if is_sendable (cf_code f) then cf_code f else INTERNAL_ERROR)) = [a, b]"
    using length_be_bytes [of 2] by (metis (no_types) length_0_conv length_Suc_conv numeral_2_eq_2)
  then have "be_word [a, b] = close_number (if is_sendable (cf_code f) then cf_code f else INTERNAL_ERROR)"
    by (metis be_word_be_bytes_2)
  then show ?thesis
    using assms ab by (auto simp: parse_close_body_def encode_close_body_def Let_def)
qed

section \<open>Properties\<close>

text \<open>C30: \<open>write_all\<close>, whatever the transport does, makes at most one write, of all the frames of the
  messages in order, each client frame under the next key; it never panics, it retains nothing, it advances
  the mask generator once per message, also when the write fails, and a batch without a close leaves the
  note of one as it was. (A batch with a close notes it before it writes, whatever comes of the write, which is
  not what the field is documented to say; no claim is made for it here.)\<close>

theorem write_all_one_write:
  assumes "\<not> list_ex is_close ms"
  shows "conn_write_all v c ms =
     Some (let (bs, st) = wire_messages v (c_role c) (c_mask_state c) ms;
               c' = c\<lparr>c_outgoing := [], c_mask_state := st\<rparr>
           in if ms = [] then (Inr (), c')
              else let (r, s') = sx_write_all (v_stream v) (c_stream c) bs
                   in (map_sum EIo id r, c'\<lparr>c_stream := s'\<rparr>))"
  using assms by (simp add: conn_write_all_def encode_all_eq wire_messages_Nil_iff Let_def split_def)

theorem write_all_one_write_witness:
  "\<exists>r :: unit io. \<exists>s'. sx_write_all (v_stream (pipe_env Little Std)) \<lparr>p_pieces = [], p_sent = []\<rparr>
        (fst (wire_messages (pipe_env Little Std) Client (seed_from Little [1]) [MText [104], MPing []])) = (r, s')
     \<and> map_option (\<lambda>(r, c). (r, c_stream c)) (conn_write_all (pipe_env Little Std)
          (connection_new (pipe_env Little Std) [1] \<lparr>p_pieces = [], p_sent = []\<rparr> Client default_limits)
          [MText [104], MPing []]) = Some (map_sum EIo id r, s')"
  using write_all_one_write [of "[MText [104], MPing []]" "pipe_env Little Std"
      "connection_new (pipe_env Little Std) [1] \<lparr>p_pieces = [], p_sent = []\<rparr> Client default_limits"]
  by (simp add: is_close_def connection_new_def with_buffered_def pipe_env_def [of Little Std] split_def Let_def
      del: wire_messages.simps) (metis prod.collapse)

text \<open>C21: Coalescing is invisible to the peer: over a lossless transport \<open>write_all\<close> sends exactly the bytes
  that writing the messages one at a time sends, and leaves the connection in the same state.\<close>

theorem write_all_is_writes:
  assumes "connection_env v incoming sent"
  shows "\<exists>c1 c2. conn_write_all v c ms = Some (Inr (), c1) \<and> conn_writes v c ms = Some (Inr (), c2)
     \<and> sent (c_stream c1) = sent (c_stream c2) \<and> incoming (c_stream c1) = incoming (c_stream c2)
     \<and> c_mask_state c1 = c_mask_state c2 \<and> c_close_sent c1 = c_close_sent c2
     \<and> c_role c1 = c_role c2 \<and> c_assembler c1 = c_assembler c2 \<and> c_read_buffer c1 = c_read_buffer c2
     \<and> c_outgoing c1 = []"
  using connection_env.conn_write_all_sends [OF assms, of c ms] connection_env.conn_writes_sends [OF assms, of c ms]
  by (auto simp: connection_env.sends_def [OF assms])

theorem write_all_is_writes_witness:
  "\<exists>c1 c2. conn_write_all (pipe_env Little Std)
        (connection_new (pipe_env Little Std) [1] \<lparr>p_pieces = [], p_sent = []\<rparr> Client default_limits) [MText [104], MPing []]
      = Some (Inr (), c1)
    \<and> conn_writes (pipe_env Little Std)
        (connection_new (pipe_env Little Std) [1] \<lparr>p_pieces = [], p_sent = []\<rparr> Client default_limits) [MText [104], MPing []]
      = Some (Inr (), c2)
    \<and> p_sent (c_stream c1) = p_sent (c_stream c2)"
  using write_all_is_writes [OF pipe_env.connection_env_axioms, of Little Std
      "connection_new (pipe_env Little Std) [1] \<lparr>p_pieces = [], p_sent = []\<rparr> Client default_limits" "[MText [104], MPing []]"]
  by blast

text \<open>Closing is idempotent, whatever the transport does: after a close the connection is marked, and
  every later close, with whatever frame, succeeds without touching the transport.\<close>

lemma close_idempotent:
  assumes "conn_close v c frame = Some (r, c')"
  shows "c_close_sent c' \<and> conn_close v c' frame' = Some (Inr (), c')"
proof (cases "c_close_sent c")
  case True
  then show ?thesis
    using assms by (simp add: conn_close_def)
next
  case False
  then have "write_frame v (c\<lparr>c_close_sent := True\<rparr>) Close True (encode_close_body frame) = Some (r, c')"
    using assms by (simp add: conn_close_def conn_write_def message_frame_def note_close_def is_close_def)
  then have "c_close_sent c'"
    by (auto simp: write_frame_def role_mask_eq frame_header_eq Let_def split_def split: option.splits)
  then show ?thesis
    by (simp add: conn_close_def)
qed

text \<open>What is sent as a close body is what the peer parses: no body for no frame; otherwise the same
  reason, and the same code unless the code must not be sent, in which case it is replaced by 1011.\<close>

lemma close_body_roundtrip:
  assumes "\<forall>f. frame = Some f \<longrightarrow> is_utf8 u (cf_reason f)"
  shows "parse_close_body u (encode_close_body frame) =
           Inr (map_option (\<lambda>f. f\<lparr>cf_code := if is_sendable (cf_code f) then cf_code f else INTERNAL_ERROR\<rparr>) frame)"
  using assms parse_encode_close_body
  by (cases frame) (auto simp: parse_close_body_def encode_close_body_def)

section \<open>The mask generator\<close>

text \<open>The word the key is taken from, as a function of the advanced state.\<close>

definition mix64 :: "u64 \<Rightarrow> u64" where
  "mix64 s =
     (let z1 = (s XOR drop_bit 30 s) * 0xBF58476D1CE4E5B9;
          z2 = (z1 XOR drop_bit 27 z1) * 0x94D049BB133111EB
      in z2 XOR drop_bit 31 z2)"

definition key_of :: "endian \<Rightarrow> u64 \<Rightarrow> mask_key" where
  "key_of e z =
     (let out = ne_bytes e 4 (ucast z :: u32) in (out ! 0, out ! 1, out ! 2, out ! 3))"

lemma next_mask_eq:
  "next_mask e st = (key_of e (mix64 (st + 0x9E3779B97F4A7C15)), st + 0x9E3779B97F4A7C15)"
  by (simp add: next_mask_def key_of_def mix64_def Let_def)

definition mask_state_after :: "endian \<Rightarrow> nat \<Rightarrow> u64 \<Rightarrow> u64" where
  "mask_state_after e n st = ((\<lambda>s. snd (next_mask e s)) ^^ n) st"

lemma mask_state_after_eq: "mask_state_after e n st = st + of_nat n * 0x9E3779B97F4A7C15"
  by (induction n) (simp_all add: mask_state_after_def next_mask_eq algebra_simps)

lemma xor_shift_inj:
  assumes "0 < k" and eq: "x XOR drop_bit k x = (y XOR drop_bit k y :: u64)"
  shows "x = y"
proof (rule bit_word_eqI)
  have bits: "(bit x i \<noteq> bit x (k + i)) = (bit y i \<noteq> bit y (k + i))" for i
    using arg_cong [OF eq, of "\<lambda>w. bit w i"]
    by (cases "i < 64") (auto simp: bit_simps dest: bit_imp_le_length)
  show "bit x i = bit y i" for i
  proof (induction "64 - i" arbitrary: i rule: less_induct)
    case less
    show ?case
    proof (cases "i < 64")
      case True
      then have "bit x (k + i) = bit y (k + i)"
        using less [of "k + i"] assms(1) by simp
      then show ?thesis
        using bits [of i] by blast
    next
      case False
      then show ?thesis
        by (auto dest: bit_imp_le_length)
    qed
  qed
qed

lemma odd_mult_inj:
  assumes "c * i = (1 :: u64)" and "x * c = y * c"
  shows "x = y"
proof -
  have "x * (c * i) = y * (c * i)"
    using assms(2) by (simp only: mult.assoc [symmetric])
  then show ?thesis
    by (simp only: assms(1) mult_1_right)
qed

lemma mix64_inj: "mix64 x = mix64 y \<Longrightarrow> x = y"
proof -
  have a: "0xBF58476D1CE4E5B9 * 0x96DE1B173F119089 = (1 :: u64)" and b: "0x94D049BB133111EB * 0x319642B2D24D8EC3 = (1 :: u64)"
    by simp_all
  assume "mix64 x = mix64 y"
  then have "((x XOR drop_bit 30 x) * 0xBF58476D1CE4E5B9
        XOR drop_bit 27 ((x XOR drop_bit 30 x) * 0xBF58476D1CE4E5B9)) * 0x94D049BB133111EB
      = ((y XOR drop_bit 30 y) * 0xBF58476D1CE4E5B9
        XOR drop_bit 27 ((y XOR drop_bit 30 y) * 0xBF58476D1CE4E5B9)) * 0x94D049BB133111EB"
    unfolding mix64_def Let_def by (rule xor_shift_inj [of 31, rotated]) simp
  then have "(x XOR drop_bit 30 x) * 0xBF58476D1CE4E5B9 XOR drop_bit 27 ((x XOR drop_bit 30 x) * 0xBF58476D1CE4E5B9)
      = (y XOR drop_bit 30 y) * 0xBF58476D1CE4E5B9 XOR drop_bit 27 ((y XOR drop_bit 30 y) * 0xBF58476D1CE4E5B9)"
    by (rule odd_mult_inj [OF b])
  then have "(x XOR drop_bit 30 x) * 0xBF58476D1CE4E5B9 = (y XOR drop_bit 30 y) * 0xBF58476D1CE4E5B9"
    by (rule xor_shift_inj [of 27, rotated]) simp
  then have "x XOR drop_bit 30 x = y XOR drop_bit 30 y"
    by (rule odd_mult_inj [OF a])
  then show "x = y"
    by (rule xor_shift_inj [of 30, rotated]) simp
qed

text \<open>The mask generator does not repeat: within any $2^{64}$ successive frames its states are distinct,
  and so are the 64-bit words the keys are taken from.\<close>

lemma mask_generator_distinct:
  assumes "m < n" and "n < 2 ^ 64"
  shows "mask_state_after e m st \<noteq> mask_state_after e n st
      \<and> mix64 (mask_state_after e m st) \<noteq> mix64 (mask_state_after e n st)
      \<and> fst (next_mask e (mask_state_after e m st)) = key_of e (mix64 (mask_state_after e (Suc m) st))"
proof -
  have inv: "0x9E3779B97F4A7C15 * 0xF1DE83E19937733D = (1 :: u64)"
    by simp
  have "of_nat m \<noteq> (of_nat n :: u64)"
    using assms by (simp add: word_unat_eq_iff unat_of_nat)
  then have "mask_state_after e m st \<noteq> mask_state_after e n st"
    using odd_mult_inj [OF inv, of "of_nat m" "of_nat n"] by (auto simp: mask_state_after_eq)
  moreover have "fst (next_mask e (mask_state_after e m st)) = key_of e (mix64 (mask_state_after e (Suc m) st))"
    by (simp add: next_mask_eq mask_state_after_eq algebra_simps)
  ultimately show ?thesis
    using mix64_inj by blast
qed

text \<open>The low half of a word takes each value equally often.\<close>

lemma ucast_eq_iff_mod: "ucast (z :: u64) = (w :: u32) \<longleftrightarrow> unat z mod 2 ^ 32 = unat w"
  by (simp add: word_unat_eq_iff unat_ucast)

lemma card_ucast_eq: "card {z :: u64. ucast z = (w :: u32)} = 2 ^ 32"
proof -
  have w: "unat w < 2 ^ 32"
    using unsigned_less [of w, where ?'a = nat] by simp
  have z: "unat z < 2 ^ 64" for z :: u64
    using unsigned_less [of z, where ?'a = nat] by simp
  define f where "f j = (of_nat (2 ^ 32 * j + unat w) :: u64)" for j :: nat
  have unat_f: "unat (f j) = 2 ^ 32 * j + unat w" if "j < 2 ^ 32" for j
    unfolding f_def using that w by (subst unat_of_nat) simp
  have "bij_betw f {..<2 ^ 32} {z. ucast z = w}"
  proof (rule bij_betw_byWitness [where f' = "\<lambda>z. unat z div 2 ^ 32"])
    show "\<forall>j\<in>{..<2 ^ 32}. unat (f j) div 2 ^ 32 = j"
      using unat_f w by auto
    show "\<forall>z\<in>{z. ucast z = w}. f (unat z div 2 ^ 32) = z"
    proof (intro ballI)
      fix z :: u64
      assume "z \<in> {z. ucast z = w}"
      then have "2 ^ 32 * (unat z div 2 ^ 32) + unat w = unat z"
        using mult_div_mod_eq [of "2 ^ 32" "unat z"] by (simp add: ucast_eq_iff_mod)
      then show "f (unat z div 2 ^ 32) = z"
        unfolding f_def by simp
    qed
    show "f ` {..<2 ^ 32} \<subseteq> {z. ucast z = w}"
      using unat_f w by (auto simp: ucast_eq_iff_mod)
    show "(\<lambda>z :: u64. unat z div 2 ^ 32) ` {z. ucast z = w} \<subseteq> {..<2 ^ 32}"
      using z by (auto intro!: less_mult_imp_div_less)
  qed
  then show ?thesis
    by (auto dest: bij_betw_same_card)
qed

lemma key_of_eq_iff: "key_of e z = (a, b, c, d) \<longleftrightarrow> ucast z = (ne_word e [a, b, c, d] :: u32)"
proof -
  let ?out = "ne_bytes e 4 (ucast z :: u32)"
  have "?out = [?out ! 0, ?out ! 1, ?out ! 2, ?out ! 3]"
    by (rule nth_equalityI) (auto simp: less_Suc_eq numeral_eq_Suc)
  then have "key_of e z = (a, b, c, d) \<longleftrightarrow> ?out = [a, b, c, d]"
    by (auto simp: key_of_def Let_def)
  also have "\<dots> \<longleftrightarrow> ucast z = (ne_word e [a, b, c, d] :: u32)"
    using ne_bytes_ne_word [of "[a, b, c, d]" 4 e, where ?'a = 32] ne_word_ne_bytes [of 4 e "ucast z :: u32"] by auto
  finally show ?thesis .
qed

text \<open>Over its period the generator passes through every state once.\<close>

lemma mask_state_bij: "bij_betw (\<lambda>n. mask_state_after e n st) {..<2 ^ 64} UNIV"
proof -
  have inj: "inj_on (\<lambda>n. mask_state_after e n st) {..<2 ^ 64}"
    using mask_generator_distinct by (intro linorder_inj_onI) (auto simp: dest: less_imp_neq)
  then have "card ((\<lambda>n. mask_state_after e n st) ` {..<2 ^ 64}) = card (UNIV :: u64 set)"
    by (simp add: card_image card_word)
  then show ?thesis
    using inj by (simp add: bij_betw_def card_subset_eq)
qed

lemma image_Collect_mem: "g ` {x \<in> A. g x \<in> B} = g ` A \<inter> B"
  by auto

text \<open>C23: The masking keys of a client are uniform. Whatever the seed, over the period of the generator, $2^{64}$
  frames, each of the $2^{32}$ keys is used exactly $2^{32}$ times: none is left out and none is more likely than
  another.\<close>

theorem mask_keys_uniform:
  "card {n. n < 2 ^ 64 \<and> fst (next_mask e (mask_state_after e n st)) = key} = 2 ^ 32"
proof -
  obtain a b c d where key: "key = (a, b, c, d)"
    by (cases key)
  let ?g = "\<lambda>s. mix64 (s + 0x9E3779B97F4A7C15)"
  let ?ks = "{z :: u64. ucast z = (ne_word e [a, b, c, d] :: u32)}"
  have "inj ?g"
    by (intro injI) (auto dest: mix64_inj)
  then have "bij ?g"
    by (simp add: bij_def finite_UNIV_inj_surj)
  then have "bij_betw (\<lambda>n. ?g (mask_state_after e n st)) {..<2 ^ 64} UNIV"
    using bij_betw_trans [OF mask_state_bij, of ?g] by (simp add: comp_def)
  then have inj: "inj_on (\<lambda>n. ?g (mask_state_after e n st)) {..<2 ^ 64}"
    and onto: "(\<lambda>n. ?g (mask_state_after e n st)) ` {..<2 ^ 64} = UNIV"
    by (simp_all only: bij_betw_def)
  let ?ns = "{n \<in> {..<2 ^ 64}. ?g (mask_state_after e n st) \<in> ?ks}"
  have "(\<lambda>n. ?g (mask_state_after e n st)) ` ?ns = ?ks"
    using onto by (simp only: image_Collect_mem Int_UNIV_left)
  moreover have "inj_on (\<lambda>n. ?g (mask_state_after e n st)) ?ns"
    using inj by (rule inj_on_subset) auto
  ultimately have "card ?ns = card ?ks"
    using card_image [of "\<lambda>n. ?g (mask_state_after e n st)" ?ns] by argo
  then show ?thesis
    by (simp add: next_mask_eq key key_of_eq_iff card_ucast_eq)
qed

section \<open>Behaviour worth knowing\<close>

lemma write_frame_close_sent: "write_frame v c op fin payload = Some (r, c') \<Longrightarrow> c_close_sent c' = c_close_sent c"
  by (auto simp: write_frame_def role_mask_eq frame_header_eq Let_def split: option.splits prod.splits)

text \<open>A close whose write fails counts as sent: closing again succeeds without writing anything.\<close>

lemma failed_close_counts_as_sent:
  assumes "conn_close v c f = Some (Inl e, c')"
  shows "conn_close v c' g = Some (Inr (), c')"
proof -
  have "c_close_sent c'"
    using assms write_frame_close_sent [of v "note_close (MClose f) c"]
    by (auto simp: conn_close_def conn_write_def is_close_def split: if_splits prod.splits)
  then show ?thesis
    by (simp add: conn_close_def)
qed

end
