(* ===== verification/Session.thy ===== *)
theory Session
  imports Conn_Write
begin

text \<open>
  Two connections talking: what one end writes the other end reads, message for message, in either
  direction, whatever the transports do to the pieces and whichever byte order either machine has.
\<close>

section \<open>Definitions\<close>

text \<open>Reading a given number of messages.\<close>

primrec conn_reads :: "'s env \<Rightarrow> 's connection \<Rightarrow> nat \<Rightarrow> (message list \<times> 's connection) option" where
  "conn_reads v c 0 = Some ([], c)"
| "conn_reads v c (Suc n) =
     (case conn_read v c of
        Some (Inr (Some m), c') \<Rightarrow> map_option (\<lambda>(ms, c''). (m # ms, c'')) (conn_reads v c' n)
      | _ \<Rightarrow> None)"

text \<open>A message the receiver's limits and the protocol allow to be sent: its payload fits the frame
  limit and, for data, the message limit; text and reasons are valid for the receiver; control payloads
  are at most 125 bytes, a close reason two fewer; the close code may be sent.\<close>

definition deliverable :: "utf8_impl \<Rightarrow> limits \<Rightarrow> message \<Rightarrow> bool" where
  "deliverable u l m \<longleftrightarrow>
     length (snd (message_frame m)) \<le> unat (max_frame l) \<and> length (snd (message_frame m)) < 2 ^ 63
       \<and> (case m of
            MText p \<Rightarrow> is_utf8 u p \<and> length p \<le> unat (max_message l)
          | MBinary p \<Rightarrow> length p \<le> unat (max_message l)
          | MPing p \<Rightarrow> length p \<le> 125
          | MPong p \<Rightarrow> length p \<le> 125
          | MClose None \<Rightarrow> True
          | MClose (Some f) \<Rightarrow> is_sendable (cf_code f) \<and> is_utf8 u (cf_reason f) \<and> length (cf_reason f) \<le> 123)"

definition idle :: "assembler \<Rightarrow> bool" where
  "idle a \<longleftrightarrow> a_partial a = None \<and> \<not> a_closed a"

section \<open>One message\<close>

lemma idle_inv: "idle a \<Longrightarrow> assembler_inv a"
  by (simp add: idle_def assembler_inv_def)

lemma deliverable_accept:
  assumes "deliverable u (a_limits a) m" and "idle a"
  shows "assembler_accept u a (fst (message_frame m)) True (snd (message_frame m)) =
           Some (Inr (Some m), a\<lparr>a_closed := is_close m\<rparr>)"
proof (cases m)
  case (MClose f)
  have "parse_close_body u (encode_close_body f) = Inr f"
  proof (cases f)
    case (Some x)
    then show ?thesis
      using parse_encode_close_body [of u x] assms(1) MClose by (simp add: deliverable_def)
  qed (simp add: parse_close_body_def encode_close_body_def)
  then show ?thesis
    using assms MClose
    by (cases a) (simp add: message_frame_def is_close_def idle_def accept_defs Let_def)
next
  case (MPing p)
  then show ?thesis
    using assms by (cases a) (simp add: message_frame_def is_close_def idle_def accept_defs)
next
  case (MPong p)
  then show ?thesis
    using assms by (cases a) (simp add: message_frame_def is_close_def idle_def accept_defs)
next
  case (MText p)
  then show ?thesis
    using assms by (cases a) (simp add: message_frame_def is_close_def idle_def accept_defs deliverable_def)
next
  case (MBinary p)
  then show ?thesis
    using assms by (cases a) (simp add: message_frame_def is_close_def idle_def accept_defs deliverable_def)
qed

lemma deliverable_header:
  fixes key :: "mask_key option"
  assumes "deliverable u l m"
  defines "h \<equiv> \<lparr>h_fin = True, h_opcode = fst (message_frame m), h_mask = key,
                 h_payload_len = of_nat (length (snd (message_frame m)))\<rparr>"
  shows "wf_header h" and "h_payload_len h \<le> max_frame l"
    and "unat (h_payload_len h) = length (snd (message_frame m))"
proof -
  have len: "length (snd (message_frame m)) < 2 ^ 63" "length (snd (message_frame m)) \<le> unat (max_frame l)"
    using assms(1) by (simp_all add: deliverable_def)
  then show unat: "unat (h_payload_len h) = length (snd (message_frame m))"
    by (simp add: h_def unat_of_nat)
  show "h_payload_len h \<le> max_frame l"
    using len unat by (simp add: word_le_nat_alt)
  have "length (snd (message_frame m)) \<le> 125" if "is_control (fst (message_frame m))"
  proof (cases m)
    case (MClose f)
    then show ?thesis
      using assms(1) by (cases f) (simp_all add: deliverable_def message_frame_def encode_close_body_def)
  qed (use assms(1) that in \<open>auto simp: deliverable_def message_frame_def\<close>)
  then show "wf_header h"
    using len unat by (auto simp: wf_header_def word_le_nat_alt word_less_nat_alt h_def)
qed

lemma unmasked_wire:
  "unmasked v h (case h_mask h of None \<Rightarrow> p | Some k \<Rightarrow> fst (mask_apply e p k 0)) = p"
  by (auto simp: unmasked_def mask_apply_stream xor_stream_twice split: option.split)

lemma cut_frame_wire:
  assumes "deliverable (v_utf8 v) (a_limits a) m" and "idle a" and "(role = Client) = (key = None)"
  shows "\<exists>h q. cut_frame role (max_frame (a_limits a))
            (wire_frame w key (fst (message_frame m)) True (snd (message_frame m)) @ rest) = Frame h q rest
     \<and> assembler_accept (v_utf8 v) a (h_opcode h) (h_fin h) (unmasked v h q)
         = Some (Inr (Some m), a\<lparr>a_closed := is_close m\<rparr>)"
proof -
  let ?p = "snd (message_frame m)"
  let ?h = "\<lparr>h_fin = True, h_opcode = fst (message_frame m), h_mask = key, h_payload_len = of_nat (length ?p)\<rparr>"
  let ?q = "case key of None \<Rightarrow> ?p | Some k \<Rightarrow> fst (mask_apply (v_endian w) ?p k 0)"
  note h = deliverable_header [OF assms(1), of key]
  have q: "length ?q = length ?p"
    by (simp add: word_mask.masked_length split: option.split)
  have "\<not> masking_violation role key"
    using assms(3) by (cases role; cases key) (simp_all add: masking_violation_def)
  moreover have "header_decode (header_bytes ?h @ ?q @ rest) (max_frame (a_limits a)) = Inr (Inr (?h, encoded_len ?h))"
    using header_decode_bytes [OF h(1,2)] .
  ultimately have "cut_frame role (max_frame (a_limits a)) (header_bytes ?h @ ?q @ rest) = Frame ?h ?q rest"
    using h(3) q by (simp add: cut_frame_def)
  moreover have "unmasked v ?h ?q = ?p"
    using unmasked_wire [of v ?h ?p "v_endian w"] by simp
  ultimately show ?thesis
    using deliverable_accept [OF assms(1,2)] by (intro exI [of _ ?h] exI [of _ ?q]) (simp add: wire_frame_def)
qed

lemma consume_wire:
  assumes "deliverable (v_utf8 v) (a_limits a) m" and "idle a" and "(role = Client) = (key = None)"
  shows "consume v role a (wire_frame w key (fst (message_frame m)) True (snd (message_frame m)) @ rest) =
           Some (Inr (Some m), a\<lparr>a_closed := is_close m\<rparr>, rest)"
  using cut_frame_wire [OF assms, of w rest] by (auto simp: consume.simps [of v role a])

lemma frame_key_role: "(fst (frame_key v role st) = None) = (role = Server)"
  by (cases role) (simp_all add: frame_key_def)

section \<open>A conversation\<close>

context connection_env
begin

lemma conn_read_wire:
  assumes "deliverable (v_utf8 v) (a_limits (c_assembler c)) m" and "idle (c_assembler c)"
    and "(c_role c = Client) = (key = None)"
    and "unread c = wire_frame w key (fst (message_frame m)) True (snd (message_frame m)) @ rest"
  shows "\<exists>c'. conn_read v c = Some (Inr (Some m), c') \<and> unread c' = rest \<and> write_side c' = write_side c
      \<and> c_assembler c' = (c_assembler c)\<lparr>a_closed := is_close m\<rparr>"
  using conn_read_refines [OF idle_inv [OF assms(2)]] consume_wire [OF assms(1,2,3), of w rest] assms(4)
  by (auto simp: read_spec_def)

lemma conn_reads_wire:
  "idle (c_assembler c) \<Longrightarrow> list_all (deliverable (v_utf8 v) (a_limits (c_assembler c))) ms \<Longrightarrow>
     \<not> list_ex is_close (butlast ms) \<Longrightarrow> role \<noteq> c_role c \<Longrightarrow>
     unread c = fst (wire_messages w role st ms) \<Longrightarrow>
     \<exists>c'. conn_reads v c (length ms) = Some (ms, c') \<and> unread c' = [] \<and> write_side c' = write_side c
       \<and> c_assembler c' = (c_assembler c)\<lparr>a_closed := list_ex is_close ms\<rparr>"
proof (induction ms arbitrary: c st)
  case Nil
  then show ?case
    by (cases "c_assembler c") (simp add: idle_def)
next
  case (Cons m ms)
  let ?key = "fst (frame_key w role st)"
  have key: "(c_role c = Client) = (?key = None)"
    using Cons.prems(4) frame_key_role [of w role st] by (cases role; cases "c_role c") auto
  have "unread c = wire_frame w ?key (fst (message_frame m)) True (snd (message_frame m))
      @ fst (wire_messages w role (snd (frame_key w role st)) ms)"
    using Cons.prems(5) by (simp add: split_def Let_def)
  from conn_read_wire [OF _ Cons.prems(1) key this] Cons.prems(2) obtain c1 where
    c1: "conn_read v c = Some (Inr (Some m), c1)" "write_side c1 = write_side c"
      "unread c1 = fst (wire_messages w role (snd (frame_key w role st)) ms)"
      "c_assembler c1 = (c_assembler c)\<lparr>a_closed := is_close m\<rparr>"
    by auto
  show ?case
  proof (cases "ms = []")
    case True
    then show ?thesis
      using c1 by simp
  next
    case False
    then have "\<not> is_close m" "\<not> list_ex is_close (butlast ms)"
      using Cons.prems(3) by auto
    moreover have "c_role c1 = c_role c"
      using c1(2) by (simp add: write_side_def)
    ultimately obtain c2 where "conn_reads v c1 (length ms) = Some (ms, c2)" "unread c2 = []"
      "write_side c2 = write_side c1" "c_assembler c2 = (c_assembler c1)\<lparr>a_closed := list_ex is_close ms\<rparr>"
      using Cons.IH [of c1 "snd (frame_key w role st)"] Cons.prems c1 by (auto simp: idle_def)
    then show ?thesis
      using c1 \<open>\<not> is_close m\<close> by simp
  qed
qed

lemma conn_read_end:
  assumes "assembler_inv (c_assembler c)" and "unread c = []"
  shows "\<exists>c'. conn_read v c = Some (if a_closed (c_assembler c) then Inr None else Inl EUnexpectedEof, c')"
proof -
  have "cut_frame (c_role c) (max_frame (a_limits (c_assembler c))) [] = Short"
    by (simp add: cut_frame_def header_decode_def)
  then have "consume v (c_role c) (c_assembler c) [] = Some (Inr None, c_assembler c, [])"
    by (simp add: consume.simps [of v "c_role c"])
  then show ?thesis
    using conn_read_refines [OF assms(1)] assms(2) by (auto simp: read_spec_def)
qed

end

section \<open>Properties\<close>

text \<open>C3: What one end writes, the other end reads: messages the receiver's limits allow, written in one
  batch by a client or a server, with a close only at the end, are read by the other role one by one,
  equal and in order, over any lossless transport, whatever the byte orders and however the bytes are
  cut into pieces. After them the reader sees a clean end if the last message was a close, and an
  unexpected end otherwise.\<close>

theorem messages_delivered:
  assumes "connection_env vw incw sentw" and "connection_env vr incr sentr"
    and "c_role cw \<noteq> c_role cr" and "idle (c_assembler cr)"
    and "list_all (deliverable (v_utf8 vr) (a_limits (c_assembler cr))) ms" and "\<not> list_ex is_close (butlast ms)"
    and "conn_write_all vw cw ms = Some (r, cw')"
    and "sentw (c_stream cw') = sentw (c_stream cw) @ c_data cr @ incr (c_stream cr)"
  shows "r = Inr () \<and> (\<exists>cr' cr''. conn_reads vr cr (length ms) = Some (ms, cr')
      \<and> conn_read vr cr' = Some (if list_ex is_close ms then Inr None else Inl EUnexpectedEof, cr''))"
proof -
  obtain c1 where "conn_write_all vw cw ms = Some (Inr (), c1)"
    "sentw (c_stream c1) = sentw (c_stream cw) @ fst (wire_messages vw (c_role cw) (c_mask_state cw) ms)"
    using connection_env.conn_write_all_sends [OF assms(1), of cw ms]
    by (auto simp: connection_env.sends_def [OF assms(1)])
  then have r: "r = Inr ()"
    and "connection_env.unread incr cr = fst (wire_messages vw (c_role cw) (c_mask_state cw) ms)"
    using assms(7,8) by (simp_all add: connection_env.unread_def [OF assms(2)])
  from connection_env.conn_reads_wire [OF assms(2,4,5,6,3) this(2)] obtain cr' where
    cr': "conn_reads vr cr (length ms) = Some (ms, cr')" "connection_env.unread incr cr' = []"
      "c_assembler cr' = (c_assembler cr)\<lparr>a_closed := list_ex is_close ms\<rparr>"
    by blast
  have "assembler_inv (c_assembler cr')"
    using assms(4) cr'(3) by (simp add: idle_def assembler_inv_def)
  from connection_env.conn_read_end [OF assms(2) this cr'(2)] show ?thesis
    using r cr' by auto
qed

theorem messages_delivered_witness:
  "\<exists>cw' cr cr'. conn_write_all (pipe_env Little Std)
        (connection_new (pipe_env Little Std) [1, 2] \<lparr>p_pieces = [], p_sent = []\<rparr> Client default_limits)
        [MText [104, 105], MClose None] = Some (Inr (), cw')
    \<and> cr = connection_new (pipe_env Big Std) [] \<lparr>p_pieces = map (\<lambda>b. [b]) (p_sent (c_stream cw')), p_sent = []\<rparr>
              Server default_limits
    \<and> conn_reads (pipe_env Big Std) cr 2 = Some ([MText [104, 105], MClose None], cr')"
proof -
  let ?cw = "connection_new (pipe_env Little Std) [1, 2] \<lparr>p_pieces = [], p_sent = []\<rparr> Client default_limits"
  obtain cw' where cw': "conn_write_all (pipe_env Little Std) ?cw [MText [104, 105], MClose None] = Some (Inr (), cw')"
    using pipe_env.conn_write_all_sends [of Little Std ?cw] by blast
  let ?cr = "connection_new (pipe_env Big Std) [] \<lparr>p_pieces = map (\<lambda>b. [b]) (p_sent (c_stream cw')), p_sent = []\<rparr>
      Server default_limits"
  have "Inr () = (Inr () :: conn_error + unit) \<and> (\<exists>cr' cr''. conn_reads (pipe_env Big Std) ?cr (length [MText [104, 105], MClose None])
        = Some ([MText [104, 105], MClose None], cr')
      \<and> conn_read (pipe_env Big Std) cr' = Some (if list_ex is_close [MText [104, 105], MClose None] then Inr None
           else Inl EUnexpectedEof, cr''))"
  proof (rule messages_delivered [OF pipe_env.connection_env_axioms pipe_env.connection_env_axioms _ _ _ _ cw'])
    show "p_sent (c_stream cw') = p_sent (c_stream ?cw) @ c_data ?cr @ pipe_incoming (c_stream ?cr)"
      by (simp add: connection_new_def with_buffered_def pipe_incoming_def)
  qed (simp_all add: connection_new_def with_buffered_def assembler_new_def idle_def deliverable_def message_frame_def
    encode_close_body_def default_limits_def pipe_env_def is_close_def utf8_valid.simps)
  then show ?thesis
    using cw' by (auto simp: numeral_2_eq_2)
qed

end
