(* ===== verification/Duplex.thy ===== *)
theory Duplex
  imports Session
begin

text \<open>
  A connection in use: any sequence of its operations, reads and writes interleaved as the caller likes.
  The operations are the steps of a transition relation labelled with what was read and written; what
  holds of every run is shown by rule induction.
\<close>

section \<open>Runs\<close>

datatype event =
    Got "conn_error + message option"
  | Put "message list"
  | Broken "message list" conn_error

text \<open>One call of an operation. A close after a close puts nothing. A write that fails has still used up
  the masks of its frames.\<close>

inductive conn_step :: "'s env \<Rightarrow> 's connection \<Rightarrow> event \<Rightarrow> 's connection \<Rightarrow> bool" for v where
  reads: "conn_read v c = Some (r, c') \<Longrightarrow> conn_step v c (Got r) c'"
| writes: "conn_write v c m = Some (Inr u, c') \<Longrightarrow> conn_step v c (Put [m]) c'"
| writes_all: "conn_write_all v c ms = Some (Inr u, c') \<Longrightarrow> conn_step v c (Put ms) c'"
| pongs: "conn_pong v c p = Some (Inr u, c') \<Longrightarrow> conn_step v c (Put [MPong p]) c'"
| closes: "conn_close v c f = Some (Inr u, c') \<Longrightarrow>
            conn_step v c (Put (if c_close_sent c then [] else [MClose f])) c'"
| write_fails: "conn_write v c m = Some (Inl e, c') \<Longrightarrow> conn_step v c (Broken [m] e) c'"
| write_all_fails: "conn_write_all v c ms = Some (Inl e, c') \<Longrightarrow> conn_step v c (Broken ms e) c'"
| pong_fails: "conn_pong v c p = Some (Inl e, c') \<Longrightarrow> conn_step v c (Broken [MPong p] e) c'"
| close_fails: "conn_close v c f = Some (Inl e, c') \<Longrightarrow> conn_step v c (Broken [MClose f] e) c'"

inductive_cases conn_stepE: "conn_step v c e c'"

inductive conn_run :: "'s env \<Rightarrow> 's connection \<Rightarrow> event list \<Rightarrow> 's connection \<Rightarrow> bool" for v where
  stop: "conn_run v c [] c"
| step: "conn_run v c es c1 \<Longrightarrow> conn_step v c1 e c2 \<Longrightarrow> conn_run v c (es @ [e]) c2"


text \<open>What it has tried to write.\<close>

definition attempts :: "event list \<Rightarrow> message list" where
  "attempts es = concat (map (\<lambda>e. case e of Put ms \<Rightarrow> ms | Broken ms _ \<Rightarrow> ms | Got _ \<Rightarrow> []) es)"




lemma attempts_snoc:
  "attempts (es @ [e]) = attempts es @ (case e of Put ms \<Rightarrow> ms | Broken ms _ \<Rightarrow> ms | Got _ \<Rightarrow> [])"
  by (simp add: attempts_def)



section \<open>Runs over a lossless transport\<close>


section \<open>Runs over any transport\<close>

text \<open>A transport with a record of the bytes it has been handed, in the order it was handed them, whatever
  then became of the write. Nothing is promised of what the operations return.\<close>

locale write_log =
  fixes v :: "'s env" and offered :: "'s \<Rightarrow> bytes"
  assumes read_offers: "sx_read_buf (v_stream v) s b = (r, b', s') \<Longrightarrow> offered s' = offered s"
    and write_all_offers: "sx_write_all (v_stream v) s xs = (q, s') \<Longrightarrow> offered s' = offered s @ xs"
    and vectored_offers:
      "sx_write_all_vectored (v_stream v) s header payload = (q, s') \<Longrightarrow> offered s' = offered s @ header @ payload"

text \<open>Any transport can be given the record, and is otherwise as it was.\<close>

definition logged :: "'s stream_ext \<Rightarrow> ('s \<times> bytes) stream_ext" where
  "logged sx =
     \<lparr>sx_read_buf = (\<lambda>(s, log) b. case sx_read_buf sx s b of (r, b', s') \<Rightarrow> (r, b', s', log)),
      sx_write_all = (\<lambda>(s, log) xs. case sx_write_all sx s xs of (r, s') \<Rightarrow> (r, s', log @ xs)),
      sx_write_all_vectored = (\<lambda>(s, log) header payload.
        case sx_write_all_vectored sx s header payload of (r, s') \<Rightarrow> (r, s', log @ header @ payload))\<rparr>"

definition logged_env :: "'s env \<Rightarrow> ('s \<times> bytes) env" where
  "logged_env v =
     \<lparr>v_endian = v_endian v, v_utf8 = v_utf8 v, v_alloc = v_alloc v, v_stream = logged (v_stream v)\<rparr>"

interpretation logged: write_log "logged_env v" snd for v
  by unfold_locales (auto simp: logged_env_def logged_def split: prod.splits)


text \<open>What the parse loop and the stream's reads keep, a read keeps.\<close>

lemma conn_read_keeps:
  assumes "conn_read v c = Some rc" and "I c"
    and "\<And>c r c1. I c \<Longrightarrow> parse_buffered v c = Some (r, c1) \<Longrightarrow> I c1"
    and "\<And>c b r b' s'. I c \<Longrightarrow> sx_read_buf (v_stream v) (c_stream c) b = (r, b', s')
           \<Longrightarrow> I (c\<lparr>c_read_buffer := b', c_stream := s'\<rparr>)"
  shows "I (snd rc)"
  using assms(2-)
proof (induct rule: conn_read.raw_induct [OF _ assms(1), consumes 0, case_names step])
  case (step rec v c rc)
  obtain r c1 where parse: "parse_buffered v c = Some (r, c1)"
    using step(2) by (cases "parse_buffered v c") auto
  then have c1: "I c1"
    using step(3,4) by blast
  consider e where "r = Inl e" | m where "r = Inr (Some m)" | "r = Inr None"
    by (metis option.exhaust sum.exhaust)
  then show ?case
  proof cases
    case 3
    obtain rd b' s' where read: "sx_read_buf (v_stream v) (c_stream c1)
        (bm_reserve (v_alloc v) READ_CHUNK (c_read_buffer c1)) = (rd, b', s')"
      by (metis prod.exhaust)
    then have c2: "I (c1\<lparr>c_read_buffer := b', c_stream := s'\<rparr>)"
      using step(5) c1 by blast
    have "I (snd rc)" if "rec v (c1\<lparr>c_read_buffer := b', c_stream := s'\<rparr>) = Some rc"
      using step(4,5) by (rule step(1) [OF that c2])
    then show ?thesis
      using step(2) c2 parse read 3
      by (auto simp: Let_def split: sum.splits if_splits option.splits)
  qed (use step(2) parse c1 in auto)
qed

text \<open>What the operations leave alone, hand over and use up.\<close>

context write_log
begin

definition spends :: "'s connection \<Rightarrow> 's connection \<Rightarrow> message list \<Rightarrow> bool" where
  "spends c c' ms \<longleftrightarrow>
     c_role c' = c_role c \<and> c_mask_state c' = snd (wire_messages v (c_role c) (c_mask_state c) ms)
       \<and> offered (c_stream c') = offered (c_stream c) @ fst (wire_messages v (c_role c) (c_mask_state c) ms)
       \<and> c_close_sent c' = (c_close_sent c \<or> list_ex is_close ms)"

lemma spends_refl: "spends c c []"
  by (simp add: spends_def)

lemma spends_trans: "spends c c1 ms \<Longrightarrow> spends c1 c2 ns \<Longrightarrow> spends c c2 (ms @ ns)"
  by (auto simp: spends_def wire_messages_append)

lemma write_frame_spends:
  assumes "write_frame v c op fin payload = Some (r, c')"
  shows "c_assembler c' = c_assembler c \<and> c_role c' = c_role c \<and> c_close_sent c' = c_close_sent c
     \<and> c_mask_state c' = snd (frame_key v (c_role c) (c_mask_state c))
     \<and> offered (c_stream c') = offered (c_stream c)
          @ wire_frame v (fst (frame_key v (c_role c) (c_mask_state c))) op fin payload"
  using assms
  by (auto simp: write_frame_def role_mask_eq frame_header_eq wire_frame_def Let_def
      dest!: vectored_offers split: option.splits prod.splits)

lemma conn_write_spends:
  "conn_write v c m = Some (r, c') \<Longrightarrow> c_assembler c' = c_assembler c \<and> spends c c' [m]"
  by (auto simp: conn_write_def spends_def split_def Let_def dest!: write_frame_spends)

lemma conn_pong_spends:
  "conn_pong v c p = Some (r, c') \<Longrightarrow> c_assembler c' = c_assembler c \<and> spends c c' [MPong p]"
  by (auto simp: conn_pong_def spends_def split_def Let_def is_close_def message_frame_def dest!: write_frame_spends)

lemma conn_write_all_spends:
  "conn_write_all v c ms = Some (r, c') \<Longrightarrow> c_assembler c' = c_assembler c \<and> spends c c' ms"
  by (auto simp: conn_write_all_def encode_all_eq spends_def Let_def dest!: write_all_offers
      split: prod.splits if_splits)

lemma conn_close_spends:
  "conn_close v c f = Some (r, c') \<Longrightarrow>
     c_assembler c' = c_assembler c \<and> spends c c' (if c_close_sent c then [] else [MClose f])
     \<and> (c_close_sent c \<longrightarrow> r = Inr ())"
  by (auto simp: conn_close_def spends_refl dest!: conn_write_spends split: if_splits)

lemma conn_read_spends:
  assumes "conn_read v c = Some (r, c')"
  shows "spends c c' []"
proof -
  have "spends c (snd (r, c')) []"
  proof (rule conn_read_keeps [OF assms, of "\<lambda>x. spends c x []"])
    fix x r' x1
    assume "spends c x []" "parse_buffered v x = Some (r', x1)"
    then show "spends c x1 []"
      using parse_buffered_refines [of v x] by (auto simp: spends_def same_rest_def)
  next
    fix x b r' b' s'
    assume "spends c x []" "sx_read_buf (v_stream v) (c_stream x) b = (r', b', s')"
    then show "spends c (x\<lparr>c_read_buffer := b', c_stream := s'\<rparr>) []"
      using read_offers by (auto simp: spends_def)
  qed (rule spends_refl)
  then show ?thesis
    by simp
qed

lemma step_spends:
  assumes "conn_step v c e c'"
  shows "spends c c' (attempts [e]) \<and> ((\<forall>r. e \<noteq> Got r) \<longrightarrow> c_assembler c' = c_assembler c)"
  using assms
proof (cases rule: conn_step.cases)
  case (reads r)
  then show ?thesis
    using conn_read_spends by (auto simp: attempts_def)
qed (use conn_write_spends conn_write_all_spends conn_pong_spends conn_close_spends in
      \<open>auto simp: attempts_def split: if_splits
        dest: conn_write_spends conn_write_all_spends conn_pong_spends conn_close_spends\<close>)

lemma run_spends:
  assumes "conn_run v c es c'" and "utf8_build (v_utf8 v)" and "assembler_inv (c_assembler c)"
  shows "assembler_inv (c_assembler c') \<and> a_limits (c_assembler c') = a_limits (c_assembler c)
     \<and> spends c c' (attempts es)
     \<and> (\<forall>m. Got (Inr (Some m)) \<in> set es \<longrightarrow> message_ok (a_limits (c_assembler c)) m)"
  using assms
proof (induction rule: conn_run.induct)
  case (stop c)
  then show ?case
    by (simp add: spends_refl attempts_def)
next
  case (step c es c1 e c2)
  then have IH: "assembler_inv (c_assembler c1)" "a_limits (c_assembler c1) = a_limits (c_assembler c)"
    "spends c c1 (attempts es)" "\<forall>m. Got (Inr (Some m)) \<in> set es \<longrightarrow> message_ok (a_limits (c_assembler c)) m"
    by simp_all
  have spent: "spends c c2 (attempts (es @ [e]))"
    using spends_trans [OF IH(3), of c2 "attempts [e]"] step_spends [OF step.hyps(2)] by (simp add: attempts_def)
  show ?case
  proof (cases "\<exists>r. e = Got r")
    case True
    then obtain r where r: "e = Got r" "conn_read v c1 = Some (r, c2)"
      using step.hyps(2) by (auto elim: conn_stepE)
    then show ?thesis
      using conn_read_safe_aux [OF r(2) step.prems(1) IH(1)] IH spent by auto
  next
    case False
    then show ?thesis
      using step_spends [OF step.hyps(2)] IH spent by auto
  qed
qed

end





section \<open>Properties\<close>






end
