(* ===== verification/Channel.thy ===== *)
theory Channel
  imports Session
begin

text \<open>
  Two connections and the bytes between them, with everything that can happen in between: messages
  written, bytes arriving in pieces of any size, the receiver's parse loop run at any moment, on whatever
  has arrived. The whole refines a queue of messages.
\<close>

section \<open>The link and the queue\<close>

datatype label =
    Sent message
  | Received message
  | Failed conn_error
  | Silent

text \<open>The sender, the bytes in flight, the receiver.\<close>

record ('s, 't) link =
  l_sender :: "'s connection"
  l_flight :: bytes
  l_receiver :: "'t connection"

inductive link_step :: "'s env \<Rightarrow> ('s \<Rightarrow> bytes) \<Rightarrow> 't env \<Rightarrow> ('s, 't) link \<Rightarrow> label \<Rightarrow> ('s, 't) link \<Rightarrow> bool"
  for vw sent vr where
  send: "conn_write vw (l_sender s) m = Some (Inr u, cw) \<Longrightarrow> sent (c_stream cw) = sent (c_stream (l_sender s)) @ bs \<Longrightarrow>
           link_step vw sent vr s (Sent m) (s\<lparr>l_sender := cw, l_flight := l_flight s @ bs\<rparr>)"
| arrive: "l_flight s = xs @ ys \<Longrightarrow> cr = l_receiver s \<Longrightarrow>
           link_step vw sent vr s Silent
             (s\<lparr>l_flight := ys, l_receiver := cr\<lparr>c_read_buffer := bm_extend (v_alloc vr) xs (c_read_buffer cr)\<rparr>\<rparr>)"
| take: "parse_buffered vr (l_receiver s) = Some (Inr (Some m), cr) \<Longrightarrow>
           link_step vw sent vr s (Received m) (s\<lparr>l_receiver := cr\<rparr>)"
| starve: "parse_buffered vr (l_receiver s) = Some (Inr None, cr) \<Longrightarrow>
           link_step vw sent vr s Silent (s\<lparr>l_receiver := cr\<rparr>)"
| fail: "parse_buffered vr (l_receiver s) = Some (Inl e, cr) \<Longrightarrow>
           link_step vw sent vr s (Failed e) (s\<lparr>l_receiver := cr\<rparr>)"

inductive link_run :: "'s env \<Rightarrow> ('s \<Rightarrow> bytes) \<Rightarrow> 't env \<Rightarrow> ('s, 't) link \<Rightarrow> label list \<Rightarrow> ('s, 't) link \<Rightarrow> bool"
  for vw sent vr where
  stop: "link_run vw sent vr s [] s"
| step: "link_run vw sent vr s tr s1 \<Longrightarrow> link_step vw sent vr s1 l s2 \<Longrightarrow> link_run vw sent vr s (tr @ [l]) s2"

text \<open>The specification: a queue. It never fails.\<close>

inductive queue_step :: "message list \<Rightarrow> label \<Rightarrow> message list \<Rightarrow> bool" where
  enqueue: "queue_step q (Sent m) (q @ [m])"
| dequeue: "queue_step (m # q) (Received m) q"
| idle: "queue_step q Silent q"

inductive queue_run :: "message list \<Rightarrow> label list \<Rightarrow> message list \<Rightarrow> bool" where
  stop: "queue_run q [] q"
| step: "queue_run q tr q1 \<Longrightarrow> queue_step q1 l q2 \<Longrightarrow> queue_run q (tr @ [l]) q2"

definition all_sent :: "label list \<Rightarrow> message list" where
  "all_sent tr = concat (map (\<lambda>l. case l of Sent m \<Rightarrow> [m] | _ \<Rightarrow> []) tr)"

definition all_received :: "label list \<Rightarrow> message list" where
  "all_received tr = concat (map (\<lambda>l. case l of Received m \<Rightarrow> [m] | _ \<Rightarrow> []) tr)"

lemma all_sent_snoc: "all_sent (tr @ [l]) = all_sent tr @ (case l of Sent m \<Rightarrow> [m] | _ \<Rightarrow> [])"
  by (simp add: all_sent_def)

lemma all_received_snoc: "all_received (tr @ [l]) = all_received tr @ (case l of Received m \<Rightarrow> [m] | _ \<Rightarrow> [])"
  by (simp add: all_received_def)

text \<open>A queue hands out what was put in, in order.\<close>

lemma queue_run_fifo: "queue_run q tr q' \<Longrightarrow> q @ all_sent tr = all_received tr @ q'"
proof (induction rule: queue_run.induct)
  case (step q tr q1 l q2)
  then show ?case
    by (auto simp: all_sent_snoc all_received_snoc elim!: queue_step.cases)
qed (simp add: all_sent_def all_received_def)

section \<open>The simulation\<close>

text \<open>A queue stands for a link when the bytes that have arrived and those in flight are together the frames
  of its messages, and the receiver is between messages.\<close>

definition stands_for :: "'s env \<Rightarrow> limits \<Rightarrow> ('s, 't) link \<Rightarrow> message list \<Rightarrow> bool" where
  "stands_for vw limits s q \<longleftrightarrow>
     (\<exists>st. c_data (l_receiver s) @ l_flight s = fst (wire_messages vw (c_role (l_sender s)) st q)
         \<and> c_mask_state (l_sender s) = snd (wire_messages vw (c_role (l_sender s)) st q))
     \<and> c_role (l_sender s) \<noteq> c_role (l_receiver s)
     \<and> a_partial (c_assembler (l_receiver s)) = None \<and> a_limits (c_assembler (l_receiver s)) = limits
     \<and> (a_closed (c_assembler (l_receiver s)) \<longrightarrow> q = [])"

text \<open>The parse loop on a part of the frames of the queue: it delivers the first message or waits.\<close>

lemma consume_part:
  assumes "data @ later = wire_frame w key (fst (message_frame m)) True (snd (message_frame m)) @ rest"
    and "deliverable (v_utf8 v) (a_limits a) m" and "idle a" and "(role = Client) = (key = None)"
  shows "consume v role a data = Some (Inr None, a, data)
    \<or> (\<exists>rest'. consume v role a data = Some (Inr (Some m), a\<lparr>a_closed := is_close m\<rparr>, rest') \<and> rest' @ later = rest)"
proof (cases "cut_frame role (max_frame (a_limits a)) data = Short")
  case True
  then show ?thesis
    by (simp add: consume.simps [of v role a data])
next
  case False
  obtain h q where "cut_frame role (max_frame (a_limits a)) (data @ later) = Frame h q rest"
    and accept: "assembler_accept (v_utf8 v) a (h_opcode h) (h_fin h) (unmasked v h q)
        = Some (Inr (Some m), a\<lparr>a_closed := is_close m\<rparr>)"
    unfolding assms(1) using cut_frame_wire [OF assms(2-4)] by blast
  then obtain tail where "cut_frame role (max_frame (a_limits a)) data = Frame h q tail" "tail @ later = rest"
    using cut_frame_append [OF False, of later]
    by (cases "cut_frame role (max_frame (a_limits a)) data") simp_all
  then show ?thesis
    using accept by (simp add: consume.simps [of v role a data])
qed

text \<open>The messages still in a queue, for a receiver with the given limits and validator: all deliverable,
  and nothing after a close.\<close>

definition sendable_queue :: "utf8_impl \<Rightarrow> limits \<Rightarrow> message list \<Rightarrow> bool" where
  "sendable_queue u limits q \<longleftrightarrow> list_all (deliverable u limits) q \<and> \<not> list_ex is_close (butlast q)"

lemma sendable_queue_append: "sendable_queue u limits (p @ q) \<Longrightarrow> sendable_queue u limits q"
  by (cases "q = []") (auto simp: sendable_queue_def butlast_append)

lemma sendable_queue_prefix: "sendable_queue u limits (p @ q) \<Longrightarrow> sendable_queue u limits p"
  by (cases "q = []") (auto simp: sendable_queue_def butlast_append list_ex_iff dest: in_set_butlastD)

lemma link_parse:
  assumes "stands_for vw limits s q" and "sendable_queue (v_utf8 vr) limits q"
  shows "\<exists>r cr. parse_buffered vr (l_receiver s) = Some (r, cr)
     \<and> ((r = Inr None \<and> stands_for vw limits (s\<lparr>l_receiver := cr\<rparr>) q \<and> c_data cr = c_data (l_receiver s)
           \<and> a_closed (c_assembler cr) = a_closed (c_assembler (l_receiver s)))
        \<or> (\<exists>m q'. q = m # q' \<and> r = Inr (Some m) \<and> stands_for vw limits (s\<lparr>l_receiver := cr\<rparr>) q'
             \<and> a_closed (c_assembler cr) = is_close m))"
proof -
  let ?c = "l_receiver s" and ?role = "c_role (l_sender s)"
  obtain st where st: "c_data ?c @ l_flight s = fst (wire_messages vw ?role st q)"
    "c_mask_state (l_sender s) = snd (wire_messages vw ?role st q)"
    and s: "?role \<noteq> c_role ?c" "a_partial (c_assembler ?c) = None" "a_limits (c_assembler ?c) = limits"
      "a_closed (c_assembler ?c) \<longrightarrow> q = []"
    using assms(1) by (auto simp: stands_for_def)
  have inv: "assembler_inv (c_assembler ?c)"
    using s(2) by (simp add: assembler_inv_def)
  obtain r a' rest where consumed: "consume vr (c_role ?c) (c_assembler ?c) (c_data ?c) = Some (r, a', rest)"
    using consume_inv [OF inv] by blast
  then obtain cr where cr: "parse_buffered vr ?c = Some (r, cr)" "c_assembler cr = a'" "c_data cr = rest" "same_rest ?c cr"
    using parse_buffered_refines [of vr ?c] by (auto split: option.splits)
  have waits: ?thesis if "r = Inr None" "a' = c_assembler ?c" "rest = c_data ?c"
    using that cr st s by (auto simp: stands_for_def same_rest_def intro!: exI [of _ st])
  show ?thesis
  proof (cases q)
    case Nil
    then have "c_data ?c = []"
      using st(1) by simp
    then have "consume vr (c_role ?c) (c_assembler ?c) (c_data ?c) = Some (Inr None, c_assembler ?c, c_data ?c)"
      by (simp add: consume.simps [of vr "c_role ?c"] cut_frame_def header_decode_def)
    then show ?thesis
      using waits consumed by simp
  next
    case (Cons m q')
    let ?key = "fst (frame_key vw ?role st)" and ?st = "snd (frame_key vw ?role st)"
    have wire: "c_data ?c @ l_flight s = wire_frame vw ?key (fst (message_frame m)) True (snd (message_frame m))
        @ fst (wire_messages vw ?role ?st q')" "c_mask_state (l_sender s) = snd (wire_messages vw ?role ?st q')"
      using st Cons by (simp_all add: split_def Let_def)
    have "(c_role ?c = Client) = (?key = None)"
      using s(1) frame_key_role [of vw ?role st] by (cases "c_role ?c"; cases ?role) simp_all
    moreover have "deliverable (v_utf8 vr) (a_limits (c_assembler ?c)) m" "idle (c_assembler ?c)"
      using assms(2) s Cons by (simp_all add: sendable_queue_def idle_def)
    ultimately consider "r = Inr None" "a' = c_assembler ?c" "rest = c_data ?c"
      | "r = Inr (Some m)" "a' = (c_assembler ?c)\<lparr>a_closed := is_close m\<rparr>"
        "rest @ l_flight s = fst (wire_messages vw ?role ?st q')"
      using consume_part [OF wire(1), of vr "c_assembler ?c" "c_role ?c"] consumed by auto
    then show ?thesis
    proof cases
      case 2
      have "is_close m \<longrightarrow> q' = []"
        using assms(2) Cons by (auto simp: sendable_queue_def split: if_splits)
      then have "stands_for vw limits (s\<lparr>l_receiver := cr\<rparr>) q'"
        using 2 cr s wire(2) by (auto simp: stands_for_def same_rest_def intro!: exI [of _ ?st])
      then show ?thesis
        using 2 cr Cons by auto
    qed (use waits in blast)
  qed
qed

lemma link_run_simulates:
  assumes "connection_env vw inc sent" and "link_run vw sent vr s tr s'"
    and "stands_for vw limits s []" and "\<not> a_closed (c_assembler (l_receiver s))"
    and "sendable_queue (v_utf8 vr) limits (all_sent tr)"
  shows "\<exists>q. queue_run [] tr q \<and> stands_for vw limits s' q
     \<and> a_closed (c_assembler (l_receiver s')) = list_ex is_close (all_received tr)"
  using assms(2-5)
proof (induction rule: link_run.induct)
  case (stop s)
  then show ?case
    using queue_run.stop by (auto simp: all_received_def)
next
  case (step s tr s1 l s2)
  have ok: "sendable_queue (v_utf8 vr) limits (all_sent tr)"
    using step.prems(3) sendable_queue_prefix by (simp add: all_sent_snoc)
  then obtain q where q: "queue_run [] tr q" "stands_for vw limits s1 q"
    "a_closed (c_assembler (l_receiver s1)) = list_ex is_close (all_received tr)"
    using step.IH step.prems by blast
  have fifo: "all_sent tr = all_received tr @ q"
    using queue_run_fifo [OF q(1)] by simp
  then have ok_q: "sendable_queue (v_utf8 vr) limits q"
    using ok sendable_queue_append by simp
  note parse = link_parse [OF q(2) ok_q]
  note next_run = queue_run.step [OF q(1)]
  from step.hyps(2) show ?case
  proof cases
    case (send m u cw bs)
    have sends: "connection_env.sends vw inc sent (l_sender s1) cw [m]"
      using connection_env.conn_write_sends [OF assms(1), of "l_sender s1" m] send by auto
    then have cw: "c_role cw = c_role (l_sender s1)"
      "bs = fst (wire_messages vw (c_role (l_sender s1)) (c_mask_state (l_sender s1)) [m])"
      "c_mask_state cw = snd (wire_messages vw (c_role (l_sender s1)) (c_mask_state (l_sender s1)) [m])"
      using send by (simp_all add: connection_env.sends_def [OF assms(1)])
    have "\<not> list_ex is_close (all_sent tr)"
      using step.prems(3) send by (simp add: all_sent_snoc sendable_queue_def)
    then have "\<not> a_closed (c_assembler (l_receiver s1))"
      using q(3) fifo by simp
    obtain st where st: "c_data (l_receiver s1) @ l_flight s1 = fst (wire_messages vw (c_role (l_sender s1)) st q)"
      "c_mask_state (l_sender s1) = snd (wire_messages vw (c_role (l_sender s1)) st q)"
      using q(2) by (auto simp: stands_for_def)
    have "c_data (l_receiver s2) @ l_flight s2 = fst (wire_messages vw (c_role (l_sender s2)) st (q @ [m]))"
      "c_mask_state (l_sender s2) = snd (wire_messages vw (c_role (l_sender s2)) st (q @ [m]))"
      using send cw st unfolding wire_messages_append
      by (simp_all del: wire_messages.simps append_assoc flip: append_assoc)
    then have "stands_for vw limits s2 (q @ [m])"
      using q(2) send cw(1) \<open>\<not> a_closed (c_assembler (l_receiver s1))\<close> by (auto simp: stands_for_def)
    then show ?thesis
      using next_run [OF queue_step.enqueue] send q(3) by (auto simp: all_received_snoc)
  next
    case (arrive xs ys cr)
    then have "stands_for vw limits s2 q"
      using q(2) by (auto simp: stands_for_def)
    then show ?thesis
      using next_run [OF queue_step.idle] arrive q(3) by (auto simp: all_received_snoc)
  next
    case (take m cr)
    then obtain q' where "q = m # q'" "stands_for vw limits s2 q'" "a_closed (c_assembler cr) = is_close m"
      using parse by auto
    moreover have "\<not> list_ex is_close (all_received tr)"
      using q(2,3) calculation(1) by (auto simp: stands_for_def)
    ultimately show ?thesis
      using queue_run.step [OF q(1), of "Received m" q'] queue_step.dequeue take by (auto simp: all_received_snoc)
  next
    case (starve cr)
    then have "stands_for vw limits s2 q" "a_closed (c_assembler cr) = a_closed (c_assembler (l_receiver s1))"
      using parse by auto
    then show ?thesis
      using next_run [OF queue_step.idle] starve q(3) by (auto simp: all_received_snoc)
  next
    case (fail e cr)
    then show ?thesis
      using parse by auto
  qed
qed

lemma link_delivers_next:
  assumes "stands_for vw limits s (m # q')" and "sendable_queue (v_utf8 vr) limits (m # q')" and "l_flight s = []"
  shows "\<exists>cr. parse_buffered vr (l_receiver s) = Some (Inr (Some m), cr)"
proof -
  let ?c = "l_receiver s" and ?role = "c_role (l_sender s)"
  obtain st where st: "c_data ?c = fst (wire_messages vw ?role st (m # q'))"
    and s: "?role \<noteq> c_role ?c" "a_partial (c_assembler ?c) = None" "a_limits (c_assembler ?c) = limits"
      "\<not> a_closed (c_assembler ?c)"
    using assms(1,3) by (auto simp: stands_for_def)
  have key: "(c_role ?c = Client) = (fst (frame_key vw ?role st) = None)"
    using s(1) frame_key_role [of vw ?role st] by (cases "c_role ?c"; cases ?role) simp_all
  have receiver: "deliverable (v_utf8 vr) (a_limits (c_assembler ?c)) m" "idle (c_assembler ?c)"
    using assms(2) s by (simp_all add: sendable_queue_def idle_def)
  have "\<exists>a rest. consume vr (c_role ?c) (c_assembler ?c) (c_data ?c) = Some (Inr (Some m), a, rest)"
    using consume_wire [OF receiver key, of vw] st by (simp add: split_def Let_def)
  then show ?thesis
    using parse_buffered_refines [of vr ?c] by (auto split: option.splits)
qed

section \<open>Properties\<close>

text \<open>A link at rest: the two ends have opposite roles, nothing is in flight or has arrived, and the receiver
  is between messages.\<close>

definition at_rest :: "limits \<Rightarrow> ('s, 't) link \<Rightarrow> bool" where
  "at_rest limits s \<longleftrightarrow>
     c_role (l_sender s) \<noteq> c_role (l_receiver s) \<and> l_flight s = [] \<and> c_data (l_receiver s) = []
       \<and> idle (c_assembler (l_receiver s)) \<and> a_limits (c_assembler (l_receiver s)) = limits"

lemma at_rest_stands_for:
  "at_rest limits s \<Longrightarrow> stands_for vw limits s [] \<and> \<not> a_closed (c_assembler (l_receiver s))"
  by (simp add: at_rest_def stands_for_def idle_def)

text \<open>C2: A pair of connections is a queue of messages. Whatever the order in which messages are written,
  bytes arrive in pieces of any size and the receiver parses what it has, every trace of the link is a trace
  of the queue: nothing is lost, invented, reordered or delivered twice, and nothing fails, as long as the
  messages are ones the receiver's limits allow and a close comes last.\<close>

theorem channel_refines_queue:
  assumes "connection_env vw inc sent" and "link_run vw sent vr s tr s'" and "at_rest limits s"
    and "list_all (deliverable (v_utf8 vr) limits) (all_sent tr)" and "\<not> list_ex is_close (butlast (all_sent tr))"
  shows "\<exists>q. queue_run [] tr q \<and> all_sent tr = all_received tr @ q \<and> (\<forall>e. Failed e \<notin> set tr)"
proof -
  have no_failure: "queue_run p l q \<Longrightarrow> Failed e \<notin> set l" for p l q e
    by (induction rule: queue_run.induct) (auto elim: queue_step.cases)
  obtain q where "queue_run [] tr q"
    using link_run_simulates [OF assms(1,2)] at_rest_stands_for [OF assms(3)] assms(4,5)
    by (auto simp: sendable_queue_def)
  then show ?thesis
    using queue_run_fifo no_failure by fastforce
qed

text \<open>C12: The queue never blocks on what has arrived: when nothing is in flight, the receiver's parse loop
  delivers the first message that was written and not yet received, and asks for more only when there is
  none.\<close>

theorem channel_progress:
  assumes "connection_env vw inc sent" and "link_run vw sent vr s tr s'" and "at_rest limits s"
    and "list_all (deliverable (v_utf8 vr) limits) (all_sent tr)" and "\<not> list_ex is_close (butlast (all_sent tr))"
    and "l_flight s' = []"
  shows "\<exists>r cr. parse_buffered vr (l_receiver s') = Some (r, cr)
     \<and> r = (if length (all_received tr) < length (all_sent tr) then Inr (Some (all_sent tr ! length (all_received tr))) else Inr None)"
proof -
  have ok: "sendable_queue (v_utf8 vr) limits (all_sent tr)"
    using assms(4,5) by (simp add: sendable_queue_def)
  obtain q where q: "queue_run [] tr q" "stands_for vw limits s' q"
    using link_run_simulates [OF assms(1,2)] at_rest_stands_for [OF assms(3)] ok by blast
  then have fifo: "all_sent tr = all_received tr @ q"
    using queue_run_fifo [OF q(1)] by simp
  then have ok_q: "sendable_queue (v_utf8 vr) limits q"
    using ok sendable_queue_append by simp
  show ?thesis
  proof (cases q)
    case Nil
    then show ?thesis
      using link_parse [OF q(2) ok_q] fifo by auto
  next
    case (Cons m q')
    then show ?thesis
      using link_delivers_next [of vw limits s' m q' vr] q(2) ok_q assms(6) fifo by auto
  qed
qed

text \<open>A client that writes a text to a server, whose bytes then arrive.\<close>

lemma demo_link:
  "\<exists>s s'. link_run (pipe_env Little Std) p_sent (pipe_env Big Std) s [Sent (MText [104, 105]), Silent] s'
     \<and> at_rest default_limits s \<and> l_flight s' = []"
proof -
  let ?vw = "pipe_env Little Std" and ?vr = "pipe_env Big Std"
  let ?s = "\<lparr>l_sender = connection_new ?vw [] \<lparr>p_pieces = [], p_sent = []\<rparr> Client default_limits, l_flight = [],
             l_receiver = connection_new ?vr [] \<lparr>p_pieces = [], p_sent = []\<rparr> Server default_limits\<rparr>"
  obtain cw where cw: "conn_write ?vw (l_sender ?s) (MText [104, 105]) = Some (Inr (), cw)"
    "pipe_env.sends Little Std (l_sender ?s) cw [MText [104, 105]]"
    using pipe_env.conn_write_sends by blast
  then obtain bs where bs: "p_sent (c_stream cw) = p_sent (c_stream (l_sender ?s)) @ bs"
    by (auto simp: pipe_env.sends_def)
  let ?s1 = "?s\<lparr>l_sender := cw, l_flight := l_flight ?s @ bs\<rparr>"
  let ?s2 = "?s1\<lparr>l_flight := [], l_receiver := (l_receiver ?s1)\<lparr>c_read_buffer :=
      bm_extend (v_alloc ?vr) bs (c_read_buffer (l_receiver ?s1))\<rparr>\<rparr>"
  have steps: "link_step ?vw p_sent ?vr ?s (Sent (MText [104, 105])) ?s1" "link_step ?vw p_sent ?vr ?s1 Silent ?s2"
    by (rule link_step.send [OF cw(1) bs], rule link_step.arrive) simp_all
  have "link_run ?vw p_sent ?vr ?s (([] @ [Sent (MText [104, 105])]) @ [Silent]) ?s2"
    by (rule link_run.step [OF link_run.step [OF link_run.stop steps(1)] steps(2)])
  moreover have "at_rest default_limits ?s"
    by (simp add: at_rest_def connection_new_def with_buffered_def assembler_new_def idle_def)
  ultimately show ?thesis
    by (intro exI [of _ ?s] exI [of _ ?s2]) simp
qed

lemma demo_sendable: "list_all (deliverable Std default_limits) [MText [104, 105]]"
  by (simp add: deliverable_def message_frame_def default_limits_def utf8_valid.simps)

theorem channel_refines_queue_witness:
  "queue_run [] [Sent (MText [104, 105]), Silent] [MText [104, 105]]"
proof -
  obtain s s' :: "(pipe, pipe) link" where run: "link_run (pipe_env Little Std) p_sent (pipe_env Big Std) s
      [Sent (MText [104, 105]), Silent] s'" "at_rest default_limits s"
    using demo_link by blast
  have "all_sent [Sent (MText [104, 105]), Silent] = [MText [104, 105]]" "all_received [Sent (MText [104, 105]), Silent] = []"
    "v_utf8 (pipe_env Big Std) = Std"
    by (simp_all add: all_sent_def all_received_def pipe_env_def)
  then show ?thesis
    using channel_refines_queue [OF pipe_env.connection_env_axioms run] demo_sendable by auto
qed

theorem channel_progress_witness:
  "\<exists>(c :: pipe connection) cr. parse_buffered (pipe_env Big Std) c = Some (Inr (Some (MText [104, 105])), cr)"
proof -
  obtain s s' :: "(pipe, pipe) link" where run: "link_run (pipe_env Little Std) p_sent (pipe_env Big Std) s
      [Sent (MText [104, 105]), Silent] s'" "at_rest default_limits s" "l_flight s' = []"
    using demo_link by blast
  have "all_sent [Sent (MText [104, 105]), Silent] = [MText [104, 105]]" "all_received [Sent (MText [104, 105]), Silent] = []"
    "v_utf8 (pipe_env Big Std) = Std"
    by (simp_all add: all_sent_def all_received_def pipe_env_def)
  then show ?thesis
    using channel_progress [OF pipe_env.connection_env_axioms run(1,2) _ _ run(3)] demo_sendable by auto
qed

end
