(* ===== verification/Interrupt.thy ===== *)
theory Interrupt
  imports Conn_Read
begin

text \<open>
  Reads that are given up. A future of \<open>read\<close> can be dropped only where it waits, and its only wait is for
  the stream (\<open>src/src/conn.rs\<close>, \<open>read\<close>). The relation \<open>read_waits\<close> says where that is: the connection as
  it is when the stream is asked. What the unfinished read of the stream itself does when it is dropped is
  the stream's business; what is relied on, that it has taken no byte, is a hypothesis of the theorem.
\<close>

section \<open>Where a read waits\<close>

text \<open>The connection as it is when the stream is asked for more.\<close>

definition make_room :: "'s env \<Rightarrow> 's connection \<Rightarrow> 's connection" where
  "make_room v c = c\<lparr>c_read_buffer := bm_reserve (v_alloc v) READ_CHUNK (c_read_buffer c)\<rparr>"

inductive read_waits :: "'s env \<Rightarrow> 's connection \<Rightarrow> 's connection \<Rightarrow> bool" for v where
  first: "parse_buffered v c = Some (Inr None, c1) \<Longrightarrow> read_waits v c (make_room v c1)"
| later: "parse_buffered v c = Some (Inr None, c1) \<Longrightarrow>
          sx_read_buf (v_stream v) (c_stream c1) (c_read_buffer (make_room v c1)) = (Inr k, b, s) \<Longrightarrow> 0 < k \<Longrightarrow>
          read_waits v (c1\<lparr>c_read_buffer := b, c_stream := s\<rparr>) c' \<Longrightarrow> read_waits v c c'"

section \<open>Asking twice is asking once\<close>

lemma bm_reserve_enough: "n \<le> bm_spare b \<Longrightarrow> bm_reserve al n b = b"
  by (simp add: bm_reserve_def)

context allocator
begin

lemma reserve_spare_mono: "n \<le> bm_spare b \<Longrightarrow> n \<le> bm_spare (bm_reserve al m b)"
  using reserve_spare [of m b] by (cases "m \<le> bm_spare b") (auto simp: bm_reserve_enough)

lemma reserve_twice: "bm_reserve al m (bm_reserve al n (bm_reserve al m b)) = bm_reserve al n (bm_reserve al m b)"
  using reserve_spare_mono [OF reserve_spare] by (rule bm_reserve_enough)

lemma reserve_again: "bm_reserve al m (bm_reserve al m b) = bm_reserve al m b"
  using reserve_spare by (rule bm_reserve_enough)

end

lemma make_room_simps [simp]:
  "c_data (make_room v c) = c_data c" "c_assembler (make_room v c) = c_assembler c"
  "c_role (make_room v c) = c_role c" "c_stream (make_room v c) = c_stream c"
  by (simp_all add: make_room_def)

lemma parse_step_waiting:
  assumes "allocator (v_alloc v)" and "parse_step v c = Some (Inl (Inr None), c1)"
  shows "parse_step v (make_room v c1) = Some (Inl (Inr None), make_room v c1)"
  using assms(2) allocator.reserve_twice [OF assms(1)]
  by (auto simp: parse_step_def make_room_def Let_def split: sum.splits if_splits option.splits prod.splits)

lemma parse_buffered_waiting:
  "allocator (v_alloc v) \<Longrightarrow> parse_buffered v c = Some (Inr None, c1) \<Longrightarrow>
     parse_buffered v (make_room v c1) = Some (Inr None, make_room v c1)"
proof (induction v c rule: parse_buffered.induct)
  case (1 v c)
  then obtain r c' where step: "parse_step v c = Some (r, c')"
    by (cases "parse_step v c") (auto simp: parse_buffered.simps [of v c])
  show ?case
  proof (cases r)
    case (Inl x)
    then have "parse_step v c = Some (Inl (Inr None), c1)"
      using step "1.prems"(2) by (simp add: parse_buffered.simps [of v c])
    from parse_step_waiting [OF "1.prems"(1) this] show ?thesis
      by (simp add: parse_buffered.simps [of v "make_room v c1"])
  next
    case (Inr u)
    then show ?thesis
      using step "1.IH" [OF step] "1.prems" by (simp add: parse_buffered.simps [of v c])
  qed
qed

text \<open>The rest of a read, once the parse loop has asked for more.\<close>

lemma conn_read_waiting:
  assumes "allocator (v_alloc v)" and "parse_buffered v c = Some (Inr None, c1)"
  shows "conn_read v (make_room v c1) = conn_read v c"
  using parse_buffered_waiting [OF assms] assms(2) allocator.reserve_again [OF assms(1), of READ_CHUNK]
  by (subst (1 2) conn_read.simps) (simp add: make_room_def)

lemma conn_read_step:
  assumes "parse_buffered v c = Some (Inr None, c1)" and "0 < k"
    and "sx_read_buf (v_stream v) (c_stream c1) (c_read_buffer (make_room v c1)) = (Inr k, b, s)"
  shows "conn_read v c = conn_read v (c1\<lparr>c_read_buffer := b, c_stream := s\<rparr>)"
  using assms by (subst conn_read.simps) (simp add: make_room_def)

lemma conn_read_resumes:
  "read_waits v c c' \<Longrightarrow> allocator (v_alloc v) \<Longrightarrow> conn_read v c' = conn_read v c"
  by (induction rule: read_waits.induct) (auto simp: conn_read_waiting conn_read_step)

text \<open>The parse loop does not look at the stream, so a stream that reads as before will do.\<close>

lemma parse_step_stream:
  "parse_step v (c\<lparr>c_stream := s\<rparr>) = map_option (\<lambda>(r, c'). (r, c'\<lparr>c_stream := s\<rparr>)) (parse_step v c)"
  by (simp add: parse_step_def Let_def split: sum.split option.split prod.split)

lemma parse_buffered_stream:
  "parse_buffered v (c\<lparr>c_stream := s\<rparr>) = map_option (\<lambda>(r, c'). (r, c'\<lparr>c_stream := s\<rparr>)) (parse_buffered v c)"
proof (induction v c rule: parse_buffered.induct)
  case (1 v c)
  show ?case
    using 1 by (subst (1 2) parse_buffered.simps) (auto simp: parse_step_stream split: option.split sum.split)
qed

lemma waiting_parse:
  "read_waits v c c' \<Longrightarrow> allocator (v_alloc v) \<Longrightarrow> parse_buffered v c' = Some (Inr None, c')"
  by (induction rule: read_waits.induct) (auto simp: parse_buffered_waiting)

lemma conn_read_stream:
  assumes "parse_buffered v c = Some (Inr None, c)"
    and "\<And>b. sx_read_buf (v_stream v) s b = sx_read_buf (v_stream v) (c_stream c) b"
  shows "conn_read v (c\<lparr>c_stream := s\<rparr>) = conn_read v c"
  using assms by (subst (1 2) conn_read.simps) (simp add: parse_buffered_stream Let_def split: prod.split sum.split)

section \<open>Properties\<close>

text \<open>C16: Giving up a read loses nothing. Whatever the transport does, wherever a read is dropped while it
  waits, if the stream then reads as it would have, then the next read of the connection returns what the
  dropped one would have returned and leaves the same connection behind, or does not return either.\<close>

theorem read_cancel_safe:
  assumes "allocator (v_alloc v)" and "read_waits v c c'"
    and "\<And>b. sx_read_buf (v_stream v) s b = sx_read_buf (v_stream v) (c_stream c') b"
  shows "conn_read v (c'\<lparr>c_stream := s\<rparr>) = conn_read v c"
  using conn_read_stream [OF waiting_parse [OF assms(2,1)] assms(3)] conn_read_resumes [OF assms(2,1)] by simp

text \<open>A new connection waits at once.\<close>

lemma waiting_demo:
  "read_waits (pipe_env Little Std)
     (connection_new (pipe_env Little Std) [] \<lparr>p_pieces = [[1], [2]], p_sent = []\<rparr> Server default_limits)
     (make_room (pipe_env Little Std)
       (connection_new (pipe_env Little Std) [] \<lparr>p_pieces = [[1], [2]], p_sent = []\<rparr> Server default_limits))"
proof -
  let ?c = "connection_new (pipe_env Little Std) [] \<lparr>p_pieces = [[1], [2]], p_sent = []\<rparr> Server default_limits"
  have "parse_step (pipe_env Little Std) ?c = Some (Inl (Inr None), ?c)"
    by (simp add: parse_step_def connection_new_def with_buffered_def header_decode_def)
  then have "parse_buffered (pipe_env Little Std) ?c = Some (Inr None, ?c)"
    by (subst parse_buffered.simps) simp
  then show ?thesis
    by (rule read_waits.first)
qed

theorem read_cancel_safe_witness:
  "\<exists>c' :: pipe connection. bm_spare (c_read_buffer c') \<ge> READ_CHUNK \<and> conn_read (pipe_env Little Std) c' = conn_read (pipe_env Little Std)
      (connection_new (pipe_env Little Std) [] \<lparr>p_pieces = [[1], [2]], p_sent = []\<rparr> Server default_limits)"
proof -
  let ?c = "connection_new (pipe_env Little Std) [] \<lparr>p_pieces = [[1], [2]], p_sent = []\<rparr> Server default_limits"
  have "allocator (v_alloc (pipe_env Little Std))"
    by (simp add: pipe_env_def exact.allocator_axioms)
  from read_cancel_safe [OF this waiting_demo, of "c_stream ?c"]
  have "conn_read (pipe_env Little Std) (make_room (pipe_env Little Std) ?c) = conn_read (pipe_env Little Std) ?c"
    by (simp add: make_room_def)
  moreover have "READ_CHUNK \<le> bm_spare (c_read_buffer (make_room (pipe_env Little Std) ?c))"
    by (simp add: make_room_def pipe_env_def exact.reserve_spare)
  ultimately show ?thesis
    by blast
qed

text \<open>What a waiting read holds: less than a frame in the buffer, and an assembler that keeps its invariant.\<close>

lemma waits_hold_little:
  "read_waits v c c' \<Longrightarrow> assembler_inv (c_assembler c) \<Longrightarrow>
     length (c_data c') < MAX_ENCODED_LEN + unat (max_frame (a_limits (c_assembler c)))
       \<and> assembler_inv (c_assembler c') \<and> a_limits (c_assembler c') = a_limits (c_assembler c)"
proof (induction rule: read_waits.induct)
  case (first c c1)
  then show ?case
    using parse_holds_less_than_a_frame [OF first(1)] parse_buffered_refines [of v c] consume_inv [of "c_assembler c" v "c_role c" "c_data c"]
    by auto
next
  case (later c c1 k b s c')
  have "assembler_inv (c_assembler c1)" "a_limits (c_assembler c1) = a_limits (c_assembler c)"
    using later.hyps(1) later.prems parse_buffered_refines [of v c] consume_inv [of "c_assembler c" v "c_role c" "c_data c"]
    by auto
  then show ?case
    using later.IH by simp
qed

text \<open>C38: The memory of a waiting connection is bounded by its limits, whatever the peer sends and however
  long: wherever a read waits, the buffer holds fewer than fourteen bytes more than the frame limit, and the
  partial message, as a machine counts its length, no more than the message limit.\<close>

theorem waiting_memory_bounded:
  assumes "read_waits v c c'" and "assembler_inv (c_assembler c)"
  shows "length (c_data c') < 14 + unat (max_frame (a_limits (c_assembler c)))
    \<and> (\<forall>kind buffer. a_partial (c_assembler c') = Some (kind, buffer) \<longrightarrow>
         saturating_len (length buffer) 0 \<le> unat (max_message (a_limits (c_assembler c))))"
  using waits_hold_little [OF assms] by (auto simp: assembler_inv_def MAX_ENCODED_LEN_def)

theorem waiting_memory_bounded_witness:
  "\<exists>c' :: pipe connection. bm_spare (c_read_buffer c') \<ge> READ_CHUNK
     \<and> length (c_data c') < 14 + unat (max_frame default_limits)"
proof -
  let ?c = "connection_new (pipe_env Little Std) [] \<lparr>p_pieces = [[1], [2]], p_sent = []\<rparr> Server default_limits"
  have "assembler_inv (c_assembler ?c)" "a_limits (c_assembler ?c) = default_limits"
    by (simp_all add: connection_new_def with_buffered_def assembler_new_def assembler_inv_def)
  moreover have "READ_CHUNK \<le> bm_spare (c_read_buffer (make_room (pipe_env Little Std) ?c))"
    by (simp add: make_room_def pipe_env_def exact.reserve_spare)
  ultimately show ?thesis
    using waiting_memory_bounded [OF waiting_demo] by auto
qed

end
