(* ===== verification/Abandon.thy ===== *)
theory Abandon
  imports Session
begin

text \<open>
  Writes that are given up (\<open>write\<close> and \<open>write_all\<close> of \<open>src/src/conn.rs\<close>). A future that is dropped while it
  waits for the socket leaves some of its bytes sent, the mask generator advanced, a close noted, and the
  buffer it had taken out of the connection gone. Nothing of it is sent later: what is written next follows
  the bytes that got out. If those were whole frames the peer never notices; if they end inside a frame, the
  peer takes the rest of that frame from whatever is written next. The states a dropped write leaves are
  shown to be those of the writes of \<open>Conn\<close>, stopped before their last step.
\<close>

section \<open>Definitions\<close>

text \<open>The connection after a dropped \<open>write\<close>, and after a dropped \<open>write_all\<close>; \<open>stream'\<close> is what the part of
  the write that took place made of the stream.\<close>

definition write_dropped :: "'s env \<Rightarrow> 's connection \<Rightarrow> message \<Rightarrow> 's \<Rightarrow> 's connection" where
  "write_dropped v c m stream' =
     (let (mask, c1) = role_mask v (note_close m c)
      in case mask of
           None \<Rightarrow> c1\<lparr>c_stream := stream'\<rparr>
         | Some _ \<Rightarrow> c1\<lparr>c_stream := stream', c_scratch := []\<rparr>)"

definition write_all_dropped :: "'s env \<Rightarrow> 's connection \<Rightarrow> message list \<Rightarrow> 's \<Rightarrow> 's connection option" where
  "write_all_dropped v c ms stream' =
     (let c0 = c\<lparr>c_outgoing := []\<rparr>
      in case encode_all v c0 [] ms of
           None \<Rightarrow> None
         | Some (outgoing, c1) \<Rightarrow> Some (c1\<lparr>c_stream := stream'\<rparr>))"

section \<open>What is sent afterwards\<close>

lemma write_dropped_simps:
  "c_stream (write_dropped v c m s) = s" "c_role (write_dropped v c m s) = c_role c"
  "c_mask_state (write_dropped v c m s) = snd (wire_messages v (c_role c) (c_mask_state c) [m])"
  "c_outgoing (write_dropped v c m s) = c_outgoing c" "c_assembler (write_dropped v c m s) = c_assembler c"
  "c_read_buffer (write_dropped v c m s) = c_read_buffer c"
  "c_close_sent (write_dropped v c m s) \<longleftrightarrow> c_close_sent c \<or> is_close m"
  by (auto simp: write_dropped_def role_mask_eq split_def Let_def note_close_def split: option.splits)

lemma write_all_dropped_eq:
  "write_all_dropped v c ms s =
     Some (c\<lparr>c_outgoing := [], c_mask_state := snd (wire_messages v (c_role c) (c_mask_state c) ms),
             c_close_sent := c_close_sent c \<or> list_ex is_close ms, c_stream := s\<rparr>)"
  by (simp add: write_all_dropped_def encode_all_eq Let_def)

text \<open>These are the states of the writes themselves: a write that is given up and one that ends leave the same
  connection, but for what the stream is, and the scratch buffer that only an ended write gives back.\<close>

lemma write_all_ends_as_dropped:
  assumes "ms \<noteq> []" and "sx_write_all (v_stream v) (c_stream c) (fst (wire_messages v (c_role c) (c_mask_state c) ms)) = (r, s)"
  shows "map_option snd (conn_write_all v c ms) = write_all_dropped v c ms s"
  using assms by (simp add: conn_write_all_def write_all_dropped_def encode_all_eq wire_messages_Nil_iff Let_def)

lemma write_ends_as_dropped:
  assumes "conn_write v c m = Some (r, c')"
  shows "write_dropped v c m (c_stream c') =
     c'\<lparr>c_scratch := case c_role c of Client \<Rightarrow> [] | Server \<Rightarrow> c_scratch c\<rparr>"
  using assms
  by (cases "c_role c")
    (auto simp: conn_write_def write_frame_def write_dropped_def role_mask_def frame_header_eq note_close_def Let_def
      split_def split: prod.splits if_splits)

text \<open>The bytes that got out are the first of the frames.\<close>

definition partly_sent ::
    "('s \<Rightarrow> bytes) \<Rightarrow> ('s \<Rightarrow> bytes) \<Rightarrow> 's env \<Rightarrow> 's connection \<Rightarrow> message list \<Rightarrow> nat \<Rightarrow> 's \<Rightarrow> bool" where
  "partly_sent incoming sent v c ms k s \<longleftrightarrow>
     incoming s = incoming (c_stream c)
     \<and> sent s = sent (c_stream c) @ take k (fst (wire_messages v (c_role c) (c_mask_state c) ms))"

context connection_env
begin

text \<open>A write after a dropped one sends its own frames and nothing else.\<close>

lemma write_after_dropped_write_all:
  assumes "write_all_dropped v c ms s = Some c'" and "partly_sent incoming sent v c ms k s"
  shows "\<exists>c''. conn_write_all v c' later = Some (Inr (), c'')
     \<and> sent (c_stream c'') = sent (c_stream c)
         @ take k (fst (wire_messages v (c_role c) (c_mask_state c) ms))
         @ fst (wire_messages v (c_role c) (snd (wire_messages v (c_role c) (c_mask_state c) ms)) later)"
  using conn_write_all_sends [of c' later] assms
  by (auto simp: write_all_dropped_eq partly_sent_def sends_def)

lemma write_after_dropped_write:
  assumes "partly_sent incoming sent v c [m] k s"
  shows "\<exists>c''. conn_write_all v (write_dropped v c m s) later = Some (Inr (), c'')
     \<and> sent (c_stream c'') = sent (c_stream c)
         @ take k (fst (wire_messages v (c_role c) (c_mask_state c) [m]))
         @ fst (wire_messages v (c_role c) (snd (wire_messages v (c_role c) (c_mask_state c) [m])) later)"
  using conn_write_all_sends [of "write_dropped v c m s" later] assms
  by (auto simp: partly_sent_def sends_def write_dropped_simps)

end

section \<open>What the peer reads\<close>

context connection_env
begin

text \<open>Reading two runs of frames that were masked from different states of the generator.\<close>

lemma conn_reads_wire_then:
  "idle (c_assembler c) \<Longrightarrow> list_all (deliverable (v_utf8 v) (a_limits (c_assembler c))) (out @ later) \<Longrightarrow>
     \<not> list_ex is_close (butlast (out @ later)) \<Longrightarrow> role \<noteq> c_role c \<Longrightarrow>
     unread c = fst (wire_messages w role st out) @ fst (wire_messages w role st' later) \<Longrightarrow>
     \<exists>c'. conn_reads v c (length (out @ later)) = Some (out @ later, c') \<and> unread c' = []"
proof (induction out arbitrary: c st)
  case Nil
  then show ?case
    using conn_reads_wire [of c later role w st'] by auto
next
  case (Cons m out)
  let ?key = "fst (frame_key w role st)" and ?st = "snd (frame_key w role st)"
  have key: "(c_role c = Client) = (?key = None)"
    using Cons.prems(4) frame_key_role [of w role st] by (cases role; cases "c_role c") auto
  have "unread c = wire_frame w ?key (fst (message_frame m)) True (snd (message_frame m))
      @ fst (wire_messages w role ?st out) @ fst (wire_messages w role st' later)"
    using Cons.prems(5) by (simp add: split_def Let_def)
  from conn_read_wire [OF _ Cons.prems(1) key this] Cons.prems(2) obtain c1 where
    c1: "conn_read v c = Some (Inr (Some m), c1)" "write_side c1 = write_side c"
      "unread c1 = fst (wire_messages w role ?st out) @ fst (wire_messages w role st' later)"
      "c_assembler c1 = (c_assembler c)\<lparr>a_closed := is_close m\<rparr>"
    by auto
  show ?case
  proof (cases "out @ later = []")
    case True
    then show ?thesis
      using c1 by simp
  next
    case False
    then have "\<not> is_close m" "\<not> list_ex is_close (butlast (out @ later))"
      using Cons.prems(3) by auto
    moreover have "c_role c1 = c_role c"
      using c1(2) by (simp add: write_side_def)
    ultimately obtain c2 where "conn_reads v c1 (length (out @ later)) = Some (out @ later, c2)" "unread c2 = []"
      using Cons.IH [of c1 ?st] Cons.prems c1 by (auto simp: idle_def)
    then show ?thesis
      using c1 by simp
  qed
qed

end

text \<open>When the write was given up between two frames the peer reads the messages that got out and then the later
  ones: it cannot tell.\<close>

lemma dropped_between_frames:
  assumes "connection_env vr incr sentr" and "idle (c_assembler cr)" and "role \<noteq> c_role cr"
    and "list_all (deliverable (v_utf8 vr) (a_limits (c_assembler cr))) (out @ later)"
    and "\<not> list_ex is_close (butlast (out @ later))"
    and "k = length (fst (wire_messages w role st out))"
    and "c_data cr @ incr (c_stream cr) = take k (fst (wire_messages w role st (out @ lost)))
           @ fst (wire_messages w role (snd (wire_messages w role st (out @ lost))) later)"
  shows "\<exists>cr'. conn_reads vr cr (length (out @ later)) = Some (out @ later, cr')"
proof -
  have "take k (fst (wire_messages w role st (out @ lost))) = fst (wire_messages w role st out)"
    using assms(6) by (simp add: wire_messages_append)
  with assms(7) have "connection_env.unread incr cr = fst (wire_messages w role st out)
      @ fst (wire_messages w role (snd (wire_messages w role st (out @ lost))) later)"
    by (simp only: connection_env.unread_def [OF assms(1)])
  from connection_env.conn_reads_wire_then [OF assms(1,2,4,5,3) this] show ?thesis
    by blast
qed

text \<open>When it was given up inside a payload, the peer completes the frame with the bytes that follow. What a client
  reads from a server is then the start of the message that was given up and the frames of later ones, as one
  binary message that nobody wrote.\<close>

lemma dropped_inside_payload:
  fixes p more :: bytes
  defines "h \<equiv> \<lparr>h_fin = True, h_opcode = Binary, h_mask = None, h_payload_len = of_nat (length p)\<rparr>"
  assumes "j \<le> length p" and "length p - j \<le> length more" and "length p < 2 ^ 63"
    and "length p \<le> unat (max_frame (a_limits a))" and "length p \<le> unat (max_message (a_limits a))"
    and "\<not> a_closed a" and "a_partial a = None"
  shows "consume v Client a (take (encoded_len h + j) (wire_frame w None Binary True p) @ more) =
     Some (Inr (Some (MBinary (take j p @ take (length p - j) more))), a, drop (length p - j) more)"
proof -
  let ?q = "take j p @ take (length p - j) more"
  have len: "unat (h_payload_len h) = length p"
    using assms(4) by (simp add: h_def unat_of_nat)
  have "wf_header h" "h_payload_len h \<le> max_frame (a_limits a)"
    using assms(4,5) len by (simp_all add: wf_header_def h_def word_less_nat_alt word_le_nat_alt)
  from header_decode_bytes [OF this] have
    head: "header_decode (header_bytes h @ rest) (max_frame (a_limits a)) = Inr (Inr (h, encoded_len h))" for rest .
  have data: "take (encoded_len h + j) (wire_frame w None Binary True p) @ more = header_bytes h @ take j p @ more"
    by (simp add: wire_frame_def h_def)
  have q: "length ?q = length p" "take (length p) (take j p @ more) = ?q" "drop (length p) (take j p @ more) = drop (length p - j) more"
    using assms(2,3) by simp_all
  have "cut_frame Client (max_frame (a_limits a)) (header_bytes h @ take j p @ more) = Frame h ?q (drop (length p - j) more)"
    using assms(2,3) len q by (simp add: cut_frame_def head masking_violation_def h_def [symmetric]) (simp add: h_def)
  moreover have "assembler_accept (v_utf8 v) a (h_opcode h) (h_fin h) (unmasked v h ?q) = Some (Inr (Some (MBinary ?q)), a)"
    using assms(6-8) q(1) by (simp add: h_def unmasked_def accept_defs)
  ultimately show ?thesis
    by (simp only: data) (simp add: consume.simps [of v Client a])
qed

section \<open>Properties\<close>

text \<open>C17: A batch that is given up between two of its frames is cut there and nowhere else. Over any lossless
  transports, when \<open>write_all\<close> is dropped after the frames of the first messages have gone out, and other
  messages are written later, the peer reads exactly the first messages and then the later ones, equal and in
  order: nothing of the batch is sent again, and the keys that were drawn for the lost frames do no harm.\<close>

theorem abandoned_batch:
  assumes "connection_env vw incw sentw" and "connection_env vr incr sentr"
    and "c_role cw \<noteq> c_role cr" and "idle (c_assembler cr)"
    and "list_all (deliverable (v_utf8 vr) (a_limits (c_assembler cr))) (out @ later)"
    and "\<not> list_ex is_close (butlast (out @ later))"
    and "write_all_dropped vw cw (out @ lost) s = Some cw1"
    and "partly_sent incw sentw vw cw (out @ lost) (length (fst (wire_messages vw (c_role cw) (c_mask_state cw) out))) s"
    and "conn_write_all vw cw1 later = Some (r, cw2)"
    and "sentw (c_stream cw2) = sentw (c_stream cw) @ c_data cr @ incr (c_stream cr)"
  shows "r = Inr () \<and> (\<exists>cr'. conn_reads vr cr (length (out @ later)) = Some (out @ later, cr'))"
proof -
  let ?st = "c_mask_state cw" and ?k = "length (fst (wire_messages vw (c_role cw) (c_mask_state cw) out))"
  from connection_env.write_after_dropped_write_all [OF assms(1,7,8), of later] assms(9)
  have r: "r = Inr ()" and "sentw (c_stream cw2) = sentw (c_stream cw)
      @ take ?k (fst (wire_messages vw (c_role cw) ?st (out @ lost)))
      @ fst (wire_messages vw (c_role cw) (snd (wire_messages vw (c_role cw) ?st (out @ lost))) later)"
    by auto
  with assms(10) have "c_data cr @ incr (c_stream cr) = take ?k (fst (wire_messages vw (c_role cw) ?st (out @ lost)))
      @ fst (wire_messages vw (c_role cw) (snd (wire_messages vw (c_role cw) ?st (out @ lost))) later)"
    by simp
  from dropped_between_frames [OF assms(2,4,3,5,6) refl this] show ?thesis
    using r by blast
qed

theorem abandoned_batch_witness:
  "\<exists>cw1 cw2 cr'. write_all_dropped (pipe_env Little Std)
        (connection_new (pipe_env Little Std) [5] \<lparr>p_pieces = [], p_sent = []\<rparr> Client default_limits)
        [MText [104, 105], MPing [1]]
        \<lparr>p_pieces = [], p_sent = fst (wire_messages (pipe_env Little Std) Client (seed_from Little [5]) [MText [104, 105]])\<rparr> = Some cw1
    \<and> conn_write_all (pipe_env Little Std) cw1 [MClose None] = Some (Inr (), cw2)
    \<and> conn_reads (pipe_env Big Std)
        (connection_new (pipe_env Big Std) [] \<lparr>p_pieces = [p_sent (c_stream cw2)], p_sent = []\<rparr> Server default_limits) 2
      = Some ([MText [104, 105], MClose None], cr')"
proof -
  let ?v = "pipe_env Little Std" and ?ms = "[MText [104, 105]] @ [MPing [1]]"
  let ?cw = "connection_new ?v [5] \<lparr>p_pieces = [], p_sent = []\<rparr> Client default_limits"
  let ?s = "\<lparr>p_pieces = [], p_sent = fst (wire_messages ?v Client (seed_from Little [5]) [MText [104, 105]])\<rparr>"
  have cw: "c_role ?cw = Client" "c_mask_state ?cw = seed_from Little [5]" "p_sent (c_stream ?cw) = []"
    "pipe_incoming (c_stream ?cw) = []"
    by (simp_all add: connection_new_def with_buffered_def pipe_incoming_def pipe_env_def)
  obtain cw1 where cw1: "write_all_dropped ?v ?cw ?ms ?s = Some cw1"
    by (simp add: write_all_dropped_eq)
  have part: "partly_sent pipe_incoming p_sent ?v ?cw ?ms
      (length (fst (wire_messages ?v (c_role ?cw) (c_mask_state ?cw) [MText [104, 105]]))) ?s"
    unfolding partly_sent_def cw wire_messages_append by (simp add: pipe_incoming_def)
  obtain cw2 where cw2: "conn_write_all ?v cw1 [MClose None] = Some (Inr (), cw2)"
    using pipe_env.conn_write_all_sends [of Little Std cw1] by blast
  let ?cr = "connection_new (pipe_env Big Std) [] \<lparr>p_pieces = [p_sent (c_stream cw2)], p_sent = []\<rparr> Server default_limits"
  have "Inr () = (Inr () :: conn_error + unit) \<and> (\<exists>cr'. conn_reads (pipe_env Big Std) ?cr
      (length ([MText [104, 105]] @ [MClose None])) = Some ([MText [104, 105]] @ [MClose None], cr'))"
    by (rule abandoned_batch [OF pipe_env.connection_env_axioms pipe_env.connection_env_axioms _ _ _ _ cw1 part cw2])
      (simp_all add: connection_new_def with_buffered_def assembler_new_def idle_def deliverable_def message_frame_def
        encode_close_body_def default_limits_def pipe_env_def is_close_def utf8_valid.simps pipe_incoming_def)
  then show ?thesis
    using cw1 cw2 by (auto simp: numeral_2_eq_2)
qed

end
