(* ===== verification/Closing.thy ===== *)
theory Closing
  imports Session
begin

text \<open>
  The closing handshake as the peer's bytes start it (\<open>accept_control\<close> and \<open>parse_close_body\<close> of
  \<open>src/src/proto/message.rs\<close>, \<open>read\<close> of \<open>src/src/conn.rs\<close>): what a connection makes of every close body that
  fits a control frame, in terms of the rules of RFC 6455, sections 5.5.1 and 7.4.
\<close>

section \<open>The rules\<close>

text \<open>The codes the RFC defines for the wire, and those it leaves to libraries and applications.\<close>

definition wire_code :: "nat \<Rightarrow> bool" where
  "wire_code n \<longleftrightarrow> n \<in> {1000, 1001, 1002, 1003, 1007, 1008, 1009, 1010, 1011} \<or> 3000 \<le> n \<and> n < 5000"

text \<open>No body is a close without a code; otherwise the first two bytes are the code, most significant first,
  and the others a reason in UTF-8.\<close>

fun close_verdict :: "bytes \<Rightarrow> protocol_error + close_frame option" where
  "close_verdict [] = Inr None"
| "close_verdict [b] = Inl MalformedCloseFrame"
| "close_verdict (hi # lo # reason) =
     (let code = 256 * unat hi + unat lo
      in if \<not> wire_code code then Inl InvalidCloseCode
         else if \<not> utf8_valid reason then Inl InvalidUtf8
         else Inr (Some \<lparr>cf_code = CloseCode (of_nat code), cf_reason = reason\<rparr>))"

section \<open>The body\<close>

lemma be_word_pair: "be_word [hi, lo] = (of_nat (256 * unat hi + unat lo) :: u16)"
proof -
  have "be_word [hi, lo] = (ucast lo OR push_bit 8 (ucast hi) :: u16)"
    by (simp add: be_word_def)
  also have "\<dots> = ucast lo + push_bit 8 (ucast hi)"
    by (rule disjunctive_add [symmetric]) (auto simp: bit_simps dest: bit_imp_le_length)
  finally show ?thesis
    by (simp add: push_bit_eq_mult)
qed

lemma sendable_wire:
  assumes "n < 65536"
  shows "is_sendable (CloseCode (of_nat n)) \<longleftrightarrow> wire_code n"
proof -
  have "unat (of_nat n :: u16) = n"
    using assms by (simp add: unat_of_nat)
  then show ?thesis
    by (auto simp: is_sendable_def wire_code_def Let_def word_le_nat_alt word_unat_eq_iff)
qed

lemma pair_bound: "256 * unat hi + unat lo < 65536" for hi lo :: u8
  using unsigned_less [of hi, where ?'a = nat] unsigned_less [of lo, where ?'a = nat] by simp

lemma parse_close_body_verdict:
  assumes "utf8_build u"
  shows "parse_close_body u body = close_verdict body"
proof (cases body rule: close_verdict.cases)
  case (3 hi lo reason)
  then show ?thesis
    using sendable_wire [OF pair_bound, of hi lo]
    by (simp add: parse_close_body_def be_word_pair utf8_build.is_utf8_iff [OF assms] Let_def)
qed (simp_all add: parse_close_body_def)

section \<open>Through the wire\<close>

lemma consume_close:
  assumes "length body \<le> 125" and "length body \<le> unat (max_frame (a_limits a))" and "\<not> a_closed a"
    and "(role = Client) = (key = None)"
  shows "consume v role a (wire_frame w key Close True body @ rest) =
     Some (map_sum EProtocol (\<lambda>f. Some (MClose f)) (parse_close_body (v_utf8 v) body), a\<lparr>a_closed := True\<rparr>, rest)"
proof -
  let ?h = "\<lparr>h_fin = True, h_opcode = Close, h_mask = key, h_payload_len = of_nat (length body)\<rparr>"
  let ?q = "case key of None \<Rightarrow> body | Some k \<Rightarrow> fst (mask_apply (v_endian w) body k 0)"
  have len: "unat (of_nat (length body) :: u64) = length body"
    using assms(1) by (simp add: unat_of_nat)
  have "wf_header ?h" "h_payload_len ?h \<le> max_frame (a_limits a)"
    using assms(1,2) len by (simp_all add: wf_header_def word_le_nat_alt word_less_nat_alt)
  then have "header_decode (header_bytes ?h @ ?q @ rest) (max_frame (a_limits a)) = Inr (Inr (?h, encoded_len ?h))"
    by (rule header_decode_bytes)
  moreover have "\<not> masking_violation role key"
    using assms(4) by (cases role; cases key) (simp_all add: masking_violation_def)
  moreover have "length ?q = length body"
    by (simp add: word_mask.masked_length split: option.split)
  ultimately have "cut_frame role (max_frame (a_limits a)) (wire_frame w key Close True body @ rest) = Frame ?h ?q rest"
    using len by (simp add: cut_frame_def wire_frame_def)
  moreover have "unmasked v ?h ?q = body"
    using unmasked_wire [of v ?h body "v_endian w"] by simp
  moreover have "assembler_accept (v_utf8 v) a Close True body =
      Some (map_sum id (\<lambda>f. Some (MClose f)) (parse_close_body (v_utf8 v) body), a\<lparr>a_closed := True\<rparr>)"
    using assms(3) by (simp add: assembler_accept_def accept_control_def Let_def split: sum.split)
  ultimately show ?thesis
    by (cases "parse_close_body (v_utf8 v) body") (simp_all add: consume.simps [of v role a])
qed

lemma consume_closed:
  "consume v role a data = Some (r, a', rest) \<Longrightarrow> a_closed a \<Longrightarrow> r \<noteq> Inr (Some m)"
proof (induction v role a data rule: consume.induct)
  case (1 v role a data)
  show ?case
  proof (cases "cut_frame role (max_frame (a_limits a)) data")
    case (Frame h p q)
    then show ?thesis
      using 1 by (simp add: consume.simps [of v role a data] assembler_accept_def)
  qed (use 1 in \<open>auto simp: consume.simps [of v role a data]\<close>)
qed

lemma read_spec_closed:
  assumes "read_spec v role a data = Some (r, a', rest)" and "a_closed a"
  shows "r \<noteq> Inr (Some m)"
proof -
  obtain q where q: "consume v role a data = Some (q, a', rest)"
    and r: "r = (case q of Inr None \<Rightarrow> if a_closed a' then Inr None else Inl EUnexpectedEof | _ \<Rightarrow> q)"
    using assms(1) by (auto simp: read_spec_def)
  show ?thesis
    using consume_closed [OF q assms(2)] unfolding r by (auto split: sum.splits option.splits)
qed

context connection_env
begin

lemma read_closed:
  assumes "assembler_inv (c_assembler c)" and "a_closed (c_assembler c)"
  shows "\<exists>r. map_option fst (conn_read v c) = Some r \<and> (\<forall>m. r \<noteq> Inr (Some m))"
proof -
  obtain r c' where read: "conn_read v c = Some (r, c')"
    and spec: "read_spec v (c_role c) (c_assembler c) (unread c) = Some (r, c_assembler c', unread c')"
    using conn_read_refines [OF assms(1)] by blast
  show ?thesis
    using read read_spec_closed [OF spec assms(2)] by simp
qed

lemma read_close:
  assumes "assembler_inv (c_assembler c)" and "\<not> a_closed (c_assembler c)" and "(c_role c = Client) = (key = None)"
    and "length body \<le> 125" and "length body \<le> unat (max_frame (a_limits (c_assembler c)))"
    and "unread c = wire_frame w key Close True body @ rest"
  shows "\<exists>c'. conn_read v c = Some (map_sum EProtocol (\<lambda>f. Some (MClose f)) (parse_close_body (v_utf8 v) body), c')
     \<and> unread c' = rest \<and> a_closed (c_assembler c') \<and> assembler_inv (c_assembler c')"
proof -
  obtain r c' where c': "conn_read v c = Some (r, c')" "assembler_inv (c_assembler c')"
    "read_spec v (c_role c) (c_assembler c) (unread c) = Some (r, c_assembler c', unread c')"
    using conn_read_refines [OF assms(1)] by blast
  moreover have "consume v (c_role c) (c_assembler c) (unread c) =
      Some (map_sum EProtocol (\<lambda>f. Some (MClose f)) (parse_close_body (v_utf8 v) body),
        (c_assembler c)\<lparr>a_closed := True\<rparr>, rest)"
    using consume_close [OF assms(4,5,2,3), of v w rest] assms(6) by simp
  ultimately have "r = map_sum EProtocol (\<lambda>f. Some (MClose f)) (parse_close_body (v_utf8 v) body)"
    "c_assembler c' = (c_assembler c)\<lparr>a_closed := True\<rparr>" "unread c' = rest"
    by (cases "parse_close_body (v_utf8 v) body"; simp add: read_spec_def)+
  then show ?thesis
    using c'(1,2) by simp
qed

end

section \<open>Properties\<close>

text \<open>C40: A close frame is judged by the rules, from the wire. Whatever body of at most 125 bytes the peer puts
  in a close frame, masked as its role demands, at any point of the conversation, also inside a fragmented
  message: the connection delivers the close when its code may be used and its reason is UTF-8, and
  otherwise fails with the error for the first rule broken, which is reported under 1007 for a reason that
  is not UTF-8 and 1002 for the others. Either way the bytes after the frame are left unread and the connection
  counts as closed, so that nothing after the frame is ever delivered.\<close>

theorem close_judged:
  assumes "connection_env v incoming sent" and "utf8_build (v_utf8 v)"
    and "assembler_inv (c_assembler c)" and "\<not> a_closed (c_assembler c)"
    and "(c_role c = Client) = (key = None)"
    and "length body \<le> 125" and "length body \<le> unat (max_frame (a_limits (c_assembler c)))"
    and "c_data c @ incoming (c_stream c) = wire_frame w key Close True body @ rest"
  shows "\<exists>c'. conn_read v c =
       Some (case close_verdict body of Inr f \<Rightarrow> Inr (Some (MClose f)) | Inl e \<Rightarrow> Inl (EProtocol e), c')
     \<and> c_data c' @ incoming (c_stream c') = rest \<and> a_closed (c_assembler c')
     \<and> (\<forall>e. close_verdict body = Inl e \<longrightarrow>
          error_close_code (EProtocol e) = Some (if e = InvalidUtf8 then CloseCode 1007 else CloseCode 1002))
     \<and> (\<exists>r. map_option fst (conn_read v c') = Some r \<and> (\<forall>m. r \<noteq> Inr (Some m)))"
proof -
  note unread = connection_env.unread_def [OF assms(1)]
  obtain c' where c': "conn_read v c = Some (map_sum EProtocol (\<lambda>f. Some (MClose f)) (close_verdict body), c')"
    "c_data c' @ incoming (c_stream c') = rest" "a_closed (c_assembler c')" "assembler_inv (c_assembler c')"
    using connection_env.read_close [OF assms(1,3-7), of w rest] assms(8)
    by (auto simp: unread parse_close_body_verdict [OF assms(2)])
  moreover have "error_close_code (EProtocol e) = Some (if e = InvalidUtf8 then CloseCode 1007 else CloseCode 1002)"
    if "close_verdict body = Inl e" for e
    using that
    by (cases body rule: close_verdict.cases)
      (auto simp: error_close_code_def close_code_defs Let_def split: if_splits)
  moreover have "map_sum EProtocol (\<lambda>f. Some (MClose f)) x =
      (case x of Inr f \<Rightarrow> Inr (Some (MClose f)) | Inl e \<Rightarrow> Inl (EProtocol e))" for x
    by (cases x) simp_all
  ultimately show ?thesis
    using connection_env.read_closed [OF assms(1)] by (intro exI [of _ c']) simp
qed

theorem close_judged_witness:
  "let frame = wire_frame (pipe_env Big Std) (Some (1, 2, 3, 4)) Close True ([3, 238] @ ascii ''no'');
       c = connection_new (pipe_env Little Std) [] \<lparr>p_pieces = [frame @ [7]], p_sent = []\<rparr> Server default_limits
   in \<exists>c'. conn_read (pipe_env Little Std) c = Some (Inl (EProtocol InvalidCloseCode), c')
        \<and> c_data c' @ pipe_incoming (c_stream c') = [7]"
proof -
  let ?frame = "wire_frame (pipe_env Big Std) (Some (1, 2, 3, 4)) Close True ([3, 238] @ ascii ''no'')"
  let ?c = "connection_new (pipe_env Little Std) [] \<lparr>p_pieces = [?frame @ [7]], p_sent = []\<rparr> Server default_limits"
  have "utf8_build (v_utf8 (pipe_env Little Std))"
    by (simp add: pipe_env_def std_utf8.utf8_build_axioms)
  moreover have "assembler_inv (c_assembler ?c)" "\<not> a_closed (c_assembler ?c)" "c_role ?c = Server"
    "length ([3, 238] @ ascii ''no'' :: bytes) \<le> 125"
    "length ([3, 238] @ ascii ''no'' :: bytes) \<le> unat (max_frame (a_limits (c_assembler ?c)))"
    "c_data ?c @ pipe_incoming (c_stream ?c) = ?frame @ [7]"
    by (simp_all add: connection_new_def with_buffered_def assembler_new_def assembler_inv_def pipe_incoming_def
      default_limits_def ascii_def)
  moreover have "close_verdict ([3, 238] @ ascii ''no'') = Inl InvalidCloseCode"
    by (simp add: ascii_def wire_code_def)
  ultimately show ?thesis
    using close_judged [OF pipe_env.connection_env_axioms, of Little Std ?c "Some (1, 2, 3, 4)" "[3, 238] @ ascii ''no''"
      "pipe_env Big Std" "[7]"]
    by (auto simp: Let_def)
qed

end
