(* ===== verification/Upgrade.thy ===== *)
theory Upgrade
  imports Session
begin

text \<open>
  The opening handshake over a stream (\<open>src/src/upgrade.rs\<close>): reading a head and keeping what comes after
  it, accepting or refusing a request, and connecting. The final state of the stream is returned with
  every result, so that what was sent is visible even where the code drops the stream.
\<close>

section \<open>Definitions\<close>

text \<open>\<open>read_head\<close>: the loop, and its start with an empty buffer. The value \<open>None\<close> is a loop that never
  ends, which only a stream that reports bytes it does not deliver can cause.\<close>

partial_function (option) read_head_loop ::
    "'s env \<Rightarrow> nat \<Rightarrow> 's \<Rightarrow> bytes_mut \<Rightarrow> ((conn_error + bytes \<times> bytes) \<times> 's) option" where
  "read_head_loop v max_head stream buffer =
     (case head_end (bm_data buffer) of
        Some end \<Rightarrow> Some (Inr (take end (bm_data buffer), drop end (bm_data buffer)), stream)
      | None \<Rightarrow>
          if length (bm_data buffer) > max_head then Some (Inl (EUpgrade HeadTooLarge), stream)
          else
            let buffer1 = (if bm_spare buffer < 1024 then bm_reserve (v_alloc v) (2 * 1024) buffer else buffer);
                (read, buffer2, stream') = sx_read_buf (v_stream v) stream buffer1
            in (case read of
                  Inl e \<Rightarrow> Some (Inl (error_from_errno e), stream')
                | Inr k \<Rightarrow>
                    if k = 0 then Some (Inl (EUpgrade Malformed), stream')
                    else read_head_loop v max_head stream' buffer2))"

definition read_head :: "'s env \<Rightarrow> 's \<Rightarrow> nat \<Rightarrow> ((conn_error + bytes \<times> bytes) \<times> 's) option" where
  "read_head v stream max_head = read_head_loop v max_head stream (bm_with_capacity (v_alloc v) (2 * 1024))"

datatype 's upgrade_outcome =
    Upgraded "'s connection" request
  | PlainHttp 's request bytes

text \<open>\<open>From<UpgradeError>\<close>.\<close>

definition error_from_upgrade :: "upgrade_error \<Rightarrow> conn_error" where
  "error_from_upgrade e = EUpgrade e"

definition accept ::
    "'s env \<Rightarrow> bytes \<Rightarrow> 's \<Rightarrow> limits \<Rightarrow> field list \<Rightarrow> (request \<Rightarrow> str option \<times> field list) \<Rightarrow>
       ((conn_error + 's upgrade_outcome) \<times> 's) option" where
  "accept v seed stream limits error_headers select =
     (case read_head v stream DEFAULT_MAX_HEAD of
        None \<Rightarrow> None
      | Some (Inl e, stream1) \<Rightarrow> Some (Inl e, stream1)
      | Some (Inr (head, rest), stream1) \<Rightarrow>
          (case parse_request head DEFAULT_MAX_HEAD of
             Inr (Plain request) \<Rightarrow> Some (Inr (PlainHttp stream1 request rest), stream1)
           | Inl error \<Rightarrow>
               let (_, stream2) = sx_write_all (v_stream v) stream1 (build_rejection error error_headers)
               in Some (Inl (EUpgrade error), stream2)
           | Inr (Upgrade request) \<Rightarrow>
               let (protocol, headers) = select request;
                   response = build_response (r_key request) protocol headers;
                   (written, stream2) = sx_write_all (v_stream v) stream1 response
               in (case written of
                     Inl e \<Rightarrow> Some (Inl (error_from_errno e), stream2)
                   | Inr _ \<Rightarrow> Some (Inr (Upgraded (with_buffered v seed stream2 Server limits rest) request), stream2))))"

definition connect ::
    "'s env \<Rightarrow> bytes \<Rightarrow> 's \<Rightarrow> str \<Rightarrow> str \<Rightarrow> str list \<Rightarrow> field list \<Rightarrow> bytes \<Rightarrow> limits \<Rightarrow>
       ((conn_error + 's connection \<times> str option) \<times> 's) option" where
  "connect v seed stream path host protocols headers entropy limits =
     (let key = new_key entropy;
          request = build_request path host key protocols headers;
          (written, stream1) = sx_write_all (v_stream v) stream request
      in case written of
           Inl e \<Rightarrow> Some (Inl (error_from_errno e), stream1)
         | Inr _ \<Rightarrow>
             (case read_head v stream1 DEFAULT_MAX_HEAD of
                None \<Rightarrow> None
              | Some (Inl e, stream2) \<Rightarrow> Some (Inl e, stream2)
              | Some (Inr (head, rest), stream2) \<Rightarrow>
                  (case check_response head key of
                     Inl e \<Rightarrow> Some (Inl (error_from_upgrade e), stream2)
                   | Inr protocol \<Rightarrow>
                       Some (Inr (with_buffered v seed stream2 Client limits rest, protocol), stream2))))"

section \<open>Reading a head\<close>

text \<open>A stream of bytes has its head at \<open>n\<close> when every piece of it that has arrived says so: no end is found
  before \<open>n\<close> bytes are there, and from then on it is found at \<open>n\<close>.\<close>

definition head_at :: "nat \<Rightarrow> bytes \<Rightarrow> bool" where
  "head_at n data \<longleftrightarrow> n \<le> length data \<and>
     (\<forall>p q. p @ q = data \<longrightarrow> head_end p = (if length p < n then None else Some n))"

text \<open>What reading a head answers when the peer sends \<open>data\<close> and \<open>pending\<close> is what is left of it: a head with
  what arrived after it, nothing lost; or an error, for more than \<open>max_head\<close> bytes without an end, or
  for a peer that ended its side before one.\<close>

definition head_read :: "nat \<Rightarrow> bytes \<Rightarrow> conn_error + bytes \<times> bytes \<Rightarrow> bytes \<Rightarrow> bool" where
  "head_read max_head data r pending \<longleftrightarrow>
     (case r of
        Inr (head, rest) \<Rightarrow> head @ rest @ pending = data \<and> head_end (head @ rest) = Some (length head)
      | Inl e \<Rightarrow>
          (e = EUpgrade HeadTooLarge
             \<and> (\<exists>p. p @ pending = data \<and> head_end p = None \<and> max_head < length p))
          \<or> (e = EUpgrade Malformed \<and> pending = [] \<and> head_end data = None \<and> length data \<le> max_head))"

lemma head_end_bound: "head_end s = Some n \<Longrightarrow> n \<le> length s"
  by (auto simp: head_end_def dest: find_at_bound split: option.splits)

lemma head_at_request:
  assumes "ok_path path" "ok_value host" "is_valid_key key" "list_all ok_token protos" "list_all ok_extra extra"
  shows "head_at (length (build_request path host key protos extra)) (build_request path host key protos extra @ frames)"
  using head_end_prefix [OF _ ok_request_fields [OF assms(2-5)], where start = "ascii ''GET '' @ path @ ascii '' HTTP/1.1''"]
    request_line_words(4) [OF assms(1)]
  by (simp add: head_at_def build_request_eq ok_start_def ascii_def)

lemma head_at_response:
  assumes "case protocol of None \<Rightarrow> True | Some p \<Rightarrow> ok_value p" "list_all ok_extra extra"
  shows "head_at (length (build_response key protocol extra)) (build_response key protocol extra @ frames)"
  using response_head_end [OF assms] by (simp add: head_at_def)

context connection_env
begin

lemma read_head_loop_found:
  assumes "head_at n data" and "n \<le> max_head + 1"
  shows "bm_data buffer @ incoming stream = data \<Longrightarrow>
     \<exists>rest stream'. read_head_loop v max_head stream buffer = Some (Inr (take n data, rest), stream')
       \<and> rest @ incoming stream' = drop n data \<and> sent stream' = sent stream"
proof (induction "length (incoming stream)" arbitrary: stream buffer rule: less_induct)
  case less
  have found: "head_end (bm_data buffer) = (if length (bm_data buffer) < n then None else Some n)"
    using assms(1) less.prems unfolding head_at_def by blast
  show ?case
  proof (cases "length (bm_data buffer) < n")
    case False
    then have "drop n (bm_data buffer) @ incoming stream = drop n data" "take n (bm_data buffer) = take n data"
      using less.prems by (simp_all flip: less.prems)
    then show ?thesis
      using False found by (subst read_head_loop.simps) simp
  next
    case True
    let ?b = "if bm_spare buffer < 1024 then bm_reserve (v_alloc v) (2 * 1024) buffer else buffer"
    have "0 < bm_spare ?b"
      using reserve_spare [of "2 * 1024" buffer] by auto
    from read_buf_piece [OF this, of stream] obtain k b' s' where
      read: "sx_read_buf (v_stream v) stream ?b = (Inr k, b', s')" "k \<le> length (incoming stream)"
        "incoming stream \<noteq> [] \<longrightarrow> 0 < k" "bm_data b' = bm_data ?b @ take k (incoming stream)"
        "incoming s' = drop k (incoming stream)" "sent s' = sent stream"
      by auto
    have "n \<le> length data"
      using assms(1) by (simp add: head_at_def)
    then have "incoming stream \<noteq> []"
      using True less.prems by auto
    then have k: "0 < k"
      using read(3) by blast
    have data: "bm_data b' @ incoming s' = data"
      using read(4,5) less.prems by simp
    have "read_head_loop v max_head stream buffer = read_head_loop v max_head s' b'"
      using True found read(1) k assms(2) by (subst read_head_loop.simps) (simp add: Let_def)
    moreover have "length (incoming s') < length (incoming stream)"
      using k read(2,5) by simp
    ultimately show ?thesis
      using less.hyps [OF _ data] read(6) by simp
  qed
qed

lemma read_head_found:
  assumes "head_at n (incoming stream)" and "n \<le> max_head + 1"
  shows "\<exists>rest stream'. read_head v stream max_head = Some (Inr (take n (incoming stream), rest), stream')
       \<and> rest @ incoming stream' = drop n (incoming stream) \<and> sent stream' = sent stream"
  using read_head_loop_found [OF assms, of "bm_with_capacity (v_alloc v) (2 * 1024)" stream]
  by (simp add: read_head_def)

text \<open>Over a lossless transport reading a head always ends, and nothing that arrived is lost.\<close>

lemma read_head_loop_spec:
  "\<exists>r stream'. read_head_loop v max_head stream buffer = Some (r, stream') \<and> sent stream' = sent stream
     \<and> head_read max_head (bm_data buffer @ incoming stream) r (incoming stream')"
proof (induction "length (incoming stream)" arbitrary: stream buffer rule: less_induct)
  case less
  show ?case
  proof (cases "head_end (bm_data buffer) = None \<and> length (bm_data buffer) \<le> max_head")
    case False
    then show ?thesis
      by (subst read_head_loop.simps)
        (auto simp: head_read_def min_absorb2 dest: head_end_bound split: option.split)
  next
    case True
    let ?b = "if bm_spare buffer < 1024 then bm_reserve (v_alloc v) (2 * 1024) buffer else buffer"
    have "0 < bm_spare ?b"
      using reserve_spare [of "2 * 1024" buffer] by auto
    from read_buf_piece [OF this, of stream] obtain k b' s' where
      read: "sx_read_buf (v_stream v) stream ?b = (Inr k, b', s')" "k \<le> length (incoming stream)"
        "incoming stream \<noteq> [] \<longrightarrow> 0 < k" "bm_data b' = bm_data ?b @ take k (incoming stream)"
        "incoming s' = drop k (incoming stream)" "sent s' = sent stream"
      by auto
    have step: "read_head_loop v max_head stream buffer =
        (if k = 0 then Some (Inl (EUpgrade Malformed), s') else read_head_loop v max_head s' b')"
      using True read(1) by (subst read_head_loop.simps) (simp add: Let_def)
    show ?thesis
    proof (cases "k = 0")
      case True
      with read(3) have "incoming stream = []" by simp
      with True \<open>head_end (bm_data buffer) = None \<and> length (bm_data buffer) \<le> max_head\<close> step read(5,6)
      show ?thesis
        by (simp add: head_read_def)
    next
      case False
      then have "length (incoming s') < length (incoming stream)"
        using read(2,5) by simp
      moreover have "bm_data b' @ incoming s' = bm_data buffer @ incoming stream"
        using read(4,5) by simp
      ultimately show ?thesis
        using less.hyps [of s' b'] step False read(6) by auto
    qed
  qed
qed

lemma read_head_spec:
  "\<exists>r stream'. read_head v stream max_head = Some (r, stream') \<and> sent stream' = sent stream
     \<and> head_read max_head (incoming stream) r (incoming stream')"
  using read_head_loop_spec [of max_head stream "bm_with_capacity (v_alloc v) (2 * 1024)"]
  by (simp add: read_head_def)

lemma write_all_step:
  "sx_write_all (v_stream v) s xs = (r, s') \<Longrightarrow> r = Inr () \<and> sent s' = sent s @ xs \<and> incoming s' = incoming s"
  using write_all_sends [of s xs] by auto

end

section \<open>Fresh connections\<close>

text \<open>A connection just handed out: it has the stream, its role and limits, nothing half read and nothing
  sent on it.\<close>

definition fresh :: "role \<Rightarrow> limits \<Rightarrow> 's connection \<Rightarrow> bool" where
  "fresh role limits c \<longleftrightarrow>
     c_role c = role \<and> idle (c_assembler c) \<and> a_limits (c_assembler c) = limits \<and> \<not> c_close_sent c"

lemma with_buffered_simps:
  "fresh role limits (with_buffered v seed s role limits rest)"
  "c_stream (with_buffered v seed s role limits rest) = s"
  "bm_data (c_read_buffer (with_buffered v seed s role limits rest)) = rest"
  by (simp_all add: fresh_def with_buffered_def assembler_new_def idle_def)

section \<open>Both sides of a handshake\<close>

text \<open>What the client asks for and what the server answers: a request within the limits whose parts a
  header line can carry, and a response likewise.\<close>

definition ok_request :: "str \<Rightarrow> str \<Rightarrow> str list \<Rightarrow> field list \<Rightarrow> bytes \<Rightarrow> bool" where
  "ok_request path host protos extra entropy \<longleftrightarrow>
     ok_path path \<and> ok_value host \<and> list_all ok_token protos \<and> list_all ok_extra extra \<and> length entropy = 16
       \<and> length (request_fields host (new_key entropy) protos extra) \<le> MAX_HEADERS
       \<and> length (build_request path host (new_key entropy) protos extra) \<le> DEFAULT_MAX_HEAD"

definition ok_response :: "bytes \<Rightarrow> str option \<Rightarrow> field list \<Rightarrow> bool" where
  "ok_response key protocol extra \<longleftrightarrow>
     (case protocol of None \<Rightarrow> True | Some p \<Rightarrow> ok_value p) \<and> list_all ok_extra extra
       \<and> length (build_response key protocol extra) \<le> DEFAULT_MAX_HEAD"

text \<open>The request as the server sees it.\<close>

definition seen_request :: "str \<Rightarrow> str \<Rightarrow> str list \<Rightarrow> field list \<Rightarrow> bytes \<Rightarrow> request" where
  "seen_request path host protos extra entropy =
     \<lparr>r_method = Get, r_path = path, r_key = new_key entropy, r_protocols = protos,
      r_headers = request_fields host (new_key entropy) protos extra\<rparr>"

lemma connect_fresh:
  "connect v seed stream path host protos extra entropy limits = Some (Inr (c, protocol), stream') \<Longrightarrow>
     c_stream c = stream' \<and> fresh Client limits c"
  by (auto simp: connect_def Let_def with_buffered_simps split: prod.splits sum.splits option.splits)

context connection_env
begin

lemma accept_spec:
  "\<exists>r stream'. accept v seed stream limits error_headers select = Some (r, stream')
     \<and> (case r of
          Inr (PlainHttp s request rest) \<Rightarrow>
            s = stream' \<and> sent s = sent stream
              \<and> (\<exists>head. head @ rest @ incoming s = incoming stream \<and> head_end (head @ rest) = Some (length head)
                    \<and> parse_request head DEFAULT_MAX_HEAD = Inr (Plain request))
        | Inr (Upgraded c request) \<Rightarrow>
            c_stream c = stream' \<and> fresh Server limits c
              \<and> sent stream' = sent stream
                  @ build_response (r_key request) (fst (select request)) (snd (select request))
              \<and> (\<exists>head. head @ bm_data (c_read_buffer c) @ incoming stream' = incoming stream
                    \<and> head_end (head @ bm_data (c_read_buffer c)) = Some (length head)
                    \<and> parse_request head DEFAULT_MAX_HEAD = Inr (Upgrade request))
        | Inl e \<Rightarrow>
            (\<exists>error head rest. e = EUpgrade error
                 \<and> head @ rest @ incoming stream' = incoming stream \<and> head_end (head @ rest) = Some (length head)
                 \<and> parse_request head DEFAULT_MAX_HEAD = Inl error
                 \<and> sent stream' = sent stream @ build_rejection error error_headers)
            \<or> (sent stream' = sent stream \<and> e = EUpgrade HeadTooLarge
                 \<and> (\<exists>got. got @ incoming stream' = incoming stream \<and> head_end got = None
                       \<and> DEFAULT_MAX_HEAD < length got))
            \<or> (sent stream' = sent stream \<and> e = EUpgrade Malformed
                 \<and> incoming stream' = [] \<and> head_end (incoming stream) = None
                 \<and> length (incoming stream) \<le> DEFAULT_MAX_HEAD))"
proof -
  obtain r stream1 where read: "read_head v stream DEFAULT_MAX_HEAD = Some (r, stream1)"
    "sent stream1 = sent stream" "head_read DEFAULT_MAX_HEAD (incoming stream) r (incoming stream1)"
    using read_head_spec by blast
  note wrote = write_all_step
  show ?thesis
  proof (cases r)
    case (Inl e)
    then show ?thesis
      using read by (auto simp: accept_def head_read_def)
  next
    case (Inr hr)
    then obtain head rest where hr: "r = Inr (head, rest)"
      by (cases hr) auto
    then have head: "head @ rest @ incoming stream1 = incoming stream" "head_end (head @ rest) = Some (length head)"
      using read(3) by (simp_all add: head_read_def)
    show ?thesis
    proof (cases "parse_request head DEFAULT_MAX_HEAD")
      case (Inl error)
      obtain w stream2 where "sx_write_all (v_stream v) stream1 (build_rejection error error_headers) = (w, stream2)"
        by fastforce
      then show ?thesis
        using wrote read(1,2) hr head Inl by (fastforce simp: accept_def)
    next
      case (Inr p)
      show ?thesis
      proof (cases p)
        case (Plain request)
        then show ?thesis
          using read(1,2) hr head Inr by (auto simp: accept_def)
      next
        case (Upgrade request)
        obtain w stream2 where wrote2: "sx_write_all (v_stream v) stream1
            (build_response (r_key request) (fst (select request)) (snd (select request))) = (w, stream2)"
          by fastforce
        show ?thesis
          using wrote [OF wrote2] read(1,2) hr head Inr Upgrade wrote2
          by (auto simp: accept_def Let_def split_def with_buffered_simps)
      qed
    qed
  qed
qed

lemma connect_completes:
  assumes "ok_request path host protos extra entropy" and "ok_response (new_key entropy) protocol headers"
    and "incoming stream = build_response (new_key entropy) protocol headers @ frames"
  shows "\<exists>c stream'. connect v seed stream path host protos extra entropy limits = Some (Inr (c, protocol), stream')
     \<and> c_stream c = stream' \<and> fresh Client limits c \<and> unread c = frames
     \<and> sent stream' = sent stream @ build_request path host (new_key entropy) protos extra"
proof -
  let ?key = "new_key entropy"
  let ?response = "build_response ?key protocol headers"
  obtain w stream1 where wrote: "sx_write_all (v_stream v) stream (build_request path host ?key protos extra) = (w, stream1)"
    by fastforce
  note w = write_all_step [OF wrote]
  have "head_at (length ?response) (incoming stream1)"
    using assms(2,3) w by (simp add: head_at_response ok_response_def)
  from read_head_found [OF this, of DEFAULT_MAX_HEAD] assms(2,3) w obtain rest stream2 where
    read: "read_head v stream1 DEFAULT_MAX_HEAD = Some (Inr (?response, rest), stream2)"
      "rest @ incoming stream2 = frames" "sent stream2 = sent stream1"
    by (auto simp: ok_response_def)
  have "check_response ?response ?key = Inr protocol"
    using assms(2) by (simp add: built_response_accepted ok_response_def)
  then show ?thesis
    using wrote w read by (auto simp: connect_def Let_def with_buffered_simps unread_def)
qed

text \<open>Whatever the server answers, \<open>connect\<close> returns, and writes the request and nothing else.\<close>

lemma connect_sends:
  "\<exists>r stream'. connect v seed stream path host protos extra entropy limits = Some (r, stream')
     \<and> sent stream' = sent stream @ build_request path host (new_key entropy) protos extra"
proof -
  obtain w stream1 where wrote:
    "sx_write_all (v_stream v) stream (build_request path host (new_key entropy) protos extra) = (w, stream1)"
    by fastforce
  obtain r stream2 where "read_head v stream1 DEFAULT_MAX_HEAD = Some (r, stream2)" "sent stream2 = sent stream1"
    using read_head_spec by blast
  then show ?thesis
    using wrote write_all_step [OF wrote]
    by (cases r) (auto simp: connect_def Let_def split: sum.split)
qed

lemma accept_completes:
  assumes "ok_request path host protos extra entropy"
    and "incoming stream = build_request path host (new_key entropy) protos extra @ frames"
  shows "\<exists>c stream'. accept v seed stream limits error_headers select
           = Some (Inr (Upgraded c (seen_request path host protos extra entropy)), stream')
     \<and> c_stream c = stream' \<and> fresh Server limits c \<and> unread c = frames
     \<and> sent stream' = sent stream @ build_response (new_key entropy)
           (fst (select (seen_request path host protos extra entropy)))
           (snd (select (seen_request path host protos extra entropy)))"
proof -
  let ?request = "build_request path host (new_key entropy) protos extra"
  let ?seen = "seen_request path host protos extra entropy"
  have key: "is_valid_key (new_key entropy)"
    using assms(1) by (simp add: ok_request_def new_key_is_valid)
  have "head_at (length ?request) (incoming stream)"
    using assms key by (simp add: head_at_request ok_request_def)
  from read_head_found [OF this, of DEFAULT_MAX_HEAD] assms obtain rest stream1 where
    read: "read_head v stream DEFAULT_MAX_HEAD = Some (Inr (?request, rest), stream1)"
      "rest @ incoming stream1 = frames" "sent stream1 = sent stream"
    by (auto simp: ok_request_def)
  have parse: "parse_request ?request DEFAULT_MAX_HEAD = Inr (Upgrade ?seen)"
    using assms(1) key built_request_parsed by (simp add: ok_request_def seen_request_def)
  obtain w stream2 where wrote: "sx_write_all (v_stream v) stream1
      (build_response (r_key ?seen) (fst (select ?seen)) (snd (select ?seen))) = (w, stream2)"
    by fastforce
  moreover have "r_key ?seen = new_key entropy"
    by (simp add: seen_request_def)
  ultimately show ?thesis
    using write_all_step [OF wrote] read parse
    by (auto simp: accept_def Let_def split_def with_buffered_simps unread_def)
qed

end

section \<open>On any transport\<close>








lemma connect_answer:
  assumes "connect v seed stream path host protocols headers entropy limits = Some (Inr (c, protocol), stream')"
  shows "\<exists>stream1 head rest.
     sx_write_all (v_stream v) stream (build_request path host (new_key entropy) protocols headers) = (Inr (), stream1)
     \<and> read_head v stream1 DEFAULT_MAX_HEAD = Some (Inr (head, rest), stream')
     \<and> response_spec head (new_key entropy) = Inr protocol
     \<and> c = with_buffered v seed stream' Client limits rest"
  using assms
  by (auto simp: connect_def Let_def check_response_is_spec split: prod.splits sum.splits option.splits)

section \<open>Properties\<close>

text \<open>C36: Reading a head always returns, over any lossless transport, however the bytes arrive, and writes
  nothing. It returns a head and what arrived after it with no byte lost, or says the head is too large
  after more than \<open>max_head\<close> bytes without an end, or malformed when the peer ends its side first.\<close>

theorem read_head_returns:
  assumes "connection_env v incoming sent"
  shows "\<exists>r stream'. read_head v stream max_head = Some (r, stream') \<and> sent stream' = sent stream
     \<and> (case r of
          Inr (head, rest) \<Rightarrow>
            head @ rest @ incoming stream' = incoming stream \<and> head_end (head @ rest) = Some (length head)
        | Inl e \<Rightarrow>
            (e = EUpgrade HeadTooLarge
               \<and> (\<exists>p. p @ incoming stream' = incoming stream \<and> head_end p = None \<and> max_head < length p))
            \<or> (e = EUpgrade Malformed \<and> incoming stream' = [] \<and> head_end (incoming stream) = None
                 \<and> length (incoming stream) \<le> max_head))"
  using connection_env.read_head_spec [OF assms] by (simp only: head_read_def)

theorem read_head_returns_witness:
  "\<exists>r s'. read_head (pipe_env Little Std) \<lparr>p_pieces = [[1, 2], [3]], p_sent = [9]\<rparr> 16 = Some (r, s') \<and> p_sent s' = [9]"
  using read_head_returns [OF pipe_env.connection_env_axioms, of Little Std "\<lparr>p_pieces = [[1, 2], [3]], p_sent = [9]\<rparr>" 16]
  by auto



text \<open>A concrete handshake, for the witnesses.\<close>

lemma chat_request: "ok_request (ascii ''/chat'') (ascii ''example.com'') [ascii ''mcp''] [] (replicate 16 7)"
  by (simp add: ok_request_def ok_path_def ok_token_def ascii_def utf8_valid.simps(2) ok_value_ascii
    request_fields_def MAX_HEADERS_def DEFAULT_MAX_HEAD_def build_request_def crlf_def new_key_def base64_roundtrip)

lemma chat_response:
  "ok_response key (Some (ascii ''mcp'')) []" "ok_response key None []"
proof -
  have "length (accept_for key) = 28"
    by (simp add: accept_for_eq base64_roundtrip length_sha1_spec)
  then show "ok_response key (Some (ascii ''mcp'')) []" "ok_response key None []"
    by (simp_all add: ok_response_def ascii_def ok_value_ascii DEFAULT_MAX_HEAD_def build_response_def crlf_def)
qed

text \<open>C5: The handshake completes, on both sides, over any lossless transports, however the bytes are cut
  and however many of the peer's frames arrive with them. When the server reads what \<open>connect\<close> writes and
  the client reads what \<open>accept\<close> writes, the server hands out a connection and the request with the
  client's path, key, protocols and headers, the client one and the protocol the server chose; each has
  sent nothing else, and each connection starts with exactly the frames the other side sent after its
  head.\<close>

theorem handshake_completes:
  assumes "connection_env vc incc sentc" and "connection_env vs incs sents"
    and "ok_request path host protos extra entropy"
    and "request = seen_request path host protos extra entropy" and "select request = (protocol, headers)"
    and "ok_response (new_key entropy) protocol headers"
    and "incs ss = build_request path host (new_key entropy) protos extra @ client_frames"
    and "incc sc = build_response (new_key entropy) protocol headers @ server_frames"
  shows "\<exists>cc sc' cs ss'.
     connect vc seedc sc path host protos extra entropy lc = Some (Inr (cc, protocol), sc')
     \<and> accept vs seeds ss ls error_headers select = Some (Inr (Upgraded cs request), ss')
     \<and> c_stream cc = sc' \<and> fresh Client lc cc \<and> bm_data (c_read_buffer cc) @ incc sc' = server_frames
     \<and> c_stream cs = ss' \<and> fresh Server ls cs \<and> bm_data (c_read_buffer cs) @ incs ss' = client_frames
     \<and> sentc sc' = sentc sc @ build_request path host (new_key entropy) protos extra
     \<and> sents ss' = sents ss @ build_response (new_key entropy) protocol headers"
  using connection_env.connect_completes [OF assms(1,3,6,8), of seedc lc]
    connection_env.accept_completes [OF assms(2,3,7), of seeds ls error_headers select] assms(4,5)
  by (auto simp: connection_env.unread_def [OF assms(1)] connection_env.unread_def [OF assms(2)])

theorem handshake_completes_witness:
  "let key = new_key (replicate 16 7);
       request = build_request (ascii ''/chat'') (ascii ''example.com'') key [ascii ''mcp''] [];
       response = build_response key (Some (ascii ''mcp'')) [];
       client = \<lparr>p_pieces = [response @ [1, 2, 3]], p_sent = []\<rparr>;
       server = \<lparr>p_pieces = map (\<lambda>b. [b]) request @ [[4, 5]], p_sent = []\<rparr>
   in \<exists>cc sc' cs ss'.
        connect (pipe_env Little Std) [] client (ascii ''/chat'') (ascii ''example.com'') [ascii ''mcp''] []
          (replicate 16 7) default_limits = Some (Inr (cc, Some (ascii ''mcp'')), sc')
        \<and> accept (pipe_env Big Std) [] server default_limits [] (\<lambda>r. (Some (hd (r_protocols r)), []))
            = Some (Inr (Upgraded cs (seen_request (ascii ''/chat'') (ascii ''example.com'') [ascii ''mcp''] []
                (replicate 16 7))), ss')
        \<and> bm_data (c_read_buffer cs) @ pipe_incoming ss' = [4, 5] \<and> p_sent ss' = response"
  using handshake_completes [OF pipe_env.connection_env_axioms pipe_env.connection_env_axioms chat_request refl
      _ chat_response(1), of "\<lambda>r. (Some (hd (r_protocols r)), [])"
        "\<lparr>p_pieces = map (\<lambda>b. [b]) (build_request (ascii ''/chat'') (ascii ''example.com'') (new_key (replicate 16 7))
            [ascii ''mcp''] []) @ [[4, 5]], p_sent = []\<rparr>" "[4, 5]"
        "\<lparr>p_pieces = [build_response (new_key (replicate 16 7)) (Some (ascii ''mcp'')) [] @ [1, 2, 3]], p_sent = []\<rparr>"
        "[1, 2, 3]" Little Std "[]" default_limits Big Std "[]" default_limits "[]"]
  by (simp add: pipe_incoming_def seen_request_def Let_def del: replicate_numeral) blast

text \<open>C19: On any transport, a client gets a connection only from a server that proved it read this
  request: the request was written, a head was read, its last accept field is the base64 text of the
  SHA-1 digest of the key sent and the GUID of RFC 6455, and the protocol handed out is its last
  protocol field. The connection is the client's, fresh, and keeps every byte that came after the head.\<close>

theorem connect_sound:
  assumes "connect v seed stream path host protocols headers entropy limits = Some (Inr (c, protocol), stream')"
  shows "\<exists>stream1 head rest.
     sx_write_all (v_stream v) stream (build_request path host (new_key entropy) protocols headers) = (Inr (), stream1)
     \<and> read_head v stream1 DEFAULT_MAX_HEAD = Some (Inr (head, rest), stream')
     \<and> (let fields = lenient_fields (tl (map trim_end_cr (split_char 10 head)))
        in last_field (ascii ''sec-websocket-accept'') fields
             = Some (base64_encode (sha1_spec (new_key entropy @ WS_GUID)))
           \<and> last_field (ascii ''sec-websocket-protocol'') fields = protocol)
     \<and> c_stream c = stream' \<and> bm_data (c_read_buffer c) = rest \<and> fresh Client limits c"
proof -
  have accepted: "response_spec head key = Inr protocol \<Longrightarrow>
     (let fields = lenient_fields (tl (map trim_end_cr (split_char 10 head)))
      in last_field (ascii ''sec-websocket-accept'') fields = Some (base64_encode (sha1_spec (key @ WS_GUID)))
         \<and> last_field (ascii ''sec-websocket-protocol'') fields = protocol)" for head key
    by (auto simp: response_spec_def accept_for_eq Let_def split: if_splits)
  show ?thesis
    using connect_answer [OF assms] accepted by (fastforce simp: with_buffered_simps)
qed

theorem connect_sound_witness:
  "let key = new_key (replicate 16 7)
   in \<exists>head :: bytes. last_field (ascii ''sec-websocket-accept'') (lenient_fields (tl (map trim_end_cr (split_char 10 head))))
         = Some (base64_encode (sha1_spec (key @ WS_GUID)))"
proof -
  let ?key = "new_key (replicate 16 7)"
  let ?s = "\<lparr>p_pieces = [build_response ?key None []], p_sent = []\<rparr>"
  obtain c s' where "connect (pipe_env Little Std) [] ?s (ascii ''/chat'') (ascii ''example.com'') [ascii ''mcp''] []
      (replicate 16 7) default_limits = Some (Inr (c, None), s')"
    using connection_env.connect_completes [OF pipe_env.connection_env_axioms chat_request chat_response(2), of ?s "[]" Little Std "[]" default_limits]
    by (auto simp: pipe_incoming_def)
  from connect_sound [OF this] show ?thesis
    by (auto simp: Let_def)
qed





end
