(* ===== verification/Client.thy ===== *)
theory Client
  imports Upgrade
begin

text \<open>
  Opening a connection from a URL (\<open>src/src/client.rs\<close>): parsing the URL, the \<open>Host\<close> header, and the two
  ways to connect. The resolver and the sockets of \<open>nagoya\<close>, the TLS library and the constants of \<open>libc\<close>
  are parameters.
\<close>

section \<open>Definitions\<close>

record url =
  u_secure :: bool
  u_host :: str
  u_port :: u16
  u_path :: str

text \<open>\<open>split_once\<close> with a string: at its first occurrence.\<close>

definition split_once_str :: "str \<Rightarrow> str \<Rightarrow> (str \<times> str) option" where
  "split_once_str p s = map_option (\<lambda>at. (take at s, drop (at + length p) s)) (find_at p s)"

definition parse_port :: "str \<Rightarrow> conn_error + u16" where
  "parse_port port =
     (case parse_u16 port of None \<Rightarrow> Inl (EUrl (ascii ''port is not a number'')) | Some p \<Rightarrow> Inr p)"

text \<open>The host and the port of the authority: a bracket is 91 and 93, a colon 58.\<close>

definition parse_authority :: "str \<Rightarrow> u16 \<Rightarrow> conn_error + str \<times> u16" where
  "parse_authority authority default_port =
     (case strip_prefix [91] authority of
        Some rest \<Rightarrow>
          (case split_once 93 rest of
             None \<Rightarrow> Inl (EUrl (ascii ''unclosed bracket in host''))
           | Some (host, after) \<Rightarrow>
               (case strip_prefix [58] after of
                  Some port \<Rightarrow> map_sum id (Pair host) (parse_port port)
                | None \<Rightarrow>
                    if after = [] then Inr (host, default_port)
                    else Inl (EUrl (ascii ''unexpected text after host''))))
      | None \<Rightarrow>
          (case rsplit_once 58 authority of
             Some (host, port) \<Rightarrow> map_sum id (Pair host) (parse_port port)
           | None \<Rightarrow> Inr (authority, default_port)))"

text \<open>The path starts at the first slash (47) after the authority.\<close>

definition split_path :: "str \<Rightarrow> str \<times> str" where
  "split_path rest =
     (case find_at [47] rest of
        Some at \<Rightarrow> (take at rest, drop at rest)
      | None \<Rightarrow> (rest, ascii ''/''))"

text \<open>What follows the scheme; an at sign is 64.\<close>

definition parse_rest :: "bool \<Rightarrow> str \<Rightarrow> conn_error + url" where
  "parse_rest secure rest =
     (let (authority, path) = split_path rest
      in if authority = [] then Inl (EUrl (ascii ''missing host''))
         else if 64 \<in> set authority then Inl (EUrl (ascii ''credentials are not supported''))
         else
           let default_port = (if secure then 443 else 80)
           in map_sum id (\<lambda>(host, port). \<lparr>u_secure = secure, u_host = host, u_port = port, u_path = path\<rparr>)
                (parse_authority authority default_port))"

definition url_parse :: "str \<Rightarrow> conn_error + url" where
  "url_parse input =
     (case split_once_str (ascii ''://'') input of
        None \<Rightarrow> Inl (EUrl (ascii ''missing scheme''))
      | Some (scheme, rest) \<Rightarrow>
          if scheme = ascii ''ws'' then parse_rest False rest
          else if scheme = ascii ''wss'' then parse_rest True rest
          else Inl (EUrl (ascii ''scheme is not ws or wss'')))"

text \<open>The decimal digits \<open>format!\<close> writes.\<close>

fun decimal :: "nat \<Rightarrow> str" where
  "decimal n = (if n < 10 then [48 + of_nat n] else decimal (n div 10) @ [48 + of_nat (n mod 10)])"

declare decimal.simps [simp del]

definition host_header :: "url \<Rightarrow> str" where
  "host_header u =
     (let default = (if u_secure u then 443 else 80)
      in if u_port u = default then u_host u else u_host u @ [58] @ decimal (unat (u_port u)))"

record 'cfg client_options =
  o_protocols :: "str list"
  o_headers :: "field list"
  o_entropy :: bytes
  o_limits :: limits
  o_tls :: "'cfg option"

definition default_options :: "'cfg client_options" where
  "default_options =
     \<lparr>o_protocols = [], o_headers = [], o_entropy = ascii ''nago-wss-default'', o_limits = default_limits,
      o_tls = None\<rparr>"

text \<open>What the resolver of \<open>nagoya\<close> reports, as \<open>resolve_host\<close> matches it.\<close>

datatype resolve_error = ResolveNul | ResolveFailed int | ResolveEmpty

text \<open>The network: the resolver, \<open>connect_any\<close> and \<open>EAI_NONAME\<close>.\<close>

record ('a, 's) network =
  n_resolve :: "str \<Rightarrow> u16 \<Rightarrow> resolve_error + 'a list"
  n_connect_any :: "'a list \<Rightarrow> 's io"
  n_eai_noname :: int

definition resolve_host :: "('a, 's) network \<Rightarrow> str \<Rightarrow> u16 \<Rightarrow> conn_error + 'a list" where
  "resolve_host n host port =
     map_sum (\<lambda>error. case error of
                ResolveNul \<Rightarrow> EUrl (ascii ''host has a nul byte'')
              | ResolveFailed _ \<Rightarrow> EIo (Errno (n_eai_noname n))
              | ResolveEmpty \<Rightarrow> EIo (Errno (n_eai_noname n)))
       id (n_resolve n host port)"

record 's connected =
  d_connection :: "'s connection"
  d_protocol :: "str option"

text \<open>With every result comes the final state of the stream, when there is one. The value \<open>None\<close> is a
  connect that never returns.\<close>

definition connect_plain ::
    "'s env \<Rightarrow> ('a, 's) network \<Rightarrow> bytes \<Rightarrow> url \<Rightarrow> 'cfg client_options \<Rightarrow>
       ((conn_error + 's connected) \<times> 's option) option" where
  "connect_plain v n seed u options =
     (case resolve_host n (u_host u) (u_port u) of
        Inl e \<Rightarrow> Some (Inl e, None)
      | Inr addrs \<Rightarrow>
          (case n_connect_any n addrs of
             Inl e \<Rightarrow> Some (Inl (EIo e), None)
           | Inr stream \<Rightarrow>
               map_option
                 (\<lambda>(r, stream').
                    (map_sum id (\<lambda>(c, protocol). \<lparr>d_connection = c, d_protocol = protocol\<rparr>) r, Some stream'))
                 (connect v seed stream (u_path u) (host_header u) (o_protocols options) (o_headers options)
                    (o_entropy options) (o_limits options))))"

text \<open>TLS: the default configuration, absent when the trust anchors are not bundled, the server name, the
  session, the wrapped stream and its handshake, and \<open>EPROTO\<close>.\<close>

record ('s, 't, 'cfg, 'name, 'sess) tls =
  t_default_config :: "'cfg option"
  t_server_name :: "str \<Rightarrow> 'name option"
  t_session :: "'cfg \<Rightarrow> 'name \<Rightarrow> 'sess option"
  t_client :: "'s \<Rightarrow> 'sess \<Rightarrow> 't"
  t_handshake :: "'t \<Rightarrow> unit io \<times> 't"
  t_eproto :: int

text \<open>A TLS session takes the default methods of \<open>StreamExt\<close> (\<open>src/src/tls.rs\<close>).\<close>

definition tls_stream_ext :: "alloc \<Rightarrow> 't byte_stream \<Rightarrow> 't stream_ext" where
  "tls_stream_ext al session = default_ext al session"

definition tls_config :: "('s, 't, 'cfg, 'name, 'sess) tls \<Rightarrow> 'cfg option \<Rightarrow> conn_error + 'cfg" where
  "tls_config t chosen =
     (case chosen of
        Some config \<Rightarrow> Inr config
      | None \<Rightarrow>
          (case t_default_config t of
             Some config \<Rightarrow> Inr config
           | None \<Rightarrow>
               Inl (EUrl (ascii ''wss:// needs a TLS configuration: this build has no bundled roots''))))"

definition connect_secure ::
    "'t env \<Rightarrow> ('a, 's) network \<Rightarrow> ('s, 't, 'cfg, 'name, 'sess) tls \<Rightarrow> bytes \<Rightarrow> url \<Rightarrow> 'cfg client_options \<Rightarrow>
       ((conn_error + 't connected) \<times> 't option) option" where
  "connect_secure v n t seed u options =
     (case resolve_host n (u_host u) (u_port u) of
        Inl e \<Rightarrow> Some (Inl e, None)
      | Inr addrs \<Rightarrow>
          (case n_connect_any n addrs of
             Inl e \<Rightarrow> Some (Inl (EIo e), None)
           | Inr stream \<Rightarrow>
               (case tls_config t (o_tls options) of
                  Inl e \<Rightarrow> Some (Inl e, None)
                | Inr config \<Rightarrow>
                    (case t_server_name t (u_host u) of
                       None \<Rightarrow> Some (Inl (EUrl (ascii ''host is not a valid server name'')), None)
                     | Some name \<Rightarrow>
                         (case t_session t config name of
                            None \<Rightarrow> Some (Inl (EIo (Errno (t_eproto t))), None)
                          | Some session \<Rightarrow>
                              let (shaken, tls) = t_handshake t (t_client t stream session)
                              in (case shaken of
                                    Inl e \<Rightarrow> Some (Inl (error_from_errno e), Some tls)
                                  | Inr _ \<Rightarrow>
                                      map_option
                                        (\<lambda>(r, tls').
                                           (map_sum id (\<lambda>(c, protocol). \<lparr>d_connection = c, d_protocol = protocol\<rparr>) r,
                                            Some tls'))
                                        (connect v seed tls (u_path u) (host_header u) (o_protocols options)
                                           (o_headers options) (o_entropy options) (o_limits options))))))))"

section \<open>Searching\<close>

lemma find_at_char_append: "c \<notin> set a \<Longrightarrow> find_at [c] (a @ c # b) = Some (length a)"
  by (induction a) auto

lemma find_at_char_None: "find_at [c] s = None \<longleftrightarrow> c \<notin> set s"
  by (induction s) auto

lemma find_at_char_SomeD: "find_at [c] s = Some i \<Longrightarrow> c \<notin> set (take i s) \<and> (\<exists>t. drop i s = c # t)"
proof (induction s arbitrary: i)
  case (Cons x xs)
  then show ?case
    by (cases i) (auto split: if_splits)
qed simp

lemma find_at_take: "find_at w s = Some i \<Longrightarrow> s = take i s @ w @ drop (i + length w) s"
proof (induction s arbitrary: i)
  case (Cons x xs)
  show ?case
  proof (cases "take (length w) (x # xs) = w")
    case True
    then have "i = 0"
      using Cons.prems by simp
    then show ?thesis
      using append_take_drop_id [of "length w" "x # xs"] unfolding True by simp
  next
    case False
    then obtain j where "find_at w xs = Some j" "i = Suc j"
      using Cons.prems by auto
    then show ?thesis
      using Cons.IH [of j] by simp
  qed
qed simp

lemma split_scheme:
  "split_once_str (ascii ''://'') s = Some (ascii ''ws'', rest) \<longleftrightarrow> s = ascii ''ws'' @ ascii ''://'' @ rest"
  "split_once_str (ascii ''://'') s = Some (ascii ''wss'', rest) \<longleftrightarrow> s = ascii ''wss'' @ ascii ''://'' @ rest"
proof -
  have "split_once_str p s = Some (a, b) \<Longrightarrow> s = a @ p @ b" for p a b
    using find_at_take [of p s] by (auto simp: split_once_str_def)
  moreover have "split_once_str (ascii ''://'') (ascii ''ws'' @ ascii ''://'' @ rest) = Some (ascii ''ws'', rest)"
    "split_once_str (ascii ''://'') (ascii ''wss'' @ ascii ''://'' @ rest) = Some (ascii ''wss'', rest)"
    by (simp_all add: split_once_str_def ascii_def)
  ultimately show
    "split_once_str (ascii ''://'') s = Some (ascii ''ws'', rest) \<longleftrightarrow> s = ascii ''ws'' @ ascii ''://'' @ rest"
    "split_once_str (ascii ''://'') s = Some (ascii ''wss'', rest) \<longleftrightarrow> s = ascii ''wss'' @ ascii ''://'' @ rest"
    by blast+
qed

section \<open>Ports\<close>

lemma digits_free:
  assumes "parse_u16 ds = Some p"
  shows "58 \<notin> set ds" and "47 \<notin> set ds" and "64 \<notin> set ds"
proof -
  have "b = 43 \<or> is_digit b" if "b \<in> set ds" for b
    using assms that by (cases ds) (auto simp: parse_u16_def Let_def list_all_iff split: if_splits)
  then show "58 \<notin> set ds" and "47 \<notin> set ds" and "64 \<notin> set ds"
    by (fastforce simp: is_digit_def)+
qed

lemma digit_of: "n < 10 \<Longrightarrow> unat (48 + of_nat n :: u8) = 48 + n"
  by (simp add: unat_word_ariths unat_of_nat)

lemma decimal_digits: "list_all is_digit (decimal n) \<and> decimal n \<noteq> []"
proof (induction n rule: decimal.induct)
  case (1 n)
  have "is_digit (48 + of_nat k)" if "k < 10" for k
    using digit_of [OF that] that by (simp add: is_digit_def word_le_nat_alt)
  then show ?case
    using 1 by (subst (1 2) decimal.simps) (simp add: list_all_iff)
qed

lemma decimal_number: "foldl (\<lambda>n b. 10 * n + unat (b - 48 :: u8)) 0 (decimal n) = n"
proof (induction n rule: decimal.induct)
  case (1 n)
  have "unat (48 + of_nat k - 48 :: u8) = k" if "k < 10" for k
    using that by (simp add: unat_of_nat)
  then show ?case
    using 1 by (subst decimal.simps) simp
qed

lemma parse_decimal: "parse_u16 (decimal (unat p)) = Some p"
proof -
  have "hd (decimal (unat p)) \<noteq> 43"
    using decimal_digits [of "unat p"] by (cases "decimal (unat p)") (auto simp: is_digit_def)
  then have "(case decimal (unat p) of b # rest \<Rightarrow> if b = 43 then rest else decimal (unat p) | [] \<Rightarrow> decimal (unat p))
      = decimal (unat p)"
    by (cases "decimal (unat p)") auto
  moreover have "unat p < 2 ^ 16"
    using unsigned_less [of p] by simp
  ultimately show ?thesis
    using decimal_digits [of "unat p"] by (simp add: parse_u16_def Let_def decimal_number del: power_numeral)
qed

section \<open>Which texts are URLs\<close>

text \<open>The authority of a host and a port: a bracketed host, or one that does not begin with a bracket;
  then a colon and the port, or nothing for the scheme's default, when the host without brackets has no
  colon of its own.\<close>

definition authority_text :: "str \<Rightarrow> u16 \<Rightarrow> u16 \<Rightarrow> str \<Rightarrow> bool" where
  "authority_text host port dflt authority \<longleftrightarrow>
     (93 \<notin> set host
        \<and> ((\<exists>digits. authority = 91 # host @ 93 # 58 # digits \<and> parse_u16 digits = Some port)
           \<or> authority = 91 # host @ [93] \<and> port = dflt))
     \<or> (strip_prefix [91] authority = None
        \<and> ((\<exists>digits. authority = host @ 58 # digits \<and> parse_u16 digits = Some port)
           \<or> authority = host \<and> 58 \<notin> set host \<and> port = dflt))"

definition scheme_of :: "url \<Rightarrow> str" where
  "scheme_of u = (if u_secure u then ascii ''wss'' else ascii ''ws'')"

definition default_port :: "url \<Rightarrow> u16" where
  "default_port u = (if u_secure u then 443 else 80)"

text \<open>A path, as it may stand after the authority.\<close>

definition path_text :: "str \<Rightarrow> str \<Rightarrow> bool" where
  "path_text path s \<longleftrightarrow> (if s = [] then path = ascii ''/'' else hd s = 47 \<and> path = s)"

text \<open>What the parser does with a text, said without it: the scheme, an authority without slash or at sign,
  and the path, which is a slash when it is left out. A step towards the grammar below, not a
  specification: the host may be empty and may hold what belongs to the query.\<close>

definition url_text :: "url \<Rightarrow> str \<Rightarrow> bool" where
  "url_text u s \<longleftrightarrow>
     (\<exists>authority path. s = scheme_of u @ ascii ''://'' @ authority @ path
        \<and> authority \<noteq> [] \<and> 47 \<notin> set authority \<and> 64 \<notin> set authority
        \<and> authority_text (u_host u) (u_port u) (default_port u) authority \<and> path_text (u_path u) path)"

lemma parse_port_Inr: "parse_port ds = Inr p \<longleftrightarrow> parse_u16 ds = Some p"
  by (simp add: parse_port_def split: option.split)

lemma map_sum_Inr_iff: "map_sum f g x = Inr y \<longleftrightarrow> (\<exists>z. x = Inr z \<and> g z = y)"
  by (cases x) auto

lemma strip_char_Some: "strip_prefix [c] s = Some t \<longleftrightarrow> s = c # t"
  by (simp add: strip_prefix_Some_iff)

lemma strip_char_None: "strip_prefix [c] s = None \<longleftrightarrow> (\<forall>t. s \<noteq> c # t)"
  by (cases s) (auto simp: strip_prefix_def)

lemma rsplit_once_SomeD: "rsplit_once c s = Some (a, b) \<Longrightarrow> s = a @ c # b"
  by (auto simp: rsplit_once_def rev_swap dest!: split_once_SomeD)

lemma parse_authority_exact:
  "parse_authority authority dflt = Inr (host, port) \<longleftrightarrow> authority_text host port dflt authority"
proof (cases "strip_prefix [91] authority")
  case None
  then have plain: "authority \<noteq> 91 # t" for t
    by (auto simp: strip_prefix_def)
  have split: "rsplit_once 58 authority = Some (h, ds) \<and> parse_u16 ds = Some port
      \<longleftrightarrow> authority = h @ 58 # ds \<and> parse_u16 ds = Some port" for h ds
    using rsplit_once_append [OF digits_free(1), of ds port h] rsplit_once_SomeD [of 58 authority h ds] by auto
  have "authority_text host port dflt authority \<longleftrightarrow>
      (\<exists>ds. rsplit_once 58 authority = Some (host, ds) \<and> parse_u16 ds = Some port)
      \<or> (authority = host \<and> rsplit_once 58 authority = None \<and> port = dflt)"
    unfolding split using None plain by (auto simp: authority_text_def rsplit_once_free)
  then show ?thesis
    using None
    by (cases "rsplit_once 58 authority")
      (auto simp: parse_authority_def map_sum_Inr_iff parse_port_Inr)
next
  case (Some rest)
  then have authority: "authority = 91 # rest"
    by (simp add: strip_char_Some)
  show ?thesis
  proof (cases "split_once 93 rest")
    case None
    then have "93 \<notin> set rest"
      by (simp add: split_once_free)
    then show ?thesis
      using None Some authority by (auto simp: parse_authority_def authority_text_def)
  next
    case split: (Some ha)
    obtain h after where ha: "split_once 93 rest = Some (h, after)" "rest = h @ 93 # after" "93 \<notin> set h"
      using split split_once_SomeD by (cases ha) blast
    have split: "rest = host @ 93 # t \<and> 93 \<notin> set host \<longleftrightarrow> h = host \<and> after = t" for t
    proof
      assume "rest = host @ 93 # t \<and> 93 \<notin> set host"
      then show "h = host \<and> after = t"
        using split_once_append [of 93 host t] ha(1) by simp
    qed (use ha(2,3) in blast)
    have "authority_text host port dflt authority \<longleftrightarrow>
        (\<exists>digits. (rest = host @ 93 # 58 # digits \<and> 93 \<notin> set host) \<and> parse_u16 digits = Some port)
        \<or> (rest = host @ 93 # [] \<and> 93 \<notin> set host) \<and> port = dflt"
      using Some authority by (auto simp: authority_text_def)
    then have iff: "authority_text host port dflt authority \<longleftrightarrow>
        h = host \<and> ((\<exists>digits. after = 58 # digits \<and> parse_u16 digits = Some port) \<or> after = [] \<and> port = dflt)"
      unfolding split by blast
    have "parse_authority authority dflt =
        (case strip_prefix [58] after of
           Some port \<Rightarrow> map_sum id (Pair h) (parse_port port)
         | None \<Rightarrow>
             if after = [] then Inr (h, dflt) else Inl (EUrl (ascii ''unexpected text after host'')))"
      by (simp add: parse_authority_def Some ha(1))
    then show ?thesis
      unfolding iff
      by (cases "strip_prefix [58] after")
        (auto simp: map_sum_Inr_iff parse_port_Inr strip_char_Some strip_char_None)
  qed
qed

lemma split_path_exact:
  "split_path rest = (authority, path) \<longleftrightarrow>
     (\<exists>s. rest = authority @ s \<and> 47 \<notin> set authority \<and> path_text path s)"
proof (cases "find_at [47] rest")
  case None
  then have "47 \<notin> set rest"
    by (simp add: find_at_char_None)
  then have "rest = authority @ s \<and> path_text path s \<longleftrightarrow> s = [] \<and> authority = rest \<and> path = ascii ''/''" for s
    by (cases s) (auto simp: path_text_def)
  then show ?thesis
    using None \<open>47 \<notin> set rest\<close> by (auto simp: split_path_def)
next
  case (Some at)
  obtain t where t: "47 \<notin> set (take at rest)" "drop at rest = 47 # t"
    using find_at_char_SomeD [OF Some] by blast
  then have rest: "rest = take at rest @ 47 # t"
    by (metis append_take_drop_id)
  show ?thesis
  proof
    assume "split_path rest = (authority, path)"
    then show "\<exists>s. rest = authority @ s \<and> 47 \<notin> set authority \<and> path_text path s"
      using Some t rest by (auto simp: split_path_def path_text_def)
  next
    assume "\<exists>s. rest = authority @ s \<and> 47 \<notin> set authority \<and> path_text path s"
    then obtain s where s: "rest = authority @ s" "47 \<notin> set authority" "path_text path s"
      by blast
    have "47 \<in> set rest"
      using rest by (metis in_set_conv_decomp)
    then have "s \<noteq> []"
      using s by auto
    then obtain u where "s = 47 # u" "path = s"
      using s(3) by (cases s) (auto simp: path_text_def)
    then show "split_path rest = (authority, path)"
      using find_at_char_append [OF s(2), of u] s(1) by (simp add: split_path_def)
  qed
qed

lemma parse_rest_exact:
  "parse_rest secure rest = Inr u \<longleftrightarrow>
     u_secure u = secure \<and> (\<exists>authority s. rest = authority @ s \<and> 47 \<notin> set authority \<and> path_text (u_path u) s
        \<and> authority \<noteq> [] \<and> 64 \<notin> set authority
        \<and> authority_text (u_host u) (u_port u) (default_port u) authority)"
proof -
  obtain authority path where split: "split_path rest = (authority, path)"
    by fastforce
  have "parse_rest secure rest = Inr u \<longleftrightarrow> u_secure u = secure \<and> u_path u = path \<and> authority \<noteq> [] \<and> 64 \<notin> set authority
      \<and> authority_text (u_host u) (u_port u) (default_port u) authority"
    using split
    by (cases u) (auto simp: parse_rest_def Let_def map_sum_Inr_iff parse_authority_exact default_port_def)
  also have "\<dots> \<longleftrightarrow> u_secure u = secure \<and> (\<exists>authority. split_path rest = (authority, u_path u)
      \<and> authority \<noteq> [] \<and> 64 \<notin> set authority \<and> authority_text (u_host u) (u_port u) (default_port u) authority)"
    using split by auto
  finally show ?thesis
    unfolding split_path_exact by blast
qed

lemma url_parse_text: "url_parse s = Inr u \<longleftrightarrow> url_text u s"
proof -
  have "url_parse s = Inr u \<longleftrightarrow>
      (\<exists>rest. split_once_str (ascii ''://'') s = Some (ascii ''ws'', rest) \<and> parse_rest False rest = Inr u)
      \<or> (\<exists>rest. split_once_str (ascii ''://'') s = Some (ascii ''wss'', rest) \<and> parse_rest True rest = Inr u)"
    by (auto simp: url_parse_def ascii_eq_iff split: option.splits if_splits)
  also have "\<dots> \<longleftrightarrow> (\<exists>rest. s = scheme_of u @ ascii ''://'' @ rest \<and> parse_rest (u_secure u) rest = Inr u)"
    unfolding split_scheme by (auto simp: scheme_of_def parse_rest_exact)
  finally show ?thesis
    unfolding parse_rest_exact url_text_def by blast
qed

section \<open>The grammar of RFC 6455\<close>


















section \<open>Properties\<close>


text \<open>How a URL is written: a host with a colon in brackets, the port only when it is not the default.\<close>

definition url_print :: "url \<Rightarrow> str" where
  "url_print u =
     scheme_of u @ ascii ''://''
       @ (if 58 \<in> set (u_host u) then
            91 # u_host u @ 93 # (if u_port u = default_port u then [] else 58 # decimal (unat (u_port u)))
          else host_header u)
       @ u_path u"

text \<open>A URL is read back from its text, for every host without a bracket, slash or at sign, every
  port and every path. For hosts without a colon the text between scheme and path is the value of the
  \<open>Host\<close> header.\<close>

lemma url_roundtrip:
  assumes "u_host u \<noteq> []" "set (u_host u) \<inter> {47, 64, 91, 93} = {}" "u_path u \<noteq> []" "hd (u_path u) = 47"
  shows "url_parse (url_print u) = Inr u"
proof -
  let ?authority = "if 58 \<in> set (u_host u) then
            91 # u_host u @ 93 # (if u_port u = default_port u then [] else 58 # decimal (unat (u_port u)))
          else host_header u"
  note digits = parse_decimal [of "u_port u"] digits_free [OF parse_decimal [of "u_port u"]]
  have header: "host_header u = u_host u @ (if u_port u = default_port u then [] else 58 # decimal (unat (u_port u)))"
    by (simp add: host_header_def default_port_def Let_def)
  have plain: "strip_prefix [91] (u_host u @ x) = None" for x
    using assms(1,2) by (cases "u_host u") (auto simp: strip_char_None)
  have "authority_text (u_host u) (u_port u) (default_port u) ?authority"
    using assms(2) digits(1) plain plain [of "[]"] by (auto simp: authority_text_def header)
  moreover have "?authority \<noteq> []" "47 \<notin> set ?authority" "64 \<notin> set ?authority"
    using assms(1,2) digits(3,4) by (auto simp: header)
  moreover have "path_text (u_path u) (u_path u)"
    using assms(3,4) by (simp add: path_text_def)
  ultimately show ?thesis
    unfolding url_parse_text url_text_def url_print_def by blast
qed

text \<open>A client that resolves the host, reaches an address and is answered by the response to its
  request is connected: it gets the protocol the server chose and a connection that begins with exactly
  the frames sent after the response, and it has sent the request for the URL's path and \<open>Host\<close> value
  and nothing else.\<close>

lemma connect_plain_completes:
  assumes "connection_env v incoming sent"
    and "n_resolve n (u_host u) (u_port u) = Inr addrs" and "n_connect_any n addrs = Inr stream"
    and "ok_request (u_path u) (host_header u) (o_protocols options) (o_headers options) (o_entropy options)"
    and "ok_response (new_key (o_entropy options)) protocol headers"
    and "incoming stream = build_response (new_key (o_entropy options)) protocol headers @ frames"
  shows "\<exists>c stream'. connect_plain v n seed u options
           = Some (Inr \<lparr>d_connection = c, d_protocol = protocol\<rparr>, Some stream')
     \<and> c_stream c = stream' \<and> fresh Client (o_limits options) c
     \<and> bm_data (c_read_buffer c) @ incoming stream' = frames
     \<and> sent stream' = sent stream @ build_request (u_path u) (host_header u) (new_key (o_entropy options))
           (o_protocols options) (o_headers options)"
  using connection_env.connect_completes [OF assms(1,4,5,6), of seed "o_limits options"] assms(2,3)
  by (auto simp: connect_plain_def resolve_host_def connection_env.unread_def [OF assms(1)])

context lossless_stream
begin

lemma default_ext_lossless: "lossless_ext (default_ext al bs) incoming sent"
  by (rule default.lossless_ext_axioms)

end

text \<open>A TLS session that delivers its bytes is an environment for a connection.\<close>

lemma tls_connection_env:
  assumes "lossless_stream session incoming sent" and "allocator al"
  shows "connection_env \<lparr>v_endian = e, v_utf8 = u, v_alloc = al, v_stream = tls_stream_ext al session\<rparr> incoming sent"
  using lossless_stream.default_ext_lossless [OF assms(1)] assms(2)
  by (intro connection_env.intro) (simp_all add: tls_stream_ext_def)

lemma connect_secure_cases:
  obtains (closed) e where "connect_secure v n t seed u options = Some (Inl e, None)"
    | (opened) addrs stream config name session where
      "n_resolve n (u_host u) (u_port u) = Inr addrs" "n_connect_any n addrs = Inr stream"
      "tls_config t (o_tls options) = Inr config" "t_server_name t (u_host u) = Some name"
      "t_session t config name = Some session"
proof (cases "n_resolve n (u_host u) (u_port u)")
  case (Inl e)
  then show ?thesis
    using closed by (simp add: connect_secure_def resolve_host_def)
next
  case addrs: (Inr addrs)
  note resolved = connect_secure_def resolve_host_def addrs
  show ?thesis
  proof (cases "n_connect_any n addrs")
    case (Inl e)
    then show ?thesis
      using closed by (simp add: resolved)
  next
    case (Inr stream)
    note connected = this
    show ?thesis
    proof (cases "tls_config t (o_tls options)")
      case (Inl e)
      then show ?thesis
        using closed by (simp add: resolved connected)
    next
      case (Inr config)
      then show ?thesis
        using closed opened [OF addrs connected Inr]
        by (cases "t_server_name t (u_host u)"; cases "t_session t config (the (t_server_name t (u_host u)))")
          (simp_all add: resolved connected)
    qed
  qed
qed

text \<open>C37: Connecting over TLS always returns when the TLS stream is lossless, and writes nothing of the
  WebSocket handshake before the TLS handshake has succeeded, with a session for the name of the URL's
  host and a configuration that was given or bundled. When it failed, that error is reported and nothing
  was written; when it succeeded, exactly the request was.\<close>

theorem connect_secure_gated:
  assumes "lossless_stream session_stream incoming sent" and "allocator al"
    and "v = \<lparr>v_endian = e, v_utf8 = impl, v_alloc = al, v_stream = tls_stream_ext al session_stream\<rparr>"
  shows "\<exists>r final. connect_secure v n t seed u options = Some (r, final)
     \<and> (case final of
          None \<Rightarrow> \<exists>e. r = Inl e
        | Some tls' \<Rightarrow>
            \<exists>addrs stream config name session shaken tls.
              n_resolve n (u_host u) (u_port u) = Inr addrs \<and> n_connect_any n addrs = Inr stream
              \<and> tls_config t (o_tls options) = Inr config \<and> t_server_name t (u_host u) = Some name
              \<and> t_session t config name = Some session \<and> t_handshake t (t_client t stream session) = (shaken, tls)
              \<and> (case shaken of
                   Inl e \<Rightarrow> r = Inl (EIo e) \<and> tls' = tls
                 | Inr _ \<Rightarrow> sent tls' = sent tls @ build_request (u_path u) (host_header u)
                     (new_key (o_entropy options)) (o_protocols options) (o_headers options)))"
proof -
  have connect: "\<exists>r tls'. connect v seed tls (u_path u) (host_header u) (o_protocols options) (o_headers options)
        (o_entropy options) (o_limits options) = Some (r, tls')
      \<and> sent tls' = sent tls @ build_request (u_path u) (host_header u)
          (new_key (o_entropy options)) (o_protocols options) (o_headers options)" for tls
    unfolding assms(3) by (rule connection_env.connect_sends [OF tls_connection_env [OF assms(1,2)]])
  consider (closed) e where "connect_secure v n t seed u options = Some (Inl e, None)"
    | (opened) addrs stream config name session where
      "n_resolve n (u_host u) (u_port u) = Inr addrs" "n_connect_any n addrs = Inr stream"
      "tls_config t (o_tls options) = Inr config" "t_server_name t (u_host u) = Some name"
      "t_session t config name = Some session"
    by (rule connect_secure_cases)
  then show ?thesis
  proof cases
    case opened
    obtain shaken tls where shaken: "t_handshake t (t_client t stream session) = (shaken, tls)"
      by fastforce
    show ?thesis
      using connect [of tls] opened shaken
      by (cases shaken) (auto simp: connect_secure_def resolve_host_def error_from_errno_def)
  qed simp
qed

theorem connect_secure_gated_witness:
  "\<exists>r final. connect_secure \<lparr>v_endian = Little, v_utf8 = Std, v_alloc = exact_alloc,
        v_stream = tls_stream_ext exact_alloc pipe_stream\<rparr>
      \<lparr>n_resolve = (\<lambda>_ _. Inr [()]), n_connect_any = (\<lambda>_. Inr ()), n_eai_noname = -2\<rparr>
      \<lparr>t_default_config = Some (), t_server_name = (\<lambda>h. Some h), t_session = (\<lambda>_ name. Some name),
       t_client = (\<lambda>_ _. \<lparr>p_pieces = [], p_sent = []\<rparr>), t_handshake = (\<lambda>s. (Inl (Errno 71), s)), t_eproto = 71\<rparr>
      [] \<lparr>u_secure = True, u_host = [104], u_port = 443, u_path = [47]\<rparr> default_options = Some (r, final)"
  using connect_secure_gated [OF pipe.lossless_stream_axioms exact.allocator_axioms refl,
      where e = Little and impl = Std and seed = "[]" and options = default_options
        and u = "\<lparr>u_secure = True, u_host = [104], u_port = 443, u_path = [47]\<rparr>"
        and n = "\<lparr>n_resolve = (\<lambda>_ _. Inr [()]), n_connect_any = (\<lambda>_. Inr ()), n_eai_noname = -2\<rparr>"
        and t = "\<lparr>t_default_config = Some (), t_server_name = (\<lambda>h. Some h), t_session = (\<lambda>_ name. Some name),
           t_client = (\<lambda>_ _. \<lparr>p_pieces = [], p_sent = []\<rparr>), t_handshake = (\<lambda>s. (Inl (Errno 71), s)), t_eproto = 71\<rparr>"]
  by blast

text \<open>What a secure connection needs of the world: the name resolves, an address answers, the configuration
  gives a session for the host, and its TLS handshake succeeds and leaves a session to read and write.\<close>

definition tls_carries ::
    "('a, 's) network \<Rightarrow> ('s, 't, 'cfg, 'name, 'sess) tls \<Rightarrow> 'cfg \<Rightarrow> str \<Rightarrow> u16 \<Rightarrow> 't \<Rightarrow> bool" where
  "tls_carries n t config host port session \<longleftrightarrow>
     (\<exists>addrs stream name sess.
        n_resolve n host port = Inr addrs \<and> n_connect_any n addrs = Inr stream \<and> t_server_name t host = Some name
        \<and> t_session t config name = Some sess \<and> t_handshake t (t_client t stream sess) = (Inr (), session))"

text \<open>Then it completes as a plain one does, over the session instead of the socket.\<close>

lemma connect_secure_completes:
  assumes "connection_env v incoming sent" and "tls_carries n t config (u_host u) (u_port u) session"
    and "o_tls options = Some config"
    and "ok_request (u_path u) (host_header u) (o_protocols options) (o_headers options) (o_entropy options)"
    and "ok_response (new_key (o_entropy options)) protocol headers"
    and "incoming session = build_response (new_key (o_entropy options)) protocol headers @ frames"
  shows "\<exists>c session'. connect_secure v n t seed u options
           = Some (Inr \<lparr>d_connection = c, d_protocol = protocol\<rparr>, Some session')
     \<and> c_stream c = session' \<and> fresh Client (o_limits options) c
     \<and> connection_env.unread incoming c = frames
     \<and> sent session' = sent session @ build_request (u_path u) (host_header u) (new_key (o_entropy options))
           (o_protocols options) (o_headers options)"
proof -
  obtain addrs stream name sess where "n_resolve n (u_host u) (u_port u) = Inr addrs" "n_connect_any n addrs = Inr stream"
    "t_server_name t (u_host u) = Some name" "t_session t config name = Some sess"
    "t_handshake t (t_client t stream sess) = (Inr (), session)"
    using assms(2) by (auto simp: tls_carries_def)
  then show ?thesis
    using connection_env.connect_completes [OF assms(1,4,5,6), of seed "o_limits options"] assms(3)
    by (auto simp: connect_secure_def resolve_host_def tls_config_def)
qed

section \<open>Behaviour worth knowing\<close>

lemmas url_eval = url_parse_def split_once_str_def parse_rest_def split_path_def parse_authority_def parse_port_def
  strip_prefix_def rsplit_once_def parse_u16_def is_digit_def ascii_def Let_def

text \<open>Without a slash the query is taken for a part of the host. An authority that is only a port or only
  brackets gives an empty host. An IPv6 literal without brackets is cut at its last colon. A port may begin
  with a plus sign.\<close>

lemma url_query_without_slash:
  "url_parse (ascii ''ws://h?room=1'')
     = Inr \<lparr>u_secure = False, u_host = ascii ''h?room=1'', u_port = 80, u_path = ascii ''/''\<rparr>"
  by (simp add: url_eval)

lemma url_empty_host:
  "url_parse (ascii ''ws://:80/'') = Inr \<lparr>u_secure = False, u_host = [], u_port = 80, u_path = ascii ''/''\<rparr>"
  "url_parse (ascii ''ws://[]/'') = Inr \<lparr>u_secure = False, u_host = [], u_port = 80, u_path = ascii ''/''\<rparr>"
  by (simp_all add: url_eval)

lemma url_unbracketed_colon:
  "url_parse (ascii ''ws://::1/'') = Inr \<lparr>u_secure = False, u_host = ascii '':'', u_port = 1, u_path = ascii ''/''\<rparr>"
  by (simp add: url_eval)

lemma url_port_plus:
  "url_parse (ascii ''ws://h:+80/'') = Inr \<lparr>u_secure = False, u_host = ascii ''h'', u_port = 80, u_path = ascii ''/''\<rparr>"
  by (simp add: url_eval)

text \<open>The \<open>Host\<close> header of an IPv6 literal has lost its brackets.\<close>

lemma host_header_ipv6:
  "url_parse (ascii ''ws://[::1]:9000/'')
     = Inr \<lparr>u_secure = False, u_host = ascii ''::1'', u_port = 9000, u_path = ascii ''/''\<rparr>"
  "host_header \<lparr>u_secure = False, u_host = ascii ''::1'', u_port = 9000, u_path = ascii ''/''\<rparr> = ascii ''::1:9000''"
proof -
  show "host_header \<lparr>u_secure = False, u_host = ascii ''::1'', u_port = 9000, u_path = ascii ''/''\<rparr> = ascii ''::1:9000''"
    by (simp add: host_header_def decimal.simps) (simp add: ascii_def)
qed (simp add: url_eval)

end
