(* ===== verification/Echo.thy ===== *)
theory Echo
  imports Duplex Upgrade
begin

text \<open>
  The echo server (\<open>src/examples/autobahn_server.rs\<close>): accept, then answer each message until the peer
  closes or breaks the protocol.
\<close>

section \<open>Definitions\<close>

definition SERVE_LIMITS :: limits where
  "SERVE_LIMITS = \<lparr>max_frame = 32 * 1024 * 1024, max_message = 32 * 1024 * 1024\<rparr>"

text \<open>The second \<open>match\<close>: text and binary come back unchanged, a ping as a pong, a close as a close.\<close>

definition answer :: "'s env \<Rightarrow> 's connection \<Rightarrow> message \<Rightarrow> ((conn_error + unit) \<times> 's connection) option" where
  "answer v c m =
     (case m of
        MText _ \<Rightarrow> conn_write v c m
      | MBinary _ \<Rightarrow> conn_write v c m
      | MPing payload \<Rightarrow> conn_pong v c payload
      | MPong _ \<Rightarrow> Some (Inr (), c)
      | MClose frame \<Rightarrow> conn_close v c frame)"

text \<open>What is done with an error of \<open>read\<close>: its code goes out, if it has one.\<close>

definition report :: "'s env \<Rightarrow> 's connection \<Rightarrow> conn_error \<Rightarrow> ((conn_error + unit) \<times> 's connection) option" where
  "report v c error =
     (case error_close_code error of
        None \<Rightarrow> Some (Inl error, c)
      | Some code \<Rightarrow>
          (case conn_close v c (Some \<lparr>cf_code = code, cf_reason = []\<rparr>) of
             None \<Rightarrow> None
           | Some (_, c') \<Rightarrow> Some (Inl error, c')))"

partial_function (option) serve_loop :: "'s env \<Rightarrow> 's connection \<Rightarrow> ((conn_error + unit) \<times> 's connection) option" where
  "serve_loop v c =
     (case conn_read v c of
        None \<Rightarrow> None
      | Some (Inl error, c1) \<Rightarrow> report v c1 error
      | Some (Inr None, c1) \<Rightarrow> Some (Inr (), c1)
      | Some (Inr (Some m), c1) \<Rightarrow>
          (case answer v c1 m of
             None \<Rightarrow> None
           | Some (Inl e, c2) \<Rightarrow> Some (Inl e, c2)
           | Some (Inr _, c2) \<Rightarrow> if is_close m then Some (Inr (), c2) else serve_loop v c2))"

definition serve :: "'s env \<Rightarrow> bytes \<Rightarrow> 's \<Rightarrow> ((conn_error + unit) \<times> 's) option" where
  "serve v seed stream =
     (case accept v seed stream SERVE_LIMITS [] (\<lambda>_. (None, [])) of
        None \<Rightarrow> None
      | Some (Inl e, stream') \<Rightarrow> Some (Inl e, stream')
      | Some (Inr (PlainHttp _ _ _), stream') \<Rightarrow> Some (Inr (), stream')
      | Some (Inr (Upgraded conn _), _) \<Rightarrow> map_option (apsnd c_stream) (serve_loop v conn))"

section \<open>Answers\<close>

text \<open>What the messages of a peer are answered by.\<close>

definition echo :: "message \<Rightarrow> message list" where
  "echo m = (case m of MPing p \<Rightarrow> [MPong p] | MPong _ \<Rightarrow> [] | _ \<Rightarrow> [m])"

definition echoes :: "message list \<Rightarrow> message list" where
  "echoes ms = concat (map echo ms)"

lemma echoes_simps [simp]: "echoes [] = []" "echoes (m # ms) = echo m @ echoes ms"
  by (simp_all add: echoes_def)

lemma echoes_append: "echoes (ms @ ns) = echoes ms @ echoes ns"
  by (simp add: echoes_def)

lemma echo_close: "list_ex is_close (echo m) = is_close m"
  by (cases m) (simp_all add: echo_def is_close_def)

lemma echoes_close: "list_ex is_close (echoes ms) = list_ex is_close ms"
  by (induction ms) (simp_all add: echo_close)

text \<open>A server's frames do not depend on the mask generator.\<close>

lemma wire_server: "fst (wire_messages v Server st ms) = fst (wire_messages v Server st' ms)"
  by (induction ms arbitrary: st st') (simp_all add: frame_key_def split_def Let_def)

lemma consume_message_shrinks:
  "consume v role a data = Some (Inr (Some m), a', rest) \<Longrightarrow> length rest < length data"
proof (induction v role a data rule: consume.induct)
  case (1 v role a data)
  show ?case
  proof (cases "cut_frame role (max_frame (a_limits a)) data")
    case (Frame h p tail)
    then show ?thesis
      using "1.prems" "1.IH" [OF Frame] cut_frame_shrinks [OF Frame]
      by (fastforce simp: consume.simps [of v role a data] split: option.splits sum.splits)
  qed (use "1.prems" in \<open>simp_all add: consume.simps [of v role a data]\<close>)
qed

lemma read_spec_message:
  "read_spec v role a d = Some (Inr (Some m), a', rest) \<Longrightarrow> consume v role a d = Some (Inr (Some m), a', rest)"
proof -
  assume spec: "read_spec v role a d = Some (Inr (Some m), a', rest)"
  then obtain r where "consume v role a d = Some (r, a', rest)"
    and "(case r of Inr None \<Rightarrow> if a_closed a' then Inr None else Inl EUnexpectedEof | _ \<Rightarrow> r) = Inr (Some m)"
    by (auto simp: read_spec_def)
  moreover have "r = Inr (Some m)"
    using calculation(2) by (auto split: sum.splits option.splits if_splits)
  ultimately show ?thesis
    by simp
qed

context connection_env
begin

lemma answer_sends:
  assumes "\<not> c_close_sent c"
  shows "\<exists>c'. answer v c m = Some (Inr (), c') \<and> sends c c' (echo m)"
proof (cases m)
  case (MPong p)
  then show ?thesis
    by (simp add: answer_def echo_def sends_refl)
next
  case (MClose f)
  then show ?thesis
    using assms conn_write_sends [of c m] by (auto simp: answer_def echo_def conn_close_def)
qed (use conn_write_sends [of c m] conn_write_sends [of c "MPong p" for p] in
      \<open>auto simp: answer_def echo_def conn_pong_is_write\<close>)

lemma report_sends:
  assumes "\<not> c_close_sent c"
  shows "\<exists>c'. report v c e = Some (Inl e, c')
     \<and> sends c c' (case error_close_code e of
                      None \<Rightarrow> [] | Some code \<Rightarrow> [MClose (Some \<lparr>cf_code = code, cf_reason = []\<rparr>)])"
proof (cases "error_close_code e")
  case (Some code)
  then show ?thesis
    using assms conn_write_sends [of c "MClose (Some \<lparr>cf_code = code, cf_reason = []\<rparr>)"]
    by (auto simp: report_def conn_close_def)
qed (simp add: report_def sends_refl)

lemma conn_read_shrinks:
  assumes "assembler_inv (c_assembler c)" and "conn_read v c = Some (Inr (Some m), c')"
  shows "length (unread c') < length (unread c)"
  using conn_read_refines [OF assms(1)] assms(2)
  by (auto dest!: read_spec_message consume_message_shrinks)

lemma serve_loop_returns:
  assumes "assembler_inv (c_assembler c)" and "\<not> c_close_sent c"
  shows "\<exists>r c' ms. serve_loop v c = Some (r, c') \<and> wrote c c' ms \<and> \<not> list_ex is_close (butlast ms)
     \<and> (case r of
          Inr _ \<Rightarrow> True
        | Inl e \<Rightarrow>
            (case error_close_code e of
               None \<Rightarrow> True
             | Some code \<Rightarrow> ms \<noteq> [] \<and> last ms = MClose (Some \<lparr>cf_code = code, cf_reason = []\<rparr>)))"
  using assms
proof (induction "length (unread c)" arbitrary: c rule: less_induct)
  case less
  obtain r c1 where read: "conn_read v c = Some (r, c1)" "write_side c1 = write_side c" "assembler_inv (c_assembler c1)"
    using conn_read_refines [OF less.prems(1)] by blast
  then have open1: "\<not> c_close_sent c1"
    using less.prems(2) by (simp add: write_side_def)
  show ?case
  proof (cases r)
    case (Inl e)
    obtain c2 where "report v c1 e = Some (Inl e, c2)"
      and "sends c1 c2 (case error_close_code e of
                      None \<Rightarrow> [] | Some code \<Rightarrow> [MClose (Some \<lparr>cf_code = code, cf_reason = []\<rparr>)])"
      using report_sends [OF open1] by blast
    then show ?thesis
      using read Inl read_then_sends [OF read(2)]
      by (subst serve_loop.simps) (fastforce split: option.splits)
  next
    case (Inr mo)
    show ?thesis
    proof (cases mo)
      case None
      then show ?thesis
        using read Inr read_wrote [OF read(2)]
        by (subst serve_loop.simps) (intro exI [of _ "Inr ()"] exI [of _ c1] exI [of _ "[]"], simp)
    next
      case (Some m)
      obtain c2 where c2: "answer v c1 m = Some (Inr (), c2)" "sends c1 c2 (echo m)"
        using answer_sends [OF open1] by blast
      have wrote: "wrote c c2 (echo m)"
        by (rule read_then_sends [OF read(2) c2(2)])
      have step: "serve_loop v c = (if is_close m then Some (Inr (), c2) else serve_loop v c2)"
        using read(1) Inr Some c2(1) by (subst serve_loop.simps) simp
      show ?thesis
      proof (cases "is_close m")
        case True
        have "\<not> list_ex is_close (butlast (echo m))"
          by (cases m) (simp_all add: echo_def)
        then show ?thesis
          using step True wrote by (intro exI [of _ "Inr ()"] exI [of _ c2] exI [of _ "echo m"]) simp
      next
        case False
        have "length (unread c2) < length (unread c)"
          using conn_read_shrinks [OF less.prems(1), of m c1] read(1) Inr Some sends_unread [OF c2(2)] by simp
        moreover have "assembler_inv (c_assembler c2)" "\<not> c_close_sent c2"
          using c2(2) read(3) open1 False by (simp_all add: sends_def echo_close)
        ultimately obtain r' c3 ms where loop: "serve_loop v c2 = Some (r', c3)" "wrote c2 c3 ms"
          "\<not> list_ex is_close (butlast ms)"
          "case r' of Inr _ \<Rightarrow> True
           | Inl e \<Rightarrow> (case error_close_code e of None \<Rightarrow> True
               | Some code \<Rightarrow> ms \<noteq> [] \<and> last ms = MClose (Some \<lparr>cf_code = code, cf_reason = []\<rparr>))"
          using less.hyps by blast
        have "\<not> list_ex is_close (echo m)"
          using False by (simp add: echo_close)
        then have "\<not> list_ex is_close (butlast (echo m @ ms))"
          using loop(3) by (auto simp: butlast_append list_ex_iff dest: in_set_butlastD)
        then show ?thesis
          using step False loop wrote_trans [OF wrote loop(2)]
          by (intro exI [of _ r'] exI [of _ c3] exI [of _ "echo m @ ms"])
            (auto split: sum.split option.split)
      qed
    qed
  qed
qed

lemma serve_loop_echoes:
  assumes "c_role c = Server" and "list_all (deliverable (v_utf8 v) (a_limits (c_assembler c))) (ms @ [MClose f])"
    and "\<not> list_ex is_close ms" and "idle (c_assembler c)" and "\<not> c_close_sent c"
    and "unread c = fst (wire_messages w Client st (ms @ [MClose f]))"
  shows "\<exists>c'. serve_loop v c = Some (Inr (), c') \<and> wrote c c' (echoes (ms @ [MClose f]))"
  using assms
proof (induction ms arbitrary: c st)
  case Nil
  have "unread c = wire_frame w (fst (frame_key w Client st)) (fst (message_frame (MClose f))) True
      (snd (message_frame (MClose f))) @ []"
    using Nil.prems(6) by (simp add: split_def Let_def)
  from conn_read_wire [OF _ Nil.prems(4) _ this] Nil.prems(1,2) obtain c1 where
    c1: "conn_read v c = Some (Inr (Some (MClose f)), c1)" "write_side c1 = write_side c"
    by (auto simp: frame_key_role)
  then obtain c2 where "answer v c1 (MClose f) = Some (Inr (), c2)" "sends c1 c2 (echo (MClose f))"
    using answer_sends [of c1] Nil.prems(5) by (auto simp: write_side_def)
  then show ?case
    using c1 read_then_sends [OF c1(2)] by (subst serve_loop.simps) (auto simp: is_close_def)
next
  case (Cons m ms)
  have "unread c = wire_frame w (fst (frame_key w Client st)) (fst (message_frame m)) True (snd (message_frame m))
      @ fst (wire_messages w Client (snd (frame_key w Client st)) (ms @ [MClose f]))"
    using Cons.prems(6) by (simp add: split_def Let_def)
  from conn_read_wire [OF _ Cons.prems(4) _ this] Cons.prems(1,2) obtain c1 where
    c1: "conn_read v c = Some (Inr (Some m), c1)" "write_side c1 = write_side c"
      "unread c1 = fst (wire_messages w Client (snd (frame_key w Client st)) (ms @ [MClose f]))"
      "c_assembler c1 = (c_assembler c)\<lparr>a_closed := is_close m\<rparr>"
    by (auto simp: frame_key_role)
  obtain c2 where c2: "answer v c1 m = Some (Inr (), c2)" "sends c1 c2 (echo m)"
    using answer_sends [of c1] c1(2) Cons.prems(5) by (auto simp: write_side_def)
  have open2: "\<not> is_close m"
    using Cons.prems(3) by simp
  have "\<exists>c'. serve_loop v c2 = Some (Inr (), c') \<and> wrote c2 c' (echoes (ms @ [MClose f]))"
  proof (rule Cons.IH)
    show "unread c2 = fst (wire_messages w Client (snd (frame_key w Client st)) (ms @ [MClose f]))"
      using sends_unread [OF c2(2)] c1(3) by simp
  qed (use Cons.prems c1 c2(2) open2 in \<open>auto simp: sends_def idle_def write_side_def echo_close\<close>)
  then obtain c' where c': "serve_loop v c2 = Some (Inr (), c')" "wrote c2 c' (echoes (ms @ [MClose f]))"
    by blast
  have "serve_loop v c = serve_loop v c2"
    using c1(1) c2(1) open2 by (subst serve_loop.simps) simp
  then show ?case
    using c' wrote_trans [OF read_then_sends [OF c1(2) c2(2)] c'(2)] by auto
qed

end

lemma serve_echoes:
  assumes "connection_env v incoming sent" and "ok_request path host protos extra entropy"
    and "list_all (deliverable (v_utf8 v) SERVE_LIMITS) (ms @ [MClose f])" and "\<not> list_ex is_close ms"
    and "incoming stream = build_request path host (new_key entropy) protos extra
           @ fst (wire_messages w Client st (ms @ [MClose f]))"
  shows "\<exists>stream'. serve v seed stream = Some (Inr (), stream')
     \<and> sent stream' = sent stream @ build_response (new_key entropy) None []
         @ fst (wire_messages v Server 0 (echoes (ms @ [MClose f])))"
proof -
  obtain c stream1 request where accept:
    "accept v seed stream SERVE_LIMITS [] (\<lambda>_. (None, [])) = Some (Inr (Upgraded c request), stream1)"
    and c: "c_stream c = stream1" "fresh Server SERVE_LIMITS c"
      "connection_env.unread incoming c = fst (wire_messages w Client st (ms @ [MClose f]))"
      "sent stream1 = sent stream @ build_response (new_key entropy) None []"
    using connection_env.accept_completes [OF assms(1,2,5), of seed SERVE_LIMITS "[]" "\<lambda>_. (None, [])"] by auto
  obtain c' where "serve_loop v c = Some (Inr (), c')"
    "connection_env.wrote v sent c c' (echoes (ms @ [MClose f]))"
    using connection_env.serve_loop_echoes [OF assms(1) _ _ assms(4), of c f w st] assms(3) c(2,3)
    by (auto simp: fresh_def)
  then show ?thesis
    using accept c wire_server [of v "c_mask_state c" "echoes (ms @ [MClose f])" 0]
    by (auto simp: serve_def connection_env.wrote_def [OF assms(1)] fresh_def)
qed

section \<open>Properties\<close>

text \<open>What \<open>serve\<close> does on a lossless transport, whatever the peer sends.\<close>

lemma serve_spec:
  assumes "connection_env v incoming sent"
  shows "\<exists>r stream' head ms. serve v seed stream = Some (r, stream')
     \<and> sent stream' = sent stream @ head @ fst (wire_messages v Server 0 ms)
     \<and> \<not> list_ex is_close (butlast ms) \<and> (ms \<noteq> [] \<longrightarrow> (\<exists>key. head = build_response key None []))
     \<and> (case r of
          Inr _ \<Rightarrow> True
        | Inl e \<Rightarrow>
            (case error_close_code e of
               None \<Rightarrow> True
             | Some code \<Rightarrow> ms \<noteq> [] \<and> last ms = MClose (Some \<lparr>cf_code = code, cf_reason = []\<rparr>)))"
proof -
  obtain r stream1 where
    accept: "accept v seed stream SERVE_LIMITS [] (\<lambda>_. (None, [])) = Some (r, stream1)" and
    spec: "case r of
          Inr (PlainHttp s request rest) \<Rightarrow> sent stream1 = sent stream
        | Inr (Upgraded c request) \<Rightarrow>
            c_stream c = stream1 \<and> fresh Server SERVE_LIMITS c
              \<and> sent stream1 = sent stream @ build_response (r_key request) None []
        | Inl e \<Rightarrow> \<exists>x head. e = EUpgrade x \<and> sent stream1 = sent stream @ head"
    using connection_env.accept_spec [OF assms, of seed stream SERVE_LIMITS "[]" "\<lambda>_. (None, [])"]
    by (fastforce split: sum.splits upgrade_outcome.splits)
  consider (error) e where "r = Inl e" | (plain) s request rest where "r = Inr (PlainHttp s request rest)"
    | (upgraded) c request where "r = Inr (Upgraded c request)"
    by (metis obj_sumE upgrade_outcome.exhaust)
  then show ?thesis
  proof cases
    case error
    then obtain x head where "e = EUpgrade x" "sent stream1 = sent stream @ head"
      using spec by auto
    then show ?thesis
      using accept error
      by (intro exI [of _ "Inl e"] exI [of _ stream1] exI [of _ head] exI [of _ "[]"])
        (simp add: serve_def error_close_code_def)
  next
    case plain
    then show ?thesis
      using accept spec
      by (intro exI [of _ "Inr ()"] exI [of _ stream1] exI [of _ "[]"]) (simp add: serve_def)
  next
    case upgraded
    then have c: "c_stream c = stream1" "c_role c = Server" "assembler_inv (c_assembler c)" "\<not> c_close_sent c"
      "sent stream1 = sent stream @ build_response (r_key request) None []"
      using spec by (simp_all add: fresh_def idle_inv)
    from connection_env.serve_loop_returns [OF assms c(3,4)] obtain r' c' ms where
      loop: "serve_loop v c = Some (r', c')" "connection_env.wrote v sent c c' ms" "\<not> list_ex is_close (butlast ms)"
        "case r' of Inr _ \<Rightarrow> True
         | Inl e \<Rightarrow> (case error_close_code e of None \<Rightarrow> True
             | Some code \<Rightarrow> ms \<noteq> [] \<and> last ms = MClose (Some \<lparr>cf_code = code, cf_reason = []\<rparr>))"
      by blast
    then have "sent (c_stream c') = sent stream @ build_response (r_key request) None [] @ fst (wire_messages v Server 0 ms)"
      using c wire_server [of v "c_mask_state c" ms 0] by (simp add: connection_env.wrote_def [OF assms])
    then show ?thesis
      using accept upgraded loop
      by (intro exI [of _ r'] exI [of _ "c_stream c'"] exI [of _ "build_response (r_key request) None []"]
          exI [of _ ms]) (auto simp: serve_def)
  qed
qed

text \<open>C15: The echo server always returns, whatever the peer sends and however it arrives, over a lossless
  transport. It has then sent the answer to the head, if there was one, and after an upgrade whole
  unmasked frames, at most one of them a close, which is the last. When it ends with an error that has a
  close code, its last frame is a close with exactly that code.\<close>

theorem serve_returns:
  assumes "connection_env v incoming sent"
  shows "\<exists>r stream' head ms. serve v seed stream = Some (r, stream')
     \<and> sent stream' = sent stream @ head @ fst (wire_messages v Server 0 ms)
     \<and> \<not> list_ex is_close (butlast ms) \<and> (ms \<noteq> [] \<longrightarrow> (\<exists>key. head = build_response key None []))
     \<and> (case r of
          Inr _ \<Rightarrow> True
        | Inl e \<Rightarrow>
            (case error_close_code e of
               None \<Rightarrow> True
             | Some code \<Rightarrow> ms \<noteq> [] \<and> last ms = MClose (Some \<lparr>cf_code = code, cf_reason = []\<rparr>)))"
  by (rule serve_spec [OF assms])

theorem serve_returns_witness:
  "\<exists>r s'. serve (pipe_env Little Std) [] \<lparr>p_pieces = [[1, 2], [3]], p_sent = []\<rparr> = Some (r, s')"
  using serve_returns [OF pipe_env.connection_env_axioms, of Little Std "[]" "\<lparr>p_pieces = [[1, 2], [3]], p_sent = []\<rparr>"]
  by blast

end
