(* ===== verification/Listen.thy ===== *)
theory Listen
  imports Echo Client
begin

text \<open>
  What a server prints and how it listens: the text of an error (\<open>Display\<close> and \<open>source\<close> in
  \<open>src/src/conn.rs\<close>) and the accept loop of the echo server (\<open>main\<close> in \<open>src/examples/autobahn_server.rs\<close>).
  The listener is \<open>nagoya\<close>'s: the loop is given what its \<open>accept\<close> returns, one result after another. A
  task is spawned for each connection and shares nothing with the others, so it is a function of its own
  stream.
\<close>

section \<open>Definitions\<close>

text \<open>The derived \<open>Debug\<close> of the error types: the name of the variant, and its field in parentheses.\<close>

fun debug_frame_error :: "frame_error \<Rightarrow> str" where
  "debug_frame_error (ReservedOpCode bits) = ascii ''ReservedOpCode('' @ decimal (unat bits) @ ascii '')''"
| "debug_frame_error ReservedBitSet = ascii ''ReservedBitSet''"
| "debug_frame_error InvalidControlFrame = ascii ''InvalidControlFrame''"
| "debug_frame_error InvalidLength = ascii ''InvalidLength''"
| "debug_frame_error FrameTooLarge = ascii ''TooLarge''"

fun debug_protocol_error :: "protocol_error \<Rightarrow> str" where
  "debug_protocol_error UnexpectedContinuation = ascii ''UnexpectedContinuation''"
| "debug_protocol_error InterleavedDataFrame = ascii ''InterleavedDataFrame''"
| "debug_protocol_error InvalidUtf8 = ascii ''InvalidUtf8''"
| "debug_protocol_error MalformedCloseFrame = ascii ''MalformedCloseFrame''"
| "debug_protocol_error InvalidCloseCode = ascii ''InvalidCloseCode''"
| "debug_protocol_error MessageTooLarge = ascii ''MessageTooLarge''"

fun debug_upgrade_error :: "upgrade_error \<Rightarrow> str" where
  "debug_upgrade_error Malformed = ascii ''Malformed''"
| "debug_upgrade_error NotGet = ascii ''NotGet''"
| "debug_upgrade_error NotAnUpgrade = ascii ''NotAnUpgrade''"
| "debug_upgrade_error WrongVersion = ascii ''WrongVersion''"
| "debug_upgrade_error BadKey = ascii ''BadKey''"
| "debug_upgrade_error HeadTooLarge = ascii ''HeadTooLarge''"

text \<open>\<open>Display\<close> of an error. That of a transport error is \<open>nagoya\<close>'s and given.\<close>

definition error_display :: "(errno \<Rightarrow> str) \<Rightarrow> conn_error \<Rightarrow> str" where
  "error_display display_errno e =
     (case e of
        EIo error \<Rightarrow> ascii ''io: '' @ display_errno error
      | EFrame error \<Rightarrow> ascii ''frame: '' @ debug_frame_error error
      | EProtocol error \<Rightarrow> ascii ''protocol: '' @ debug_protocol_error error
      | EMaskingViolation \<Rightarrow> ascii ''masking rule violated''
      | EUnexpectedEof \<Rightarrow> ascii ''closed without a handshake''
      | EUpgrade error \<Rightarrow> ascii ''upgrade: '' @ debug_upgrade_error error
      | EUrl reason \<Rightarrow> ascii ''url: '' @ reason)"

definition error_source :: "conn_error \<Rightarrow> errno option" where
  "error_source e = (case e of EIo error \<Rightarrow> Some error | _ \<Rightarrow> None)"

text \<open>The task of one connection: the stream it leaves and the line it prints, if any.\<close>

definition connection_task ::
    "'s env \<Rightarrow> (errno \<Rightarrow> str) \<Rightarrow> bytes \<Rightarrow> 's \<Rightarrow> ('s \<times> str option) option" where
  "connection_task v display_errno seed stream =
     (case serve v seed stream of
        None \<Rightarrow> None
      | Some (Inl error, stream') \<Rightarrow>
          Some (stream', Some (ascii ''connection ended: '' @ error_display display_errno error))
      | Some (Inr _, stream') \<Rightarrow> Some (stream', None))"

text \<open>The accept loop over the results of the listener: a failed accept is skipped. Each connection draws its
  own seed; \<open>n\<close> counts the connections.\<close>

fun accept_loop ::
    "'s env \<Rightarrow> (errno \<Rightarrow> str) \<Rightarrow> (nat \<Rightarrow> bytes) \<Rightarrow> nat \<Rightarrow> 's io list \<Rightarrow> ('s \<times> str option) option list" where
  "accept_loop v d seeds n [] = []"
| "accept_loop v d seeds n (Inl e # results) = accept_loop v d seeds n results"
| "accept_loop v d seeds n (Inr stream # results) =
     connection_task v d (seeds n) stream # accept_loop v d seeds (Suc n) results"

section \<open>Texts of errors\<close>

lemma decimal_inj: "decimal m = decimal n \<Longrightarrow> m = n"
  by (metis decimal_number)

lemma decimal_unat_inj: "decimal (unat a) = decimal (unat b) \<longleftrightarrow> a = (b :: u8)"
  using decimal_inj [of "unat a" "unat b"] by (auto simp: word_unat_eq_iff)

lemma debug_inj:
  "debug_frame_error e = debug_frame_error e' \<longleftrightarrow> e = e'"
  "debug_protocol_error p = debug_protocol_error p' \<longleftrightarrow> p = p'"
  "debug_upgrade_error u = debug_upgrade_error u' \<longleftrightarrow> u = u'"
proof -
  show "debug_frame_error e = debug_frame_error e' \<longleftrightarrow> e = e'"
    by (cases e; cases e') (simp_all add: ascii_def decimal_unat_inj)
  show "debug_protocol_error p = debug_protocol_error p' \<longleftrightarrow> p = p'"
    by (cases p; cases p') (simp_all add: ascii_def)
  show "debug_upgrade_error u = debug_upgrade_error u' \<longleftrightarrow> u = u'"
    by (cases u; cases u') (simp_all add: ascii_def)
qed

text \<open>No two errors print the same line, as long as no two transport errors do.\<close>

lemma error_display_inj:
  assumes "inj display_errno"
  shows "inj (error_display display_errno)"
proof (rule injI)
  fix e e'
  assume "error_display display_errno e = error_display display_errno e'"
  then show "e = e'"
    using assms
    by (cases e; cases e') (simp_all add: error_display_def ascii_def debug_inj inj_eq)
qed

text \<open>An error that is reported to the peer by a code has no source to look for, and the other way round.\<close>

lemma error_source_no_code: "error_source e = Some x \<Longrightarrow> error_close_code e = None"
  by (auto simp: error_source_def error_close_code_def split: conn_error.splits)

section \<open>Listening\<close>

text \<open>The streams that were accepted, in order.\<close>

definition accepted :: "'s io list \<Rightarrow> 's list" where
  "accepted results = concat (map (case_sum (\<lambda>_. []) (\<lambda>s. [s])) results)"

lemma accept_loop_eq:
  "accept_loop v d seeds n results =
     map (\<lambda>(i, s). connection_task v d (seeds i) s) (enumerate n (accepted results))"
  by (induction v d seeds n results rule: accept_loop.induct) (simp_all add: accepted_def)

text \<open>A failed accept costs no connection and no connection disturbs another: the \<open>i\<close>th accepted stream gets
  the task it would have if it were alone, and over a lossless transport that task ends.\<close>

lemma connections_isolated:
  assumes "connection_env v incoming sent" and "i < length (accepted results)"
  shows "\<exists>stream' line. accept_loop v d seeds 0 results ! i = Some (stream', line)
     \<and> accept_loop v d (\<lambda>_. seeds i) 0 [Inr (accepted results ! i)] = [Some (stream', line)]"
proof -
  obtain r stream' where "serve v (seeds i) (accepted results ! i) = Some (r, stream')"
    using serve_spec [OF assms(1)] by blast
  then show ?thesis
    using assms(2) by (cases r) (simp_all add: accept_loop_eq nth_enumerate_eq connection_task_def accepted_def)
qed

end
