(* ===== verification/Tests_Proto.thy ===== *)
theory Tests_Proto
  imports Mask Frame Message
begin

text \<open>
  The unit tests of the protocol core (the \<open>tests\<close> modules of \<open>mask.rs\<close>, \<open>frame.rs\<close> and \<open>message.rs\<close> under
  \<open>src/src/proto\<close>), as predicates over the model, one for each test: an \<open>assert\<close> is a conjunct, an
  \<open>unwrap\<close> of an error makes the test fail. Every one holds, so the model agrees with the crate where the
  crate says what it expects.
\<close>

section \<open>Masking\<close>

definition matches_the_reference_at_every_length_and_offset :: "endian \<Rightarrow> bool" where
  "matches_the_reference_at_every_length_and_offset e =
     (let key = (0x37, 0xFA, 0x21, 0x3D)
      in list_all (\<lambda>len. list_all (\<lambda>offset.
           let original = map (\<lambda>i. of_nat i * 31) [0..<len];
               (fast, returned) = mask_apply e original key (of_nat offset);
               slow = mask_reference original key (of_nat offset)
           in fast = slow \<and> (len > 0 \<longrightarrow> returned = of_nat (offset + len))) [0..<8]) [0..<40])"

definition split_application_equals_one_pass :: "endian \<Rightarrow> bool" where
  "split_application_equals_one_pass e =
     (let key = (0x01, 0x02, 0x03, 0x04);
          original = map of_nat [0..<37];
          whole = fst (mask_apply e original key 0);
          (head, next) = mask_apply e (take 5 original) key 0;
          rest = fst (mask_apply e (drop 5 original) key next)
      in whole = head @ rest)"

definition masking_is_its_own_inverse :: "endian \<Rightarrow> bool" where
  "masking_is_its_own_inverse e =
     (let key = (0xDE, 0xAD, 0xBE, 0xEF);
          original = map of_nat [0..<64];
          buffer = fst (mask_apply e original key 0)
      in buffer \<noteq> original \<and> fst (mask_apply e buffer key 0) = original)"

lemma reference_agrees:
  "let original = map f [0..<len];
       (fast, returned) = mask_apply e original key (of_nat offset);
       slow = mask_reference original key (of_nat offset)
   in fast = slow \<and> (len > 0 \<longrightarrow> returned = of_nat (offset + len))"
  by (simp add: mask_apply_stream mask_reference_stream Let_def)

lemma mask_tests:
  "matches_the_reference_at_every_length_and_offset e"
  "split_application_equals_one_pass e"
  "masking_is_its_own_inverse e"
proof -
  show "matches_the_reference_at_every_length_and_offset e"
    unfolding matches_the_reference_at_every_length_and_offset_def
    by (subst Let_def, unfold list_all_iff, intro ballI) (rule reference_agrees)
  have "fst (mask_apply e p key 0)
      = fst (mask_apply e (take 5 p) key 0) @ fst (mask_apply e (drop 5 p) key (snd (mask_apply e (take 5 p) key 0)))"
    for p key
    using word_mask.masked_append [of e "take 5 p" "drop 5 p" key 0] by (simp add: split_def Let_def)
  then show "split_application_equals_one_pass e"
    unfolding split_application_equals_one_pass_def Let_def split_def .
  have "hd (fst (mask_apply e (map of_nat [0..<64]) (0xDE, 0xAD, 0xBE, 0xEF) 0)) = 0xDE"
    by (simp add: mask_apply_stream xor_stream_def key_bytes_def upt_conv_Cons del: upt_rec_numeral)
  then show "masking_is_its_own_inverse e"
    by (auto simp: masking_is_its_own_inverse_def Let_def mask_apply_involution upt_conv_Cons simp del: upt_rec_numeral)
qed

section \<open>Frames\<close>

definition test_decode :: "bytes \<Rightarrow> (header \<times> nat) decoded" where
  "test_decode input = header_decode input (- 1)"

definition decodes_a_short_unmasked_text_frame :: bool where
  "decodes_a_short_unmasked_text_frame =
     (case test_decode [0x81, 0x05] of
        Inr (Inr (header, used)) \<Rightarrow>
          h_fin header \<and> h_opcode header = Text \<and> h_payload_len header = 5 \<and> h_mask header = None \<and> used = 2
      | _ \<Rightarrow> False)"

definition decodes_a_masked_frame_and_reports_the_key :: bool where
  "decodes_a_masked_frame_and_reports_the_key =
     (let key = (0x37, 0xFA, 0x21, 0x3D)
      in case test_decode ([0x81, 0x85] @ key_bytes key) of
           Inr (Inr (header, used)) \<Rightarrow> h_mask header = Some key \<and> used = 6
         | _ \<Rightarrow> False)"

definition reports_incomplete_without_consuming :: bool where
  "reports_incomplete_without_consuming =
     list_all (\<lambda>input. test_decode input = Inr (Inl Incomplete)) [[], [0x81], [0x81, 0x7E], [0x81, 0x85, 0x00, 0x00]]"

definition rejects_reserved_bits_and_opcodes :: bool where
  "rejects_reserved_bits_and_opcodes =
     (test_decode [0xC1, 0x00] = Inl ReservedBitSet
      \<and> test_decode [0x83, 0x00] = Inl (ReservedOpCode 3)
      \<and> test_decode [0x8B, 0x00] = Inl (ReservedOpCode 0xB))"

definition rejects_oversized_and_fragmented_control_frames :: bool where
  "rejects_oversized_and_fragmented_control_frames =
     (test_decode [0x89, 0x7E] = Inl InvalidControlFrame \<and> test_decode [0x09, 0x00] = Inl InvalidControlFrame)"

definition rejects_non_minimal_lengths :: bool where
  "rejects_non_minimal_lengths =
     (test_decode [0x81, 0x7E, 0x00, 0x05] = Inl InvalidLength
      \<and> test_decode [0x81, 0x7F, 0, 0, 0, 0, 0, 0, 0x01, 0x00] = Inl InvalidLength
      \<and> test_decode [0x81, 0x7F, 0x80, 0, 0, 0, 0, 0, 0, 0] = Inl InvalidLength)"

definition enforces_the_payload_limit_from_the_header_alone :: bool where
  "enforces_the_payload_limit_from_the_header_alone =
     (header_decode [0x82, 0x7E, 0x03, 0xE8] 100 = Inl FrameTooLarge)"

definition round_trips_every_length_class :: bool where
  "round_trips_every_length_class =
     list_all (\<lambda>(len, expected).
       let header = \<lparr>h_fin = True, h_opcode = Binary, h_mask = None, h_payload_len = len\<rparr>
       in case header_encode header (replicate MAX_ENCODED_LEN 0) of
            None \<Rightarrow> False
          | Some (buffer, written) \<Rightarrow>
              written = expected \<and> written = encoded_len header
              \<and> test_decode (take written buffer) = Inr (Inr (header, written)))
       [(5, 2), (200, 4), (70000, 10)]"

definition round_trips_a_masked_header :: bool where
  "round_trips_a_masked_header =
     (let header = \<lparr>h_fin = False, h_opcode = Continuation, h_mask = Some (1, 2, 3, 4), h_payload_len = 300\<rparr>
      in case header_encode header (replicate MAX_ENCODED_LEN 0) of
           None \<Rightarrow> False
         | Some (buffer, written) \<Rightarrow> test_decode (take written buffer) = Inr (Inr (header, written)))"

definition encode_refuses_a_short_buffer :: bool where
  "encode_refuses_a_short_buffer =
     (header_encode \<lparr>h_fin = True, h_opcode = Text, h_mask = None, h_payload_len = 70000\<rparr> (replicate 4 0) = None)"

lemma frame_tests:
  "decodes_a_short_unmasked_text_frame"
  "decodes_a_masked_frame_and_reports_the_key"
  "reports_incomplete_without_consuming"
  "rejects_reserved_bits_and_opcodes"
  "rejects_oversized_and_fragmented_control_frames"
  "rejects_non_minimal_lengths"
  "enforces_the_payload_limit_from_the_header_alone"
  "round_trips_every_length_class"
  "round_trips_a_masked_header"
  "encode_refuses_a_short_buffer"
  by code_simp+

section \<open>Messages\<close>

text \<open>One call of \<open>accept\<close> after another on the same assembler: what each returns, and the assembler in the
  end.\<close>

fun accepts :: "assembler \<Rightarrow> frame list \<Rightarrow> ((protocol_error + message option) list \<times> assembler) option" where
  "accepts a [] = Some ([], a)"
| "accepts a ((op, fin, payload) # frames) =
     (case assembler_accept Std a op fin payload of
        None \<Rightarrow> None
      | Some (r, a') \<Rightarrow> map_option (apfst (Cons r)) (accepts a' frames))"

definition returns :: "limits \<Rightarrow> frame list \<Rightarrow> (protocol_error + message option) list \<Rightarrow> bool" where
  "returns l frames results = (map_option fst (accepts (assembler_new l) frames) = Some results)"

text \<open>The payload of this test is compared by value; that it is not copied is not visible here.\<close>

definition passes_an_unfragmented_text_message_through_without_copying :: bool where
  "passes_an_unfragmented_text_message_through_without_copying =
     returns default_limits [(Text, True, [104, 101, 108, 108, 111])] [Inr (Some (MText [104, 101, 108, 108, 111]))]"

definition reassembles_a_fragmented_message :: bool where
  "reassembles_a_fragmented_message =
     returns default_limits
       [(Text, False, [104, 101]), (Continuation, False, [108, 108]), (Continuation, True, [111])]
       [Inr None, Inr None, Inr (Some (MText [104, 101, 108, 108, 111]))]"

text \<open>The euro sign is \<open>E2 82 AC\<close>.\<close>

definition accepts_utf8_split_across_a_fragment_boundary :: bool where
  "accepts_utf8_split_across_a_fragment_boundary =
     (let euro = [0xE2, 0x82, 0xAC]
      in returns default_limits [(Text, False, take 1 euro), (Continuation, True, drop 1 euro)]
           [Inr None, Inr (Some (MText euro))])"

definition rejects_invalid_utf8_in_text :: bool where
  "rejects_invalid_utf8_in_text = returns default_limits [(Text, True, [0xFF, 0xFE])] [Inl InvalidUtf8]"

definition allows_arbitrary_bytes_in_binary :: bool where
  "allows_arbitrary_bytes_in_binary =
     returns default_limits [(Binary, True, [0xFF, 0xFE])] [Inr (Some (MBinary [0xFF, 0xFE]))]"

definition control_frames_may_interleave_with_fragments :: bool where
  "control_frames_may_interleave_with_fragments =
     returns default_limits
       [(Text, False, [104, 101]), (Ping, True, [120]), (Continuation, True, [108, 108, 111])]
       [Inr None, Inr (Some (MPing [120])), Inr (Some (MText [104, 101, 108, 108, 111]))]"

definition rejects_a_continuation_with_nothing_in_progress :: bool where
  "rejects_a_continuation_with_nothing_in_progress =
     returns default_limits [(Continuation, True, [120])] [Inl UnexpectedContinuation]"

definition rejects_a_data_frame_interleaved_into_a_fragmented_message :: bool where
  "rejects_a_data_frame_interleaved_into_a_fragmented_message =
     returns default_limits [(Text, False, [104, 101]), (Text, True, [111, 116, 104, 101, 114])]
       [Inr None, Inl InterleavedDataFrame]"

definition caps_a_message_reassembled_from_many_legal_frames :: bool where
  "caps_a_message_reassembled_from_many_legal_frames =
     returns \<lparr>max_frame = 1024, max_message = 8\<rparr>
       [(Binary, False, [49, 50, 51, 52, 53]), (Continuation, True, [54, 55, 56, 57])]
       [Inr None, Inl MessageTooLarge]"

definition parses_close_bodies :: bool where
  "parses_close_bodies =
     (returns default_limits [(Close, True, [])] [Inr (Some (MClose None))]
      \<and> (case accepts (assembler_new default_limits) [(Close, True, [0x03, 0xE8] @ [98, 121, 101])] of
           None \<Rightarrow> False
         | Some (results, a) \<Rightarrow>
             results = [Inr (Some (MClose (Some \<lparr>cf_code = NORMAL, cf_reason = [98, 121, 101]\<rparr>)))]
             \<and> assembler_is_closed a))"

definition rejects_malformed_and_illegal_close_bodies :: bool where
  "rejects_malformed_and_illegal_close_bodies =
     (returns default_limits [(Close, True, [0x03])] [Inl MalformedCloseFrame]
      \<and> returns default_limits [(Close, True, [0x03, 0xED])] [Inl InvalidCloseCode]
      \<and> returns default_limits [(Close, True, [0x03, 0xE8, 0xFF])] [Inl InvalidUtf8])"

definition accepts_application_close_codes :: bool where
  "accepts_application_close_codes =
     returns default_limits [(Close, True, [0x0F, 0xA0])]
       [Inr (Some (MClose (Some \<lparr>cf_code = CloseCode 4000, cf_reason = []\<rparr>)))]"

lemmas accept_eval = returns_def assembler_new_def default_limits_def assembler_accept_def accept_continuation_def
  accept_data_def accept_control_def finish_unfragmented_def assembler_finish_def parse_close_body_def saturating_len_def
  is_sendable_def be_word_def close_code_defs utf8_eval

lemma message_tests:
  "passes_an_unfragmented_text_message_through_without_copying"
  "reassembles_a_fragmented_message"
  "accepts_utf8_split_across_a_fragment_boundary"
  "rejects_invalid_utf8_in_text"
  "allows_arbitrary_bytes_in_binary"
  "control_frames_may_interleave_with_fragments"
  "rejects_a_continuation_with_nothing_in_progress"
  "rejects_a_data_frame_interleaved_into_a_fragmented_message"
  "caps_a_message_reassembled_from_many_legal_frames"
  "parses_close_bodies"
  "rejects_malformed_and_illegal_close_bodies"
  "accepts_application_close_codes"
  by (simp_all add: accept_eval Let_def
    passes_an_unfragmented_text_message_through_without_copying_def
    reassembles_a_fragmented_message_def
    accepts_utf8_split_across_a_fragment_boundary_def
    rejects_invalid_utf8_in_text_def
    allows_arbitrary_bytes_in_binary_def
    control_frames_may_interleave_with_fragments_def
    rejects_a_continuation_with_nothing_in_progress_def
    rejects_a_data_frame_interleaved_into_a_fragmented_message_def
    caps_a_message_reassembled_from_many_legal_frames_def
    parses_close_bodies_def
    rejects_malformed_and_illegal_close_bodies_def
    accepts_application_close_codes_def)

end
