(* ===== verification/Tests_Handshake.thy ===== *)
theory Tests_Handshake
  imports Vectors Handshake
begin

text \<open>
  The unit tests of the opening handshake (the \<open>tests\<close> module of \<open>src/src/proto/handshake.rs\<close>), as
  predicates over the model, one for each test. The heads the tests send are proved to be heads made of a
  start line and fields, and the specification of the parser says what it answers to those.
\<close>

section \<open>The tests' own helpers\<close>

text \<open>\<open>{byte:02x}\<close> for every byte of a digest.\<close>

definition hex_digit :: "nat \<Rightarrow> u8" where
  "hex_digit n = (if n < 10 then 48 + of_nat n else 87 + of_nat n)"

definition hex :: "bytes \<Rightarrow> str" where
  "hex digest = concat (map (\<lambda>b. [hex_digit (unat b div 16), hex_digit (unat b mod 16)]) digest)"

text \<open>\<open>str::replace\<close>, from left to right.\<close>

function replace_str :: "str \<Rightarrow> str \<Rightarrow> str \<Rightarrow> str" where
  "replace_str old new s =
     (if old \<noteq> [] \<and> take (length old) s = old then new @ replace_str old new (drop (length old) s)
      else (case s of [] \<Rightarrow> [] | x # xs \<Rightarrow> x # replace_str old new xs))"
  by pat_completeness auto
termination
proof (relation "measure (\<lambda>(_, _, s). length s)")
  fix old new s :: str
  assume "old \<noteq> [] \<and> take (length old) s = old"
  then have "old \<noteq> []" "s \<noteq> []"
    by auto
  then show "((old, new, drop (length old) s), (old, new, s)) \<in> measure (\<lambda>(_, _, s). length s)"
    by simp
qed auto

declare replace_str.simps [simp del]

text \<open>For evaluation: the rest of the pattern is looked at only where its first byte occurs.\<close>

lemma replace_eval:
  "replace_str old new [] = []"
  "replace_str (c # old) new (x # xs) =
     (if x = c then
        if take (length old) xs = old then new @ replace_str (c # old) new (drop (length old) xs)
        else x # replace_str (c # old) new xs
      else x # replace_str (c # old) new xs)"
  by (subst replace_str.simps, auto)+

text \<open>A head: its lines, each ended by a carriage return and a line feed, and a blank line.\<close>

definition lines_of :: "string list \<Rightarrow> str" where
  "lines_of lines = concat (map (\<lambda>line. ascii line @ crlf) lines) @ crlf"

definition good_request :: str where
  "good_request =
     lines_of [''GET /chat HTTP/1.1'', ''Host: example.com'', ''Upgrade: websocket'', ''Connection: Upgrade'',
       ''Sec-WebSocket-Key: dGhlIHNhbXBsZSBub25jZQ=='', ''Sec-WebSocket-Version: 13'']"

text \<open>\<open>upgrade_of\<close>: \<open>None\<close> is its panic.\<close>

definition upgrade_of :: "bytes \<Rightarrow> request option" where
  "upgrade_of input =
     (case parse_request input DEFAULT_MAX_HEAD of Inr (Upgrade request) \<Rightarrow> Some request | _ \<Rightarrow> None)"

definition plain_of :: "bytes \<Rightarrow> request option" where
  "plain_of input =
     (case parse_request input DEFAULT_MAX_HEAD of Inr (Plain request) \<Rightarrow> Some request | _ \<Rightarrow> None)"

text \<open>Looking a header up: case insensitively, the first match wins.\<close>

definition test_header :: "request \<Rightarrow> str \<Rightarrow> str option" where
  "test_header request name =
     map_option snd (find (\<lambda>(had, _). eq_ignore_ascii_case had name) (r_headers request))"

section \<open>Hashes and keys\<close>

definition sha1_matches_the_published_vectors :: bool where
  "sha1_matches_the_published_vectors =
     list_all (\<lambda>(input, digest). hex (sha1_finish (sha1_update sha1_new (ascii input))) = ascii digest)
       [('''', ''da39a3ee5e6b4b0d3255bfef95601890afd80709''),
        (''abc'', ''a9993e364706816aba3e25717850c26c9cd0d89d''),
        (''abcdbcdecdefdefgefghfghighijhijkijkljklmklmnlmnomnopnopq'', ''84983e441c3bd26ebaae4aa1f95129e5e54670f1'')]"

definition base64_matches_known_values :: bool where
  "base64_matches_known_values =
     list_all (\<lambda>(input, output). base64_encode (ascii input) = ascii output)
       [('''', ''''), (''f'', ''Zg==''), (''fo'', ''Zm8=''), (''foo'', ''Zm9v''), (''foob'', ''Zm9vYg==''),
        (''fooba'', ''Zm9vYmE=''), (''foobar'', ''Zm9vYmFy'')]"

definition computes_the_accept_value_from_the_rfc :: bool where
  "computes_the_accept_value_from_the_rfc =
     (accept_for (ascii ''dGhlIHNhbXBsZSBub25jZQ=='') = ascii ''s3pPLMBiTxaQ9kYGzzhZRbK+xOo='')"

definition validates_key_shape :: bool where
  "validates_key_shape =
     (is_valid_key (ascii ''dGhlIHNhbXBsZSBub25jZQ=='')
      \<and> \<not> is_valid_key (ascii ''tooshort=='')
      \<and> \<not> is_valid_key (ascii ''dGhlIHNhbXBsZSBub25jZQ='')
      \<and> \<not> is_valid_key (ascii ''!!!!!!!!!!!!!!!!!!!!!!==''))"

lemma sha1_two_blocks:
  "sha1_spec (ascii ''abcdbcdecdefdefgefghfghighijhijkijkljklmklmnlmnomnopnopq'') =
     [0x84, 0x98, 0x3E, 0x44, 0x1C, 0x3B, 0xD2, 0x6E, 0xBA, 0xAE, 0x4A, 0xA1, 0xF9, 0x51, 0x29, 0xE5, 0xE5,
      0x46, 0x70, 0xF1]"
  by (simp add: ascii_def sha1_eval)

lemma hash_tests:
  "sha1_matches_the_published_vectors"
  "base64_matches_known_values"
  "computes_the_accept_value_from_the_rfc"
  "validates_key_shape"
proof -
  show "sha1_matches_the_published_vectors"
    using sha1_empty sha1_abc
    by (simp add: sha1_matches_the_published_vectors_def sha1_finish_update_new sha1_two_blocks)
      (simp add: ascii_def hex_def hex_digit_def)
  show "base64_matches_known_values"
    by (simp add: base64_matches_known_values_def base64_encode.simps base64_chunk_eq b64_triple_def B64_def ascii_def)
  show "computes_the_accept_value_from_the_rfc"
    by (simp add: computes_the_accept_value_from_the_rfc_def accept_for_rfc6455)
  show "validates_key_shape"
    by (simp add: validates_key_shape_def is_valid_key_def ascii_def is_ascii_alphanumeric_def)
qed

section \<open>Requests\<close>

definition parses_a_well_formed_upgrade :: bool where
  "parses_a_well_formed_upgrade =
     (case upgrade_of good_request of
        None \<Rightarrow> False
      | Some request \<Rightarrow>
          r_method request = Get \<and> r_path request = ascii ''/chat''
          \<and> r_key request = ascii ''dGhlIHNhbXBsZSBub25jZQ=='' \<and> r_protocols request = [])"

definition finds_the_end_of_a_head_and_waits_for_the_rest :: bool where
  "finds_the_end_of_a_head_and_waits_for_the_rest =
     (head_end good_request = Some (length good_request)
      \<and> head_end (take 40 good_request) = None
      \<and> head_end (ascii ''GET / HTTP/1.1'' @ [10, 10]) = Some 16)"

definition header_names_are_case_insensitive :: bool where
  "header_names_are_case_insensitive =
     (map_option r_path (upgrade_of (lines_of [''GET / HTTP/1.1'', ''HOST: example.com'', ''upgrade: WebSocket'',
        ''CoNnEcTiOn: Upgrade'', ''sec-websocket-key: dGhlIHNhbXBsZSBub25jZQ=='', ''SEC-WEBSOCKET-VERSION: 13'']))
      = Some (ascii ''/''))"

definition accepts_connection_with_other_tokens_alongside_upgrade :: bool where
  "accepts_connection_with_other_tokens_alongside_upgrade =
     (let request = replace_str (ascii ''Connection: Upgrade'') (ascii ''Connection: keep-alive, Upgrade'') good_request
      in map_option r_path (upgrade_of request) = Some (ascii ''/chat''))"

definition collects_offered_subprotocols_in_order :: bool where
  "collects_offered_subprotocols_in_order =
     (let request = replace_str (ascii ''Sec-WebSocket-Version: 13'')
            (ascii ''Sec-WebSocket-Protocol: mcp, chat'' @ crlf @ ascii ''Sec-WebSocket-Version: 13'') good_request
      in map_option r_protocols (upgrade_of request) = Some [ascii ''mcp'', ascii ''chat''])"

definition a_request_that_is_not_an_upgrade_comes_back_whole :: bool where
  "a_request_that_is_not_an_upgrade_comes_back_whole =
     list_all (\<lambda>(request, method).
         case plain_of request of
           None \<Rightarrow> False
         | Some plain \<Rightarrow> r_method plain = method \<and> r_path plain = ascii ''/chat'' \<and> r_key plain = [])
       [(replace_str (ascii ''GET'') (ascii ''POST'') good_request, Other (ascii ''POST'')),
        (replace_str (ascii ''GET'') (ascii ''OPTIONS'') good_request, Options),
        (replace_str (ascii ''GET'') (ascii ''HEAD'') good_request, Head),
        (replace_str (ascii ''Upgrade: websocket'' @ crlf) [] good_request, Get),
        (replace_str (ascii ''Connection: Upgrade'' @ crlf) [] good_request, Get)]"

definition a_preflight_is_distinguishable_from_a_plain_get :: bool where
  "a_preflight_is_distinguishable_from_a_plain_get =
     ((case plain_of (lines_of [''OPTIONS /chat HTTP/1.1'', ''Host: example.com'', ''Origin: https://app.example.com'',
          ''Access-Control-Request-Method: GET'', ''Access-Control-Request-Headers: authorization'']) of
         None \<Rightarrow> False
       | Some request \<Rightarrow>
           r_method request = Options
           \<and> test_header request (ascii ''access-control-request-method'') = Some (ascii ''GET'')
           \<and> test_header request (ascii ''access-control-request-headers'') = Some (ascii ''authorization''))
      \<and> (case parse_request (lines_of [''GET / HTTP/1.1'', ''Host: example.com'']) DEFAULT_MAX_HEAD of
           Inl e \<Rightarrow> False
         | Inr plain \<Rightarrow>
             r_method (parsed_request plain) = Get \<and> (case plain of Plain _ \<Rightarrow> True | Upgrade _ \<Rightarrow> False)))"

definition the_origin_survives_a_parse :: bool where
  "the_origin_survives_a_parse =
     (let request = replace_str (ascii ''Host: example.com'')
            (ascii ''Host: example.com'' @ crlf @ ascii ''Origin: https://app.example.com'' @ crlf
               @ ascii ''Cookie: session=abc'') good_request
      in case upgrade_of request of
           None \<Rightarrow> False
         | Some parsed \<Rightarrow>
             test_header parsed (ascii ''origin'') = Some (ascii ''https://app.example.com'')
             \<and> test_header parsed (ascii ''ORIGIN'') = Some (ascii ''https://app.example.com'')
             \<and> test_header parsed (ascii ''cookie'') = Some (ascii ''session=abc'')
             \<and> test_header parsed (ascii ''sec-websocket-version'') = Some (ascii ''13'')
             \<and> test_header parsed (ascii ''x-absent'') = None)"

definition refuses_a_head_with_too_many_headers :: bool where
  "refuses_a_head_with_too_many_headers =
     (let request = butlast (butlast good_request) @ concat (replicate MAX_HEADERS (ascii ''a: b'' @ crlf)) @ crlf
      in length request < DEFAULT_MAX_HEAD \<and> parse_request request DEFAULT_MAX_HEAD = Inl HeadTooLarge)"

definition rejects_upgrades_that_got_the_handshake_wrong :: bool where
  "rejects_upgrades_that_got_the_handshake_wrong =
     list_all (\<lambda>(request, expected). parse_request request DEFAULT_MAX_HEAD = Inl expected)
       [(replace_str (ascii ''Version: 13'') (ascii ''Version: 8'') good_request, WrongVersion),
        (replace_str (ascii ''Sec-WebSocket-Key: dGhlIHNhbXBsZSBub25jZQ=='' @ crlf) [] good_request, BadKey),
        (replace_str (ascii ''dGhlIHNhbXBsZSBub25jZQ=='') (ascii ''c2hvcnQ='') good_request, BadKey)]"

definition refuses_an_oversized_head :: bool where
  "refuses_an_oversized_head =
     (parse_request (good_request @ concat (replicate 4096 (ascii ''X-Padding: x'' @ crlf))) DEFAULT_MAX_HEAD
      = Inl HeadTooLarge)"

text \<open>The heads are made of a start line and fields.\<close>

definition plain_start :: "str \<Rightarrow> str \<Rightarrow> str \<Rightarrow> bool" where
  "plain_start start m path \<longleftrightarrow>
     (\<exists>words. split_char 32 start = m # path # words) \<and> trim_end_cr start = start \<and> 10 \<notin> set start \<and> utf8_valid start"

lemma parse_head:
  assumes "plain_start start m path" and "list_all ok_field fs" "length fs \<le> MAX_HEADERS"
    and "length (head_bytes start fs) \<le> max_head"
  shows "parse_request (head_bytes start fs) max_head = judge (parse_method m) path fs"
  using assms(1,3,4) utf8_head_bytes [OF _ assms(2)] head_bytes_lines [OF _ assms(2)] fields_of_tail_lines [OF assms(2,3)]
  unfolding parse_request_is_spec request_spec_def plain_start_def by (auto simp: Let_def)

text \<open>The start lines of the tests.\<close>

lemma starts:
  "plain_start (ascii ''GET /chat HTTP/1.1'') (ascii ''GET'') (ascii ''/chat'')"
  "plain_start (ascii ''POST /chat HTTP/1.1'') (ascii ''POST'') (ascii ''/chat'')"
  "plain_start (ascii ''OPTIONS /chat HTTP/1.1'') (ascii ''OPTIONS'') (ascii ''/chat'')"
  "plain_start (ascii ''HEAD /chat HTTP/1.1'') (ascii ''HEAD'') (ascii ''/chat'')"
  "plain_start (ascii ''GET / HTTP/1.1'') (ascii ''GET'') (ascii ''/'')"
  by (simp_all add: plain_start_def ascii_def Let_def trim_end_cr_def utf8_valid.simps(2))

lemma methods:
  "parse_method (ascii ''GET'') = Get" "parse_method (ascii ''POST'') = Other (ascii ''POST'')"
  "parse_method (ascii ''OPTIONS'') = Options" "parse_method (ascii ''HEAD'') = Head"
  by (simp_all add: parse_method_def eq_ignore_ascii_case_def ascii_lower_def ascii_def)

text \<open>The fields of the good request, with what a test may replace.\<close>

abbreviation host_field :: field where "host_field \<equiv> (ascii ''Host'', ascii ''example.com'')"
abbreviation upgrade_field :: field where "upgrade_field \<equiv> (ascii ''Upgrade'', ascii ''websocket'')"
abbreviation connection_field :: field where "connection_field \<equiv> (ascii ''Connection'', ascii ''Upgrade'')"
abbreviation key_field :: field where
  "key_field \<equiv> (ascii ''Sec-WebSocket-Key'', ascii ''dGhlIHNhbXBsZSBub25jZQ=='')"
abbreviation version_field :: field where "version_field \<equiv> (ascii ''Sec-WebSocket-Version'', ascii ''13'')"

abbreviation good_fields :: "field list" where
  "good_fields \<equiv> [host_field, upgrade_field, connection_field, key_field, version_field]"

lemmas head_eval = good_request_def lines_of_def head_bytes_def header_line_def crlf_def ascii_def

lemma good_head: "good_request = head_bytes (ascii ''GET /chat HTTP/1.1'') good_fields"
  by (simp add: head_eval)

text \<open>What each head is, and what the parser is asked to judge.\<close>

lemmas field_eval = ok_field_def ascii_def ok_value_def trimmed_ascii utf8_valid.simps(2) MAX_HEADERS_def DEFAULT_MAX_HEAD_def
  head_bytes_def header_line_def

lemmas lookup_eval = last_field_def all_fields_def eq_ignore_ascii_case_def ascii_def ascii_lower_def

lemma key_ok: "is_valid_key (ascii ''dGhlIHNhbXBsZSBub25jZQ=='')"
  by (simp add: is_valid_key_def ascii_def is_ascii_alphanumeric_def)

lemma tokens:
  "has_upgrade_token (ascii ''Upgrade'')" "has_upgrade_token (ascii ''keep-alive, Upgrade'')"
  "offered_tokens (ascii ''mcp, chat'') = [ascii ''mcp'', ascii ''chat'']"
  by (simp_all add: has_upgrade_token_def offered_tokens_def ascii_def Let_def eq_ignore_ascii_case_def ascii_lower_def
    trim_blank trim_trimmed trimmed_ascii)

text \<open>A request is an upgrade once its last fields are known.\<close>

definition asks_well :: "field list \<Rightarrow> bool" where
  "asks_well fs \<longleftrightarrow> list_all ok_field fs \<and> length fs \<le> MAX_HEADERS
     \<and> (\<exists>u. last_field (ascii ''upgrade'') fs = Some u \<and> eq_ignore_ascii_case u (ascii ''websocket''))
     \<and> (last_field (ascii ''connection'') fs = Some (ascii ''Upgrade'')
        \<or> last_field (ascii ''connection'') fs = Some (ascii ''keep-alive, Upgrade''))
     \<and> last_field (ascii ''sec-websocket-version'') fs = Some (ascii ''13'')
     \<and> last_field (ascii ''sec-websocket-key'') fs = Some (ascii ''dGhlIHNhbXBsZSBub25jZQ=='')"

lemma upgrade_of_head:
  assumes "asks_well fs" "plain_start start (ascii ''GET'') path" "length (head_bytes start fs) \<le> DEFAULT_MAX_HEAD"
  shows "upgrade_of (head_bytes start fs) = Some \<lparr>r_method = Get, r_path = path,
     r_key = ascii ''dGhlIHNhbXBsZSBub25jZQ=='',
     r_protocols = concat (map offered_tokens (all_fields (ascii ''sec-websocket-protocol'') fs)), r_headers = fs\<rparr>"
proof -
  have "asks_upgrade Get fs"
    using assms(1) tokens(1,2) by (auto simp: asks_well_def asks_upgrade_def has_upgrade_token_def list_ex_iff)
  then show ?thesis
    using assms key_ok by (simp add: upgrade_of_def asks_well_def parse_head [OF assms(2)] methods judge_def Let_def)
qed

lemma upgrade_tests:
  "parses_a_well_formed_upgrade"
  "header_names_are_case_insensitive"
  "accepts_connection_with_other_tokens_alongside_upgrade"
  "collects_offered_subprotocols_in_order"
  "the_origin_survives_a_parse"
proof -
  show "parses_a_well_formed_upgrade"
  proof -
    have "asks_well good_fields" "length (head_bytes (ascii ''GET /chat HTTP/1.1'') good_fields) \<le> DEFAULT_MAX_HEAD"
      by (simp_all add: asks_well_def field_eval lookup_eval)
    from upgrade_of_head [OF this(1) starts(1) this(2)] show ?thesis
      by (simp add: parses_a_well_formed_upgrade_def good_head) (simp add: lookup_eval)
  qed
  show "accepts_connection_with_other_tokens_alongside_upgrade"
  proof -
    let ?fs = "[host_field, upgrade_field, (ascii ''Connection'', ascii ''keep-alive, Upgrade''), key_field, version_field]"
    have "asks_well ?fs" "length (head_bytes (ascii ''GET /chat HTTP/1.1'') ?fs) \<le> DEFAULT_MAX_HEAD"
      by (simp_all add: asks_well_def field_eval lookup_eval)
    moreover have "replace_str (ascii ''Connection: Upgrade'') (ascii ''Connection: keep-alive, Upgrade'') good_request
        = head_bytes (ascii ''GET /chat HTTP/1.1'') ?fs"
      by (simp add: head_eval replace_eval)
    ultimately show ?thesis
      using upgrade_of_head [OF _ starts(1)]
      by (simp add: accepts_connection_with_other_tokens_alongside_upgrade_def)
  qed
  show "collects_offered_subprotocols_in_order"
  proof -
    let ?fs = "[host_field, upgrade_field, connection_field, key_field,
      (ascii ''Sec-WebSocket-Protocol'', ascii ''mcp, chat''), version_field]"
    have "asks_well ?fs" "length (head_bytes (ascii ''GET /chat HTTP/1.1'') ?fs) \<le> DEFAULT_MAX_HEAD"
      by (simp_all add: asks_well_def field_eval lookup_eval)
    moreover have "replace_str (ascii ''Sec-WebSocket-Version: 13'')
          (ascii ''Sec-WebSocket-Protocol: mcp, chat'' @ crlf @ ascii ''Sec-WebSocket-Version: 13'') good_request
        = head_bytes (ascii ''GET /chat HTTP/1.1'') ?fs"
      by (simp add: head_eval replace_eval)
    moreover have "all_fields (ascii ''sec-websocket-protocol'') ?fs = [ascii ''mcp, chat'']"
      by (simp add: lookup_eval)
    ultimately show ?thesis
      using upgrade_of_head [OF _ starts(1)]
      by (simp add: collects_offered_subprotocols_in_order_def tokens(3))
  qed
  show "the_origin_survives_a_parse"
  proof -
    let ?fs = "[host_field, (ascii ''Origin'', ascii ''https://app.example.com''), (ascii ''Cookie'', ascii ''session=abc''),
      upgrade_field, connection_field, key_field, version_field]"
    have "asks_well ?fs" "length (head_bytes (ascii ''GET /chat HTTP/1.1'') ?fs) \<le> DEFAULT_MAX_HEAD"
      by (simp_all add: asks_well_def field_eval lookup_eval)
    moreover have "replace_str (ascii ''Host: example.com'')
          (ascii ''Host: example.com'' @ crlf @ ascii ''Origin: https://app.example.com'' @ crlf
             @ ascii ''Cookie: session=abc'') good_request
        = head_bytes (ascii ''GET /chat HTTP/1.1'') ?fs"
      by (simp add: head_eval replace_eval)
    ultimately show ?thesis
      using upgrade_of_head [OF _ starts(1)]
      by (simp only: the_origin_survives_a_parse_def Let_def option.case test_header_def request.select_convs) (simp add: eq_ignore_ascii_case_def ascii_def ascii_lower_def)
  qed
  show "header_names_are_case_insensitive"
  proof -
    let ?fs = "[(ascii ''HOST'', ascii ''example.com''), (ascii ''upgrade'', ascii ''WebSocket''),
      (ascii ''CoNnEcTiOn'', ascii ''Upgrade''), (ascii ''sec-websocket-key'', ascii ''dGhlIHNhbXBsZSBub25jZQ==''),
      (ascii ''SEC-WEBSOCKET-VERSION'', ascii ''13'')]"
    have "asks_well ?fs" "length (head_bytes (ascii ''GET / HTTP/1.1'') ?fs) \<le> DEFAULT_MAX_HEAD"
      by (simp_all add: asks_well_def field_eval lookup_eval)
    moreover have "lines_of [''GET / HTTP/1.1'', ''HOST: example.com'', ''upgrade: WebSocket'',
        ''CoNnEcTiOn: Upgrade'', ''sec-websocket-key: dGhlIHNhbXBsZSBub25jZQ=='', ''SEC-WEBSOCKET-VERSION: 13'']
      = head_bytes (ascii ''GET / HTTP/1.1'') ?fs"
      by (simp add: head_eval)
    ultimately show ?thesis
      using upgrade_of_head [OF _ starts(5)] by (simp add: header_names_are_case_insensitive_def)
  qed
qed

text \<open>Requests that are not upgrades, and those that got it wrong.\<close>

lemma plain_of_head:
  assumes "plain_start start m path" "list_all ok_field fs" "length fs \<le> MAX_HEADERS"
    and "length (head_bytes start fs) \<le> DEFAULT_MAX_HEAD" "\<not> asks_upgrade (parse_method m) fs"
  shows "plain_of (head_bytes start fs) = Some \<lparr>r_method = parse_method m, r_path = path, r_key = [],
     r_protocols = concat (map offered_tokens (all_fields (ascii ''sec-websocket-protocol'') fs)), r_headers = fs\<rparr>"
  using assms by (simp add: plain_of_def parse_head [OF assms(1)] judge_def Let_def)

lemma good_fields_ok: "list_all ok_field good_fields" "length good_fields \<le> MAX_HEADERS"
  by (simp_all add: field_eval)

lemma replaced_method:
  "replace_str (ascii ''GET'') (ascii ''POST'') good_request = head_bytes (ascii ''POST /chat HTTP/1.1'') good_fields"
  "replace_str (ascii ''GET'') (ascii ''OPTIONS'') good_request = head_bytes (ascii ''OPTIONS /chat HTTP/1.1'') good_fields"
  "replace_str (ascii ''GET'') (ascii ''HEAD'') good_request = head_bytes (ascii ''HEAD /chat HTTP/1.1'') good_fields"
  by (simp_all add: head_eval replace_eval)

lemma dropped_field:
  "replace_str (ascii ''Upgrade: websocket'' @ crlf) [] good_request =
     head_bytes (ascii ''GET /chat HTTP/1.1'') [host_field, connection_field, key_field, version_field]"
  "replace_str (ascii ''Connection: Upgrade'' @ crlf) [] good_request =
     head_bytes (ascii ''GET /chat HTTP/1.1'') [host_field, upgrade_field, key_field, version_field]"
  by (simp_all add: head_eval replace_eval)

lemma not_asked:
  "last_field (ascii ''upgrade'') [host_field, connection_field, key_field, version_field] = None"
  "last_field (ascii ''connection'') [host_field, upgrade_field, key_field, version_field] = None"
  by (simp_all add: lookup_eval)

lemma a_request_that_is_not_an_upgrade_comes_back_whole_holds: "a_request_that_is_not_an_upgrade_comes_back_whole"
proof -
  have lengths: "length (head_bytes (ascii ''POST /chat HTTP/1.1'') good_fields) \<le> DEFAULT_MAX_HEAD"
    "length (head_bytes (ascii ''OPTIONS /chat HTTP/1.1'') good_fields) \<le> DEFAULT_MAX_HEAD"
    "length (head_bytes (ascii ''HEAD /chat HTTP/1.1'') good_fields) \<le> DEFAULT_MAX_HEAD"
    by (simp_all add: field_eval)
  have fields: "list_all ok_field [host_field, connection_field, key_field, version_field]"
    "length (head_bytes (ascii ''GET /chat HTTP/1.1'') [host_field, connection_field, key_field, version_field]) \<le> DEFAULT_MAX_HEAD"
    "list_all ok_field [host_field, upgrade_field, key_field, version_field]"
    "length (head_bytes (ascii ''GET /chat HTTP/1.1'') [host_field, upgrade_field, key_field, version_field]) \<le> DEFAULT_MAX_HEAD"
    by (simp_all add: field_eval)
  have few: "length [host_field, connection_field, key_field, version_field] \<le> MAX_HEADERS"
    "length [host_field, upgrade_field, key_field, version_field] \<le> MAX_HEADERS"
    by (simp_all add: MAX_HEADERS_def)
  show ?thesis
    unfolding a_request_that_is_not_an_upgrade_comes_back_whole_def list.pred_inject prod.case
      replaced_method dropped_field
    using plain_of_head [OF starts(2) good_fields_ok lengths(1)] plain_of_head [OF starts(3) good_fields_ok lengths(2)]
      plain_of_head [OF starts(4) good_fields_ok lengths(3)]
      plain_of_head [OF starts(1) fields(1) few(1) fields(2)] plain_of_head [OF starts(1) fields(3) few(2) fields(4)]
    by (simp add: methods asks_upgrade_def not_asked)
qed

lemma finds_the_end_of_a_head_and_waits_for_the_rest_holds: "finds_the_end_of_a_head_and_waits_for_the_rest"
proof -
  have start: "ok_start (ascii ''GET /chat HTTP/1.1'')"
    by (simp add: ok_start_def ascii_def)
  have long: "40 < length good_request"
    by (simp add: head_eval)
  have end_at: "head_end p = (if length p < length good_request then None else Some (length good_request))"
    if "p @ q = good_request" for p q
    using head_end_prefix [OF start good_fields_ok(1), of p q "[]"] that by (simp add: good_head)
  show ?thesis
    using end_at [of good_request "[]"] end_at [of "take 40 good_request" "drop 40 good_request"] bare_lf_head_end(1) long
    by (simp add: finds_the_end_of_a_head_and_waits_for_the_rest_def)
qed

lemma a_preflight_is_distinguishable_from_a_plain_get_holds: "a_preflight_is_distinguishable_from_a_plain_get"
proof -
  let ?fs = "[host_field, (ascii ''Origin'', ascii ''https://app.example.com''),
    (ascii ''Access-Control-Request-Method'', ascii ''GET''),
    (ascii ''Access-Control-Request-Headers'', ascii ''authorization'')]"
  have "lines_of [''OPTIONS /chat HTTP/1.1'', ''Host: example.com'', ''Origin: https://app.example.com'',
          ''Access-Control-Request-Method: GET'', ''Access-Control-Request-Headers: authorization'']
      = head_bytes (ascii ''OPTIONS /chat HTTP/1.1'') ?fs"
    "lines_of [''GET / HTTP/1.1'', ''Host: example.com''] = head_bytes (ascii ''GET / HTTP/1.1'') [host_field]"
    by (simp_all add: head_eval)
  note heads = this
  have ok: "list_all ok_field ?fs" "length ?fs \<le> MAX_HEADERS"
    "length (head_bytes (ascii ''OPTIONS /chat HTTP/1.1'') ?fs) \<le> DEFAULT_MAX_HEAD"
    "list_all ok_field [host_field]" "length [host_field] \<le> MAX_HEADERS"
    "length (head_bytes (ascii ''GET / HTTP/1.1'') [host_field]) \<le> DEFAULT_MAX_HEAD"
    by (simp_all add: field_eval)
  have "\<not> asks_upgrade Options ?fs" "\<not> asks_upgrade Get [host_field]"
    by (simp_all add: asks_upgrade_def lookup_eval)
  note asks = this
  have preflight: "plain_of (head_bytes (ascii ''OPTIONS /chat HTTP/1.1'') ?fs) = Some \<lparr>r_method = Options,
      r_path = ascii ''/chat'', r_key = [],
      r_protocols = concat (map offered_tokens (all_fields (ascii ''sec-websocket-protocol'') ?fs)), r_headers = ?fs\<rparr>"
    by (rule plain_of_head [OF starts(3) ok(1-3), unfolded methods, OF asks(1)])
  have get: "parse_request (head_bytes (ascii ''GET / HTTP/1.1'') [host_field]) DEFAULT_MAX_HEAD
      = judge Get (ascii ''/'') [host_field]"
    using parse_head [OF starts(5) ok(4-6)] by (simp only: methods)
  have "test_header \<lparr>r_method = Options, r_path = ascii ''/chat'', r_key = [],
      r_protocols = ps, r_headers = ?fs\<rparr> (ascii ''access-control-request-method'') = Some (ascii ''GET'')"
    "test_header \<lparr>r_method = Options, r_path = ascii ''/chat'', r_key = [],
      r_protocols = ps, r_headers = ?fs\<rparr> (ascii ''access-control-request-headers'') = Some (ascii ''authorization'')" for ps
    by (simp_all add: test_header_def eq_ignore_ascii_case_def ascii_def ascii_lower_def)
  then show ?thesis
    using asks by (simp add: a_preflight_is_distinguishable_from_a_plain_get_def heads preflight get judge_def Let_def)
qed

lemma rejects_upgrades_that_got_the_handshake_wrong_holds: "rejects_upgrades_that_got_the_handshake_wrong"
proof -
  let ?old = "[host_field, upgrade_field, connection_field, key_field, (ascii ''Sec-WebSocket-Version'', ascii ''8'')]"
  let ?none = "[host_field, upgrade_field, connection_field, version_field]"
  let ?short = "[host_field, upgrade_field, connection_field, (ascii ''Sec-WebSocket-Key'', ascii ''c2hvcnQ=''), version_field]"
  let ?start = "ascii ''GET /chat HTTP/1.1''"
  have heads:
    "replace_str (ascii ''Version: 13'') (ascii ''Version: 8'') good_request = head_bytes ?start ?old"
    "replace_str (ascii ''Sec-WebSocket-Key: dGhlIHNhbXBsZSBub25jZQ=='' @ crlf) [] good_request = head_bytes ?start ?none"
    "replace_str (ascii ''dGhlIHNhbXBsZSBub25jZQ=='') (ascii ''c2hvcnQ='') good_request = head_bytes ?start ?short"
    by (simp_all add: head_eval replace_eval)
  have ok: "list_all ok_field ?old" "length ?old \<le> MAX_HEADERS" "length (head_bytes ?start ?old) \<le> DEFAULT_MAX_HEAD"
    "list_all ok_field ?none" "length ?none \<le> MAX_HEADERS" "length (head_bytes ?start ?none) \<le> DEFAULT_MAX_HEAD"
    "list_all ok_field ?short" "length ?short \<le> MAX_HEADERS" "length (head_bytes ?start ?short) \<le> DEFAULT_MAX_HEAD"
    by (simp_all add: field_eval)
  have asks: "asks_upgrade Get ?old" "asks_upgrade Get ?none" "asks_upgrade Get ?short"
    by (simp_all add: asks_upgrade_def lookup_eval Let_def trim_trimmed trimmed_ascii)
  have fields: "last_field (ascii ''sec-websocket-version'') ?old = Some (ascii ''8'')"
    "last_field (ascii ''sec-websocket-version'') ?none = Some (ascii ''13'')"
    "last_field (ascii ''sec-websocket-version'') ?short = Some (ascii ''13'')"
    "last_field (ascii ''sec-websocket-key'') ?none = None"
    "last_field (ascii ''sec-websocket-key'') ?short = Some (ascii ''c2hvcnQ='')"
    by (simp_all add: lookup_eval)
  have bad: "\<not> is_valid_key (ascii ''c2hvcnQ='')" "ascii ''8'' \<noteq> ascii ''13''"
    by (simp_all add: is_valid_key_def ascii_def)
  have "judge Get path ?old = Inl WrongVersion" "judge Get path ?none = Inl BadKey" "judge Get path ?short = Inl BadKey"
    for path
    using asks fields bad by (simp_all add: judge_def Let_def)
  then show ?thesis
    unfolding rejects_upgrades_that_got_the_handshake_wrong_def heads list.pred_inject prod.case
      parse_head [OF starts(1) ok(1-3)] parse_head [OF starts(1) ok(4-6)] parse_head [OF starts(1) ok(7-9)] methods
    by simp
qed

lemma fields_of_too_many:
  "list_all ok_field fs \<Longrightarrow> room < length fs \<Longrightarrow> fields_of room (tail_lines fs) = Inl HeadTooLarge"
proof (induction fs arbitrary: room)
  case (Cons f fs)
  then show ?case
    using field_line_ok(3,4) [of f] field_line_not_Nil [of f]
    by (cases room) (auto simp: tail_lines_def)
qed simp

lemma refuses_a_head_with_too_many_headers_holds: "refuses_a_head_with_too_many_headers"
proof -
  let ?start = "ascii ''GET /chat HTTP/1.1''"
  let ?fs = "good_fields @ replicate MAX_HEADERS (ascii ''a'', ascii ''b'')"
  have shape: "good_request = (line_bytes ((?start @ [13]) # map field_line good_fields) @ [13]) @ [10]"
    by (simp add: good_head head_bytes_def)
  have "butlast (butlast good_request) = line_bytes ((?start @ [13]) # map field_line good_fields)"
    unfolding shape butlast_snoc ..
  moreover have "concat (replicate n (ascii ''a: b'' @ crlf)) = line_bytes (map field_line (replicate n (ascii ''a'', ascii ''b'')))"
    for n
    by (induction n) (simp_all add: header_line_def crlf_def ascii_def)
  ultimately have head: "butlast (butlast good_request) @ concat (replicate MAX_HEADERS (ascii ''a: b'' @ crlf)) @ crlf
      = head_bytes ?start ?fs"
    by (simp add: head_bytes_def crlf_def)
  have "ok_field (ascii ''a'', ascii ''b'')"
    by (simp add: field_eval)
  then have "list_all ok_field (replicate n (ascii ''a'', ascii ''b''))" for n
    by (induction n) simp_all
  then have ok: "list_all ok_field ?fs"
    using good_fields_ok(1) unfolding list_all_append by blast
  have "length (line_bytes (map field_line (replicate n (ascii ''a'', ascii ''b'')))) = 6 * n" for n
    by (induction n) (simp_all add: header_line_def ascii_def)
  then have len: "length (head_bytes ?start ?fs) < DEFAULT_MAX_HEAD"
    by (simp add: head_bytes_def MAX_HEADERS_def DEFAULT_MAX_HEAD_def) (simp add: header_line_def ascii_def)
  have "fields_of MAX_HEADERS (tail_lines ?fs) = Inl HeadTooLarge"
    using ok by (rule fields_of_too_many) simp
  then have "parse_request (head_bytes ?start ?fs) DEFAULT_MAX_HEAD = Inl HeadTooLarge"
    using starts(1) len utf8_head_bytes [OF _ ok] head_bytes_lines [OF _ ok]
    unfolding parse_request_is_spec request_spec_def plain_start_def by (auto simp: Let_def)
  then show ?thesis
    unfolding refuses_a_head_with_too_many_headers_def Let_def head using len by blast
qed

lemma refuses_an_oversized_head_holds: "refuses_an_oversized_head"
proof -
  have "length (concat (replicate n (ascii ''X-Padding: x'' @ crlf))) = 14 * n" for n
    by (induction n) (simp_all add: ascii_def crlf_def)
  then show ?thesis
    by (simp add: refuses_an_oversized_head_def parse_request_def DEFAULT_MAX_HEAD_def del: replicate_numeral)
qed

section \<open>Responses\<close>

definition starts_with :: "str \<Rightarrow> str \<Rightarrow> bool" where
  "starts_with p s \<longleftrightarrow> take (length p) s = p"

definition ends_with :: "str \<Rightarrow> str \<Rightarrow> bool" where
  "ends_with p s \<longleftrightarrow> take (length p) (rev s) = rev p"

definition a_response_completes_the_handshake_the_client_started :: bool where
  "a_response_completes_the_handshake_the_client_started =
     (let key = new_key (replicate 16 7);
          request = build_request (ascii ''/chat'') (ascii ''example.com'') key [ascii ''mcp''] []
      in case upgrade_of request of
           None \<Rightarrow> False
         | Some parsed \<Rightarrow>
             r_path parsed = ascii ''/chat'' \<and> r_protocols parsed = [ascii ''mcp'']
             \<and> check_response (build_response (r_key parsed) (Some (ascii ''mcp'')) []) key = Inr (Some (ascii ''mcp'')))"

definition an_empty_extra_slice_changes_nothing :: bool where
  "an_empty_extra_slice_changes_nothing =
     (let key = new_key (replicate 16 5)
      in build_response key (Some (ascii ''mcp'')) []
           = ascii ''HTTP/1.1 101 Switching Protocols'' @ crlf @ ascii ''Upgrade: websocket'' @ crlf
             @ ascii ''Connection: Upgrade'' @ crlf @ ascii ''Sec-WebSocket-Accept: '' @ accept_for key @ crlf
             @ ascii ''Sec-WebSocket-Protocol: mcp'' @ crlf @ crlf
         \<and> build_rejection Malformed [] = lines_of [''HTTP/1.1 400 Bad Request'', ''Connection: close'', ''Content-Length: 0''])"

definition extra_headers_reach_a_101 :: bool where
  "extra_headers_reach_a_101 =
     (let key = new_key (replicate 16 6);
          response = build_response key None
            [(ascii ''Server'', ascii ''endpoint-libs''),
             (ascii ''Access-Control-Allow-Origin'', ascii ''https://app.example.com'')]
      in utf8_valid response
         \<and> contains_str (crlf @ ascii ''Server: endpoint-libs'' @ crlf) response
         \<and> contains_str (crlf @ ascii ''Access-Control-Allow-Origin: https://app.example.com'' @ crlf) response
         \<and> ends_with (ascii ''https://app.example.com'' @ crlf @ crlf) response
         \<and> check_response response key = Inr None)"

definition extra_headers_reach_a_rejection :: bool where
  "extra_headers_reach_a_rejection =
     (let refusal = build_rejection WrongVersion
            [(ascii ''Cache-Control'', ascii ''no-store''), (ascii ''Server'', ascii ''endpoint-libs'')]
      in utf8_valid refusal
         \<and> starts_with (ascii ''HTTP/1.1 426'') refusal
         \<and> contains_str (ascii ''Sec-WebSocket-Version: 13'' @ crlf) refusal
         \<and> contains_str (ascii ''Content-Length: 0'' @ crlf) refusal
         \<and> contains_str (crlf @ ascii ''Cache-Control: no-store'' @ crlf) refusal
         \<and> ends_with (ascii ''Server: endpoint-libs'' @ crlf @ crlf) refusal)"

definition a_client_rejects_a_response_with_the_wrong_accept :: bool where
  "a_client_rejects_a_response_with_the_wrong_accept =
     (let key = new_key (replicate 16 1); other = new_key (replicate 16 2);
          response = build_response other None []
      in check_response response key = Inl BadKey)"

definition a_client_rejects_a_non_101_response :: bool where
  "a_client_rejects_a_non_101_response =
     (check_response (lines_of [''HTTP/1.1 200 OK'', ''Content-Length: 0'']) (new_key (replicate 16 3)) = Inl NotAnUpgrade)"

definition rejections_name_a_status_a_client_can_act_on :: bool where
  "rejections_name_a_status_a_client_can_act_on =
     (utf8_valid (build_rejection WrongVersion [])
      \<and> starts_with (ascii ''HTTP/1.1 426'') (build_rejection WrongVersion [])
      \<and> contains_str (ascii ''Sec-WebSocket-Version: 13'') (build_rejection WrongVersion [])
      \<and> utf8_valid (build_rejection NotGet [])
      \<and> starts_with (ascii ''HTTP/1.1 400'') (build_rejection NotGet []))"

lemmas refusal_eval = build_rejection_def rejection_status_def crlf_def ascii_def utf8_valid.simps(2)
  starts_with_def ends_with_def

lemma contains_append: "contains_str p (a @ p @ b)"
  unfolding contains_str_iff by blast

lemma rejection_tests:
  "extra_headers_reach_a_rejection"
  "rejections_name_a_status_a_client_can_act_on"
  "a_client_rejects_a_non_101_response"
proof -
  show "extra_headers_reach_a_rejection"
    by (simp add: extra_headers_reach_a_rejection_def refusal_eval)
  show "rejections_name_a_status_a_client_can_act_on"
    by (simp add: rejections_name_a_status_a_client_can_act_on_def refusal_eval)
  show "a_client_rejects_a_non_101_response"
    by (simp add: a_client_rejects_a_non_101_response_def check_response_def lines_of_def crlf_def ascii_def
      utf8_valid.simps(2) trim_end_cr_def Let_def)
qed

lemma a_response_completes_the_handshake_the_client_started_holds:
  "a_response_completes_the_handshake_the_client_started"
proof -
  let ?key = "new_key (replicate 16 7)"
  have key: "is_valid_key ?key"
    using new_key_is_valid [of "replicate 16 7"] by simp
  have "parse_request (build_request (ascii ''/chat'') (ascii ''example.com'') ?key [ascii ''mcp''] []) DEFAULT_MAX_HEAD =
      Inr (Upgrade \<lparr>r_method = Get, r_path = ascii ''/chat'', r_key = ?key, r_protocols = [ascii ''mcp''],
                    r_headers = request_fields (ascii ''example.com'') ?key [ascii ''mcp''] []\<rparr>)"
    by (rule built_request_parsed [OF _ _ key]) (simp_all add: ok_path_def ok_token_def ascii_def utf8_valid.simps(2) ok_value_ascii
      request_fields_def MAX_HEADERS_def DEFAULT_MAX_HEAD_def build_request_def crlf_def new_key_def base64_roundtrip)
  moreover have "check_response (build_response ?key (Some (ascii ''mcp'')) []) ?key = Inr (Some (ascii ''mcp''))"
    by (rule built_response_accepted) (simp_all add: ascii_def ok_value_ascii)
  ultimately show ?thesis
    by (simp add: a_response_completes_the_handshake_the_client_started_def upgrade_of_def)
qed

lemma an_empty_extra_slice_changes_nothing_holds: "an_empty_extra_slice_changes_nothing"
  by (simp add: an_empty_extra_slice_changes_nothing_def build_response_def build_rejection_def rejection_status_def
    lines_of_def Let_def) (simp add: ascii_def crlf_def)

lemma extra_headers_reach_a_101_holds: "extra_headers_reach_a_101"
proof -
  let ?key = "new_key (replicate 16 6)"
  let ?extra = "[(ascii ''Server'', ascii ''endpoint-libs''),
    (ascii ''Access-Control-Allow-Origin'', ascii ''https://app.example.com'')]"
  have extra: "list_all ok_extra ?extra"
    by (simp add: ok_extra_def ok_field_def ascii_def utf8_valid.simps(2) ok_value_ascii
      interpreted_names_def eq_ignore_ascii_case_def ascii_lower_def)
  let ?a = "ascii ''HTTP/1.1 101 Switching Protocols'' @ crlf @ ascii ''Upgrade: websocket'' @ crlf
    @ ascii ''Connection: Upgrade'' @ crlf @ ascii ''Sec-WebSocket-Accept: '' @ accept_for ?key"
  let ?server = "ascii ''Server: endpoint-libs''"
  let ?origin = "ascii ''Access-Control-Allow-Origin: https://app.example.com''"
  have shape: "build_response ?key None ?extra = ?a @ crlf @ ?server @ crlf @ ?origin @ crlf @ crlf"
    by (simp add: build_response_def) (simp add: ascii_def crlf_def)
  have "contains_str (crlf @ ?server @ crlf) (?a @ (crlf @ ?server @ crlf) @ ?origin @ crlf @ crlf)"
    "contains_str (crlf @ ?origin @ crlf) ((?a @ crlf @ ?server) @ (crlf @ ?origin @ crlf) @ crlf)"
    by (rule contains_append)+
  moreover have "ends_with (ascii ''https://app.example.com'' @ crlf @ crlf) (build_response ?key None ?extra)"
    unfolding shape by (simp add: ends_with_def) (simp add: ascii_def crlf_def)
  moreover have "utf8_valid (build_response ?key None ?extra)"
    unfolding build_response_eq
    by (rule utf8_head_bytes) (use ok_response_fields [OF _ extra, of None ?key] in \<open>simp_all add: ascii_def utf8_valid.simps(2)\<close>)
  moreover have "check_response (build_response ?key None ?extra) ?key = Inr None"
    by (rule built_response_accepted) (use extra in simp_all)
  ultimately show ?thesis
    by (simp add: extra_headers_reach_a_101_def Let_def shape)
qed

lemma a_client_rejects_a_response_with_the_wrong_accept_holds: "a_client_rejects_a_response_with_the_wrong_accept"
proof -
  have "sha1_spec (new_key (replicate 16 1) @ WS_GUID) =
      [0xE6, 0xD5, 0x9D, 0xD5, 0x73, 0x10, 0x7E, 0xA7, 0xD1, 0x31, 0x9A, 0x86, 0xAF, 0x08, 0xCF, 0x12, 0x01, 0x2F, 0xC9, 0xE1]"
    by (simp add: new_key_def base64_encode.simps base64_chunk_eq b64_triple_def B64_def ascii_def WS_GUID_def sha1_eval)
  moreover have "sha1_spec (new_key (replicate 16 2) @ WS_GUID) =
      [0x1F, 0x14, 0x06, 0xB9, 0x1F, 0xFC, 0x34, 0xD9, 0x04, 0x93, 0xE8, 0x00, 0x47, 0xB0, 0x06, 0x45, 0x14, 0x14, 0x47, 0x92]"
    by (simp add: new_key_def base64_encode.simps base64_chunk_eq b64_triple_def B64_def ascii_def WS_GUID_def sha1_eval)
  ultimately have "accept_for (new_key (replicate 16 1)) \<noteq> accept_for (new_key (replicate 16 2))"
    by (simp add: accept_for_eq base64_encode.simps base64_chunk_eq b64_triple_def B64_def ascii_def)
  then show ?thesis
    by (simp add: a_client_rejects_a_response_with_the_wrong_accept_def built_response_checked)
qed

end
