(* ===== verification/Tests_Wire.thy ===== *)
theory Tests_Wire
  imports Tests_Handshake Client
begin

text \<open>
  The tests of connections (the \<open>tests\<close> module of \<open>src/src/conn.rs\<close>), which put two ends on a network. The
  sockets are in-memory pipes. A test does not choose how the network cuts the bytes, nor on which machine
  it runs, nor the seed of the masks: they are arguments, and the tests hold for all of them. The two tests
  that look at the masks themselves are in theory \<open>Tests_Mask\<close>.
\<close>

section \<open>Two ends\<close>

definition client_end :: "endian \<Rightarrow> bytes \<Rightarrow> pipe connection" where
  "client_end e seed = connection_new (pipe_env e Std) seed \<lparr>p_pieces = [], p_sent = []\<rparr> Client default_limits"

definition server_end :: "endian \<Rightarrow> pipe connection" where
  "server_end e = connection_new (pipe_env e Std) [] \<lparr>p_pieces = [], p_sent = []\<rparr> Server default_limits"

text \<open>Everything one end has sent arrives at the other, cut in some way.\<close>

definition receive :: "(bytes \<Rightarrow> bytes list) \<Rightarrow> pipe connection \<Rightarrow> pipe connection \<Rightarrow> pipe connection" where
  "receive chop sender c =
     c\<lparr>c_stream := (c_stream c)\<lparr>p_pieces := p_pieces (c_stream c) @ chop (p_sent (c_stream sender))\<rparr>\<rparr>"

definition lossless :: "(bytes \<Rightarrow> bytes list) \<Rightarrow> bool" where
  "lossless chop \<longleftrightarrow> (\<forall>bs. concat (chop bs) = bs)"

text \<open>\<open>expect("read").expect("message")\<close> and \<open>expect("write")\<close>: \<open>None\<close> is the panic.\<close>

definition expect_message ::
    "((conn_error + message option) \<times> 's connection) option \<Rightarrow> (message \<times> 's connection) option" where
  "expect_message r = (case r of Some (Inr (Some m), c) \<Rightarrow> Some (m, c) | _ \<Rightarrow> None)"

definition expect_ok :: "((conn_error + unit) \<times> 's connection) option \<Rightarrow> 's connection option" where
  "expect_ok r = (case r of Some (Inr _, c) \<Rightarrow> Some c | _ \<Rightarrow> None)"

section \<open>Connections\<close>

definition write_all_delivers_everything_and_keeps_nothing :: "endian \<Rightarrow> bytes \<Rightarrow> (bytes \<Rightarrow> bytes list) \<Rightarrow> bool" where
  "write_all_delivers_everything_and_keeps_nothing e seed chop =
     (let messages = [MText (ascii ''one''), MBinary [0xFF, 0x00], MText (ascii ''three''), MPing (ascii ''p'')]
      in case expect_ok (conn_write_all (pipe_env e Std) (client_end e seed) messages) of
           None \<Rightarrow> False
         | Some conn \<Rightarrow>
             c_outgoing conn = []
             \<and> map_option fst (conn_reads (pipe_env e Std) (receive chop conn (server_end e)) 4) = Some messages)"

definition coalesced_frames_are_masked_per_frame :: "endian \<Rightarrow> bytes \<Rightarrow> (bytes \<Rightarrow> bytes list) \<Rightarrow> bool" where
  "coalesced_frames_are_masked_per_frame e seed chop =
     (let messages = map (\<lambda>i. MBinary (replicate (40 + i) (of_nat i))) [0..<8]
      in case expect_ok (conn_write_all (pipe_env e Std) (client_end e seed) messages) of
           None \<Rightarrow> False
         | Some conn \<Rightarrow>
             map_option fst (conn_reads (pipe_env e Std) (receive chop conn (server_end e)) 8) = Some messages)"

definition every_failure_reports_the_code_the_rfc_gives_it :: bool where
  "every_failure_reports_the_code_the_rfc_gives_it =
     list_all (\<lambda>(error, expected). error_close_code error = expected)
       [(EFrame ReservedBitSet, Some PROTOCOL),
        (EFrame (ReservedOpCode 0x3), Some PROTOCOL),
        (EFrame InvalidControlFrame, Some PROTOCOL),
        (EFrame InvalidLength, Some PROTOCOL),
        (EFrame FrameTooLarge, Some TOO_LARGE),
        (EMaskingViolation, Some PROTOCOL),
        (EProtocol UnexpectedContinuation, Some PROTOCOL),
        (EProtocol InterleavedDataFrame, Some PROTOCOL),
        (EProtocol MalformedCloseFrame, Some PROTOCOL),
        (EProtocol InvalidCloseCode, Some PROTOCOL),
        (EProtocol InvalidUtf8, Some INVALID_PAYLOAD),
        (EProtocol MessageTooLarge, Some TOO_LARGE),
        (EUnexpectedEof, None),
        (EUrl (ascii ''bad scheme''), None)]"

definition a_reported_close_code_may_actually_be_sent :: bool where
  "a_reported_close_code_may_actually_be_sent = list_all is_sendable [PROTOCOL, INVALID_PAYLOAD, TOO_LARGE]"

definition a_text_message_survives_the_round_trip :: "endian \<Rightarrow> bytes \<Rightarrow> (bytes \<Rightarrow> bytes list) \<Rightarrow> bool" where
  "a_text_message_survives_the_round_trip e seed chop =
     (let hello = MText (ascii ''hello'')
      in case expect_ok (conn_write (pipe_env e Std) (client_end e seed) hello) of
           None \<Rightarrow> False
         | Some client \<Rightarrow>
             (case expect_message (conn_read (pipe_env e Std) (receive chop client (server_end e))) of
                None \<Rightarrow> False
              | Some (message, server) \<Rightarrow>
                  message = hello
                  \<and> (case expect_ok (conn_write (pipe_env e Std) server message) of
                       None \<Rightarrow> False
                     | Some server \<Rightarrow>
                         (case expect_message (conn_read (pipe_env e Std) (receive chop server client)) of
                            None \<Rightarrow> False
                          | Some (echoed, _) \<Rightarrow> echoed = hello))))"

definition a_large_binary_message_survives_the_round_trip :: "endian \<Rightarrow> bytes \<Rightarrow> (bytes \<Rightarrow> bytes list) \<Rightarrow> bool" where
  "a_large_binary_message_survives_the_round_trip e seed chop =
     (case expect_ok (conn_write (pipe_env e Std) (client_end e seed) (MBinary (replicate (300 * 1024) 0x5A))) of
        None \<Rightarrow> False
      | Some client \<Rightarrow>
          (case expect_message (conn_read (pipe_env e Std) (receive chop client (server_end e))) of
             Some (MBinary payload, _) \<Rightarrow> length payload = 300 * 1024 \<and> list_all (\<lambda>byte. byte = 0x5A) payload
           | _ \<Rightarrow> False))"

definition several_messages_pipelined_into_one_read_all_arrive :: "endian \<Rightarrow> bytes \<Rightarrow> (bytes \<Rightarrow> bytes list) \<Rightarrow> bool" where
  "several_messages_pipelined_into_one_read_all_arrive e seed chop =
     (let messages = [MText (ascii ''one''), MText (ascii ''two''), MText (ascii ''three'')]
      in case expect_ok (conn_writes (pipe_env e Std) (client_end e seed) messages) of
           None \<Rightarrow> False
         | Some client \<Rightarrow>
             map_option fst (conn_reads (pipe_env e Std) (receive chop client (server_end e)) 3) = Some messages)"

definition a_ping_is_answered_with_the_same_payload :: "endian \<Rightarrow> bytes \<Rightarrow> (bytes \<Rightarrow> bytes list) \<Rightarrow> bool" where
  "a_ping_is_answered_with_the_same_payload e seed chop =
     (case expect_ok (conn_write (pipe_env e Std) (client_end e seed) (MPing (ascii ''probe''))) of
        None \<Rightarrow> False
      | Some client \<Rightarrow>
          (case expect_message (conn_read (pipe_env e Std) (receive chop client (server_end e))) of
             Some (MPing payload, server) \<Rightarrow>
               (case expect_ok (conn_pong (pipe_env e Std) server payload) of
                  None \<Rightarrow> False
                | Some server \<Rightarrow>
                    (case expect_message (conn_read (pipe_env e Std) (receive chop server client)) of
                       None \<Rightarrow> False
                     | Some (reply, _) \<Rightarrow> reply = MPong (ascii ''probe'')))
           | _ \<Rightarrow> False))"

definition a_close_handshake_ends_the_stream_cleanly :: "endian \<Rightarrow> bytes \<Rightarrow> (bytes \<Rightarrow> bytes list) \<Rightarrow> bool" where
  "a_close_handshake_ends_the_stream_cleanly e seed chop =
     (let frame = Some \<lparr>cf_code = NORMAL, cf_reason = ascii ''done''\<rparr>
      in case expect_ok (conn_close (pipe_env e Std) (client_end e seed) frame) of
           None \<Rightarrow> False
         | Some client \<Rightarrow>
             (case expect_message (conn_read (pipe_env e Std) (receive chop client (server_end e))) of
                None \<Rightarrow> False
              | Some (message, server) \<Rightarrow>
                  message = MClose frame
                  \<and> (case expect_ok (conn_close (pipe_env e Std) server None) of
                       None \<Rightarrow> False
                     | Some server \<Rightarrow> map_option fst (conn_read (pipe_env e Std) server) = Some (Inr None))))"

text \<open>FIN and text, length 2, no mask bit.\<close>

definition a_server_rejects_an_unmasked_client_frame :: "endian \<Rightarrow> (bytes \<Rightarrow> bytes list) \<Rightarrow> bool" where
  "a_server_rejects_an_unmasked_client_frame e chop =
     (let server = connection_new (pipe_env e Std) []
            \<lparr>p_pieces = chop [0x81, 0x02, 104, 105], p_sent = []\<rparr> Server default_limits
      in map_option fst (conn_read (pipe_env e Std) server) = Some (Inl EMaskingViolation))"

text \<open>The two ends, and what they receive.\<close>

lemma ends:
  "idle (c_assembler (client_end e seed))" "idle (c_assembler (server_end e))"
  "a_limits (c_assembler (client_end e seed)) = default_limits" "a_limits (c_assembler (server_end e)) = default_limits"
  "c_role (client_end e seed) = Client" "c_role (server_end e) = Server"
  "p_sent (c_stream (client_end e seed)) = []" "p_sent (c_stream (server_end e)) = []"
  "pipe_env.unread (client_end e seed) = []" "pipe_env.unread (server_end e) = []"
  "\<not> c_close_sent (client_end e seed)" "\<not> c_close_sent (server_end e)"
  by (simp_all add: client_end_def server_end_def connection_new_def with_buffered_def assembler_new_def idle_def
    pipe_env.unread_def pipe_incoming_def)

lemma receive_simps:
  "c_assembler (receive chop s c) = c_assembler c" "c_role (receive chop s c) = c_role c"
  "pipe_env.write_side (receive chop s c) = pipe_env.write_side c"
  "lossless chop \<Longrightarrow> pipe_env.unread (receive chop s c) = pipe_env.unread c @ p_sent (c_stream s)"
  by (simp_all add: receive_def pipe_env.unread_def pipe_incoming_def lossless_def pipe_env.write_side_def)

text \<open>What an end that had sent nothing sends, the other end reads, if it has nothing else to read.\<close>

lemma received:
  assumes "lossless chop" "pipe_env.sends e Std c c1 ms" "p_sent (c_stream c) = []"
    and "pipe_env.unread r = []" "idle (c_assembler r)" "c_role c \<noteq> c_role r"
    and "list_all (deliverable Std (a_limits (c_assembler r))) ms" "\<not> list_ex is_close (butlast ms)"
  shows "\<exists>r'. conn_reads (pipe_env e Std) (receive chop c1 r) (length ms) = Some (ms, r')
     \<and> pipe_env.unread r' = [] \<and> pipe_env.write_side r' = pipe_env.write_side (receive chop c1 r)
     \<and> c_assembler r' = (c_assembler r)\<lparr>a_closed := list_ex is_close ms\<rparr>"
proof -
  have "pipe_env.unread (receive chop c1 r) = fst (wire_messages (pipe_env e Std) (c_role c) (c_mask_state c) ms)"
    using assms(1-4) by (simp add: receive_simps pipe_env.sends_def)
  then show ?thesis
    using pipe_env.conn_reads_wire [of "receive chop c1 r" e Std ms "c_role c" "pipe_env e Std" "c_mask_state c"] assms(5-8)
    by (simp add: receive_simps pipe_env_def)
qed

lemma received_one:
  assumes "lossless chop" "pipe_env.sends e Std c c1 [m]" "p_sent (c_stream c) = []"
    and "pipe_env.unread r = []" "idle (c_assembler r)" "c_role c \<noteq> c_role r"
    and "deliverable Std (a_limits (c_assembler r)) m"
  obtains r' where "conn_read (pipe_env e Std) (receive chop c1 r) = Some (Inr (Some m), r')"
    "pipe_env.unread r' = []" "pipe_env.write_side r' = pipe_env.write_side r"
    "c_assembler r' = (c_assembler r)\<lparr>a_closed := is_close m\<rparr>"
proof -
  obtain r' where "conn_reads (pipe_env e Std) (receive chop c1 r) 1 = Some ([m], r')"
    "pipe_env.unread r' = []" "pipe_env.write_side r' = pipe_env.write_side r"
    "c_assembler r' = (c_assembler r)\<lparr>a_closed := is_close m\<rparr>"
    using received [OF assms(1-6)] assms(7) by (auto simp: receive_simps)
  moreover from this(1) have "conn_read (pipe_env e Std) (receive chop c1 r) = Some (Inr (Some m), r')"
    by (auto split: option.splits sum.splits)
  ultimately show ?thesis
    using that by blast
qed

text \<open>What the tests send may be sent.\<close>

lemma test_messages:
  "deliverable Std default_limits (MText (ascii ''one''))" "deliverable Std default_limits (MText (ascii ''two''))"
  "deliverable Std default_limits (MText (ascii ''three''))" "deliverable Std default_limits (MBinary [0xFF, 0x00])"
  "deliverable Std default_limits (MPing (ascii ''p''))" "deliverable Std default_limits (MText (ascii ''hello''))"
  "deliverable Std default_limits (MPing (ascii ''probe''))" "deliverable Std default_limits (MPong (ascii ''probe''))"
  "deliverable Std default_limits (MClose (Some \<lparr>cf_code = NORMAL, cf_reason = ascii ''done''\<rparr>))"
  "n \<le> 1048576 \<Longrightarrow> deliverable Std default_limits (MBinary (replicate n b))"
  by (simp_all add: deliverable_def message_frame_def default_limits_def ascii_def utf8_valid.simps(2) encode_close_body_def
    is_sendable_def NORMAL_def)

lemma batch_tests:
  assumes "lossless chop"
  shows "write_all_delivers_everything_and_keeps_nothing e seed chop"
    and "coalesced_frames_are_masked_per_frame e seed chop"
    and "several_messages_pipelined_into_one_read_all_arrive e seed chop"
proof -
  let ?v = "pipe_env e Std" and ?c = "client_end e seed"
  have batch: "\<exists>c1. expect_ok (conn_write_all ?v ?c ms) = Some c1 \<and> c_outgoing c1 = []
      \<and> map_option fst (conn_reads ?v (receive chop c1 (server_end e)) (length ms)) = Some ms"
    if ok: "list_all (deliverable Std default_limits) ms" "\<not> list_ex is_close ms" for ms
  proof -
    obtain c1 where c1: "conn_write_all ?v ?c ms = Some (Inr (), c1)" "pipe_env.sends e Std ?c c1 ms" "c_outgoing c1 = []"
      using pipe_env.conn_write_all_sends by blast
    have "\<not> list_ex is_close (butlast ms)"
      using ok(2) by (auto simp: list_ex_iff dest: in_set_butlastD)
    then obtain r where "conn_reads ?v (receive chop c1 (server_end e)) (length ms) = Some (ms, r)"
      using received [OF assms c1(2) ends(7,10,2)] ok(1) unfolding ends by auto
    then show ?thesis
      using c1(1,3) by (simp add: expect_ok_def)
  qed
  show "write_all_delivers_everything_and_keeps_nothing e seed chop"
  proof -
    let ?ms = "[MText (ascii ''one''), MBinary [0xFF, 0x00], MText (ascii ''three''), MPing (ascii ''p'')]"
    have "list_all (deliverable Std default_limits) ?ms" "\<not> list_ex is_close ?ms" and len: "length ?ms = 4"
      by (simp_all add: test_messages is_close_def)
    from batch [OF this(1,2), unfolded len] show ?thesis
      unfolding write_all_delivers_everything_and_keeps_nothing_def Let_def by auto
  qed
  show "coalesced_frames_are_masked_per_frame e seed chop"
  proof -
    let ?ms = "map (\<lambda>i. MBinary (replicate (40 + i) (of_nat i))) [0..<8]"
    have "list_all (deliverable Std default_limits) ?ms" "\<not> list_ex is_close ?ms" and len: "length ?ms = 8"
      by (simp_all add: list_all_iff list_ex_iff test_messages is_close_def del: upt_rec_numeral)
    from batch [OF this(1,2), unfolded len] show ?thesis
      unfolding coalesced_frames_are_masked_per_frame_def Let_def by auto
  qed
  show "several_messages_pipelined_into_one_read_all_arrive e seed chop"
  proof -
    let ?ms = "[MText (ascii ''one''), MText (ascii ''two''), MText (ascii ''three'')]"
    obtain c1 where c1: "conn_writes ?v ?c ?ms = Some (Inr (), c1)" "pipe_env.sends e Std ?c c1 ?ms"
      using pipe_env.conn_writes_sends by blast
    have len: "length ?ms = 3"
      by simp
    have "list_all (deliverable Std default_limits) ?ms" "\<not> list_ex is_close (butlast ?ms)"
      by (simp_all add: test_messages is_close_def)
    then obtain r where "conn_reads ?v (receive chop c1 (server_end e)) 3 = Some (?ms, r)"
      using received [OF assms c1(2) ends(7,10,2), unfolded len] unfolding ends by auto
    then show ?thesis
      unfolding several_messages_pipelined_into_one_read_all_arrive_def Let_def expect_ok_def c1(1) by simp
  qed
qed

lemma code_tests:
  "every_failure_reports_the_code_the_rfc_gives_it"
  "a_reported_close_code_may_actually_be_sent"
  by (simp_all add: every_failure_reports_the_code_the_rfc_gives_it_def a_reported_close_code_may_actually_be_sent_def
    error_close_code_def is_sendable_def close_code_defs)

lemma client_writes:
  obtains c1 where "conn_write (pipe_env e Std) (client_end e seed) m = Some (Inr (), c1)"
    "pipe_env.sends e Std (client_end e seed) c1 [m]"
  using pipe_env.conn_write_sends by blast

text \<open>An exchange between two ends at rest: the client writes, the server reads it and answers, the client reads
  the answer.\<close>

definition at_rest :: "role \<Rightarrow> pipe connection \<Rightarrow> bool" where
  "at_rest role c \<longleftrightarrow> c_role c = role \<and> idle (c_assembler c) \<and> a_limits (c_assembler c) = default_limits
     \<and> p_sent (c_stream c) = [] \<and> pipe_env.unread c = []"

lemma exchange:
  assumes "lossless chop" "deliverable Std default_limits m" "deliverable Std default_limits a"
    and "at_rest Client c" "at_rest Server s"
  obtains client server server' client' where
    "conn_write (pipe_env e Std) c m = Some (Inr (), client)"
    "conn_read (pipe_env e Std) (receive chop client s) = Some (Inr (Some m), server)"
    "conn_write (pipe_env e Std) server a = Some (Inr (), server')"
    "conn_read (pipe_env e Std) (receive chop server' client) = Some (Inr (Some a), client')"
proof -
  obtain client where client: "conn_write (pipe_env e Std) c m = Some (Inr (), client)" "pipe_env.sends e Std c client [m]"
    using pipe_env.conn_write_sends by blast
  obtain server where server: "conn_read (pipe_env e Std) (receive chop client s) = Some (Inr (Some m), server)"
    "pipe_env.write_side server = pipe_env.write_side s"
    using received_one [OF assms(1) client(2), of s] assms(2,4,5) by (auto simp: at_rest_def)
  obtain server' where server': "conn_write (pipe_env e Std) server a = Some (Inr (), server')"
    "pipe_env.sends e Std server server' [a]"
    using pipe_env.conn_write_sends by blast
  have "p_sent (c_stream server) = []" "c_role server = Server"
    using server(2) assms(5) by (simp_all add: pipe_env.write_side_def at_rest_def)
  moreover have "pipe_env.unread client = []" "idle (c_assembler client)" "c_role client = Client"
    "a_limits (c_assembler client) = default_limits"
    using client(2) pipe_env.sends_unread [OF client(2)] assms(4) by (simp_all add: pipe_env.sends_def at_rest_def)
  ultimately obtain client' where "conn_read (pipe_env e Std) (receive chop server' client) = Some (Inr (Some a), client')"
    using received_one [OF assms(1) server'(2), of client] assms(3) by auto
  then show ?thesis
    using that client(1) server(1) server'(1) by blast
qed

lemma ends_at_rest: "at_rest Client (client_end e seed)" "at_rest Server (server_end e)"
  by (simp_all add: at_rest_def ends)

lemma exchange_tests:
  assumes "lossless chop"
  shows "a_text_message_survives_the_round_trip e seed chop"
    and "a_ping_is_answered_with_the_same_payload e seed chop"
proof -
  show "a_text_message_survives_the_round_trip e seed chop"
    by (rule exchange [OF assms test_messages(6,6) ends_at_rest(1) [of e seed] ends_at_rest(2) [of e], of e])
      (simp_all add: a_text_message_survives_the_round_trip_def expect_ok_def expect_message_def is_close_def)
  show "a_ping_is_answered_with_the_same_payload e seed chop"
    by (rule exchange [OF assms test_messages(7,8) ends_at_rest(1) [of e seed] ends_at_rest(2) [of e], of e])
      (simp_all add: a_ping_is_answered_with_the_same_payload_def expect_ok_def expect_message_def is_close_def conn_pong_def
        conn_write_def message_frame_def note_close_def)
qed

lemma a_large_binary_message_survives_the_round_trip_holds:
  assumes "lossless chop"
  shows "a_large_binary_message_survives_the_round_trip e seed chop"
proof -
  let ?m = "MBinary (replicate (300 * 1024) 0x5A)"
  obtain client where client: "conn_write (pipe_env e Std) (client_end e seed) ?m = Some (Inr (), client)"
    "pipe_env.sends e Std (client_end e seed) client [?m]"
    by (rule client_writes)
  have "deliverable Std default_limits ?m"
    by (rule test_messages(10)) simp
  then obtain server where "conn_read (pipe_env e Std) (receive chop client (server_end e)) = Some (Inr (Some ?m), server)"
    using received_one [OF assms client(2) ends(7,10,2)] unfolding ends by auto
  then show ?thesis
    using client(1) by (simp add: a_large_binary_message_survives_the_round_trip_def expect_ok_def expect_message_def
      list_all_iff del: replicate_numeral)
qed

lemma a_close_handshake_ends_the_stream_cleanly_holds:
  assumes "lossless chop"
  shows "a_close_handshake_ends_the_stream_cleanly e seed chop"
proof -
  let ?m = "MClose (Some \<lparr>cf_code = NORMAL, cf_reason = ascii ''done''\<rparr>)"
  obtain client where client: "conn_write (pipe_env e Std) (client_end e seed) ?m = Some (Inr (), client)"
    "pipe_env.sends e Std (client_end e seed) client [?m]"
    by (rule client_writes)
  obtain server where server: "conn_read (pipe_env e Std) (receive chop client (server_end e)) = Some (Inr (Some ?m), server)"
    "pipe_env.unread server = []" "pipe_env.write_side server = pipe_env.write_side (server_end e)"
    "c_assembler server = (c_assembler (server_end e))\<lparr>a_closed := is_close ?m\<rparr>"
    using received_one [OF assms client(2) ends(7,10,2)] test_messages(9) by (auto simp: ends)
  obtain server' where server': "conn_write (pipe_env e Std) server (MClose None) = Some (Inr (), server')"
    "pipe_env.sends e Std server server' [MClose None]"
    using pipe_env.conn_write_sends by blast
  have "assembler_inv (c_assembler server')" "pipe_env.unread server' = []" "a_closed (c_assembler server')"
    using server'(2) pipe_env.sends_unread [OF server'(2)] server(2,4) ends(2) [of e]
    by (simp_all add: pipe_env.sends_def idle_def assembler_inv_def is_close_def)
  from pipe_env.conn_read_end [OF this(1,2), of e Std] this(3) obtain last where
    "conn_read (pipe_env e Std) server' = Some (Inr None, last)"
    by auto
  moreover have "\<not> c_close_sent server"
    using server(3) ends(12) [of e] by (simp add: pipe_env.write_side_def)
  ultimately show ?thesis
    using client(1) server(1) server'(1) ends(11) [of e seed]
    by (simp add: a_close_handshake_ends_the_stream_cleanly_def expect_ok_def expect_message_def conn_close_def)
qed

lemma a_server_rejects_an_unmasked_client_frame_holds:
  assumes "lossless chop"
  shows "a_server_rejects_an_unmasked_client_frame e chop"
proof -
  let ?c = "connection_new (pipe_env e Std) [] \<lparr>p_pieces = chop [0x81, 0x02, 104, 105], p_sent = []\<rparr> Server default_limits"
  have "header_decode [0x81, 0x02, 104, 105] (max_frame default_limits) =
      Inr (Inr (\<lparr>h_fin = True, h_opcode = Text, h_mask = None, h_payload_len = 2\<rparr>, 2))"
    by (simp add: header_decode_def decode_len_def decode_mask_def opcode_from_bits_def default_limits_def)
  then have "cut_frame Server (max_frame default_limits) [0x81, 0x02, 104, 105] = Bad EMaskingViolation"
    by (simp add: cut_frame_def masking_violation_def)
  then have "read_spec (pipe_env e Std) Server (assembler_new default_limits) [0x81, 0x02, 104, 105]
      = Some (Inl EMaskingViolation, assembler_new default_limits, [0x81, 0x02, 104, 105])"
    by (simp add: read_spec_def consume.simps [of _ Server] assembler_new_def)
  moreover have "c_role ?c = Server" "c_assembler ?c = assembler_new default_limits"
    "pipe_env.unread ?c = [0x81, 0x02, 104, 105]" "assembler_inv (c_assembler ?c)"
    using assms by (simp_all add: connection_new_def with_buffered_def pipe_env.unread_def pipe_incoming_def lossless_def
      assembler_inv_def assembler_new_def)
  ultimately show ?thesis
    using pipe_env.conn_read_refines [of ?c e Std]
    by (auto simp: a_server_rejects_an_unmasked_client_frame_def)
qed

end
