(* ===== verification/Tests_Mask.thy ===== *)
theory Tests_Mask
  imports Tests_Wire
begin

text \<open>
  The two tests of \<open>src/src/conn.rs\<close> that look at the masks of a client's frames as raw bytes. What they
  observe depends on the seed of the mask generator, so they are characterised rather than proved: the
  first holds exactly when the key is not zero, the second exactly when the keys of four successive frames
  are not all the same.
\<close>

section \<open>Definitions\<close>

text \<open>\<open>slice::windows\<close>.\<close>

definition slice_windows :: "nat \<Rightarrow> 'a list \<Rightarrow> 'a list list" where
  "slice_windows n xs = map (\<lambda>i. take n (drop i xs)) [0..<length xs + 1 - n]"

text \<open>The frame is received by one read into 64 bytes; the slices panic on a shorter one.\<close>

definition a_client_masks_every_frame_it_sends :: "endian \<Rightarrow> bytes \<Rightarrow> bool" where
  "a_client_masks_every_frame_it_sends e seed =
     (case expect_ok (conn_write (pipe_env e Std) (client_end e seed) (MText (ascii ''secret''))) of
        None \<Rightarrow> False
      | Some client \<Rightarrow>
          let f = take 64 (p_sent (c_stream client))
          in 6 \<le> length f \<and> f ! 0 = 0x81 \<and> f ! 1 AND 0x80 = 0x80 \<and> f ! 1 AND 0x7F = 6
             \<and> \<not> list_ex (\<lambda>window. window = ascii ''secret'') (slice_windows 6 (drop 6 f)))"

text \<open>The raw socket is read until four frames of seven bytes are there, or it ends.\<close>

fun read_total :: "nat \<Rightarrow> bytes \<Rightarrow> bytes list \<Rightarrow> bytes" where
  "read_total n acc [] = acc"
| "read_total n acc (piece # pieces) =
     (if n \<le> length acc \<or> piece = [] then acc else read_total n (acc @ piece) pieces)"

definition successive_frames_use_different_masking_keys :: "endian \<Rightarrow> bytes \<Rightarrow> (bytes \<Rightarrow> bytes list) \<Rightarrow> bool" where
  "successive_frames_use_different_masking_keys e seed chop =
     (case expect_ok (conn_writes (pipe_env e Std) (client_end e seed) (replicate 4 (MText (ascii ''x'')))) of
        None \<Rightarrow> False
      | Some client \<Rightarrow>
          let got = read_total (4 * 7) [] (chop (p_sent (c_stream client)));
              buffer = got @ replicate (256 - length got) 0;
              keys = map (\<lambda>i. take 4 (drop (i * 7 + 2) buffer)) [0..<4]
          in list_ex (\<lambda>pair. pair ! 0 \<noteq> pair ! 1) (slice_windows 2 keys))"

section \<open>What the first test decides\<close>

text \<open>A payload of at least four bytes is masked to itself only by the zero key.\<close>

lemma xor_same_iff: "x XOR k = x \<longleftrightarrow> k = (0 :: u8)"
proof
  have "k = x XOR (x XOR k)"
    by (simp add: xor.assoc [symmetric])
  then show "x XOR k = x \<Longrightarrow> k = 0"
    by simp
qed simp

lemma masked_in_clear_iff:
  assumes "4 \<le> length p"
  shows "fst (mask_apply e p key 0) = p \<longleftrightarrow> key = (0, 0, 0, 0)"
proof
  obtain a b c d where key: "key = (a, b, c, d)"
    by (cases key)
  assume "fst (mask_apply e p key 0) = p"
  then have same: "xor_stream (\<lambda>i. key_bytes key ! (i mod 4)) p = p"
    by (simp add: mask_apply_stream)
  have "key_bytes key ! (i mod 4) = 0" if "i < length p" for i
    using xor_stream_nth [OF that, of "\<lambda>i. key_bytes key ! (i mod 4)"] unfolding same by (metis xor_same_iff)
  then have "key_bytes key ! i = 0" if "i < 4" for i
    using that assms by (metis mod_less order_less_le_trans)
  from this [of 0] this [of 1] this [of 2] this [of 3] show "key = (0, 0, 0, 0)"
    by (simp add: key key_bytes_def)
next
  assume "key = (0, 0, 0, 0)"
  then have "key_bytes key ! (i mod 4) = 0" for i
    using less_4_cases [of "i mod 4"] by (auto simp: key_bytes_def)
  then show "fst (mask_apply e p key 0) = p"
    by (intro nth_equalityI) (simp_all add: mask_apply_stream)
qed

lemma client_frame_bytes:
  assumes "length p < 126"
  shows "wire_frame v (Some (a, b, c, d)) Text True p
     = [0x81, 0x80 OR of_nat (length p), a, b, c, d] @ fst (mask_apply (v_endian v) p (a, b, c, d) 0)"
proof -
  have "ucast (of_nat (length p) :: u64) = (of_nat (length p) :: u8)"
    using assms by (simp add: word_unat_eq_iff unat_ucast unat_of_nat)
  moreover have "of_nat (length p) < (126 :: u64)"
    using assms by (simp add: word_less_nat_alt unat_of_nat)
  ultimately show ?thesis
    by (simp add: wire_frame_def header_bytes_def len_byte_def len_ext_def mask_ext_def key_bytes_def)
qed

lemma pipe_endian [simp]: "v_endian (pipe_env e u) = e"
  by (simp add: pipe_env_def)

lemma client_end_simps:
  "c_role (client_end e seed) = Client" "c_mask_state (client_end e seed) = seed_from e seed"
  "p_sent (c_stream (client_end e seed)) = []"
  by (simp_all add: client_end_def connection_new_def with_buffered_def Let_def)

lemma client_masks_iff:
  "a_client_masks_every_frame_it_sends e seed \<longleftrightarrow> fst (next_mask e (seed_from e seed)) \<noteq> (0, 0, 0, 0)"
proof -
  obtain c1 where c1: "conn_write (pipe_env e Std) (client_end e seed) (MText (ascii ''secret'')) = Some (Inr (), c1)"
    "pipe_env.sends e Std (client_end e seed) c1 [MText (ascii ''secret'')]"
    by (rule client_writes)
  obtain a b c d st where key: "next_mask e (seed_from e seed) = ((a, b, c, d), st)"
    by (metis prod.exhaust)
  have "p_sent (c_stream c1) = wire_frame (pipe_env e Std) (Some (a, b, c, d)) Text True (ascii ''secret'')"
    using c1(2) by (simp add: pipe_env.sends_def client_end_simps frame_key_def key message_frame_def)
  also have "\<dots> = [0x81, 0x86, a, b, c, d] @ fst (mask_apply e (ascii ''secret'') (a, b, c, d) 0)"
    by (simp add: client_frame_bytes ascii_def)
  finally have sent: "p_sent (c_stream c1) = [0x81, 0x86, a, b, c, d] @ fst (mask_apply e (ascii ''secret'') (a, b, c, d) 0)" .
  have len: "length (fst (mask_apply e (ascii ''secret'') (a, b, c, d) 0)) = 6" "length (ascii ''secret'') = 6"
    by (simp_all add: mask_apply_stream ascii_def)
  show ?thesis
    using masked_in_clear_iff [of "ascii ''secret''" e "(a, b, c, d)"] len
    by (simp add: a_client_masks_every_frame_it_sends_def c1(1) expect_ok_def sent key slice_windows_def)
qed

section \<open>What the second test decides\<close>

lemma read_total_all:
  "[] \<notin> set ps \<Longrightarrow> length (acc @ concat ps) \<le> n \<Longrightarrow> read_total n acc ps = acc @ concat ps"
proof (induction ps arbitrary: acc)
  case (Cons p ps)
  then have "length acc < n"
    by (cases p) auto
  then show ?case
    using Cons.IH [of "acc @ p"] Cons.prems by auto
qed simp

definition nth_key :: "endian \<Rightarrow> bytes \<Rightarrow> nat \<Rightarrow> mask_key" where
  "nth_key e seed i = fst (next_mask e (mask_state_after e i (seed_from e seed)))"

lemma key_bytes_inj: "key_bytes k = key_bytes k' \<longleftrightarrow> k = k'"
  by (cases k; cases k') (auto simp: key_bytes_def)

text \<open>Four frames of seven bytes, each with its key after two bytes.\<close>

lemma four_frames:
  obtains c1 xs where "conn_writes (pipe_env e Std) (client_end e seed) (replicate 4 (MText (ascii ''x''))) = Some (Inr (), c1)"
    and "p_sent (c_stream c1) = concat (map (\<lambda>i. [0x81, 0x81] @ key_bytes (nth_key e seed i) @ [xs i]) [0, 1, 2, 3])"
proof -
  let ?v = "pipe_env e Std" and ?c = "client_end e seed" and ?ms = "replicate 4 (MText (ascii ''x''))"
  define st where "st i = mask_state_after e i (seed_from e seed)" for i
  have st: "seed_from e seed = st 0" "snd (next_mask e (st i)) = st (Suc i)" for i
    by (simp_all add: st_def mask_state_after_def)
  have key: "nth_key e seed i = fst (next_mask e (st i))" for i
    by (simp add: nth_key_def st_def)
  obtain c1 where c1: "conn_writes ?v ?c ?ms = Some (Inr (), c1)" "pipe_env.sends e Std ?c c1 ?ms"
    using pipe_env.conn_writes_sends by blast
  have len: "length (ascii ''x'') = 1"
    by (simp add: ascii_def)
  have f: "wire_frame ?v (Some k) Text True (ascii ''x'')
      = [0x81, 0x81] @ key_bytes k @ [hd (fst (mask_apply e (ascii ''x'') k 0))]" for k
  proof -
    obtain y where "fst (mask_apply e (ascii ''x'') k 0) = [y]"
      using len by (auto simp: mask_apply_stream xor_stream_def length_Suc_conv)
    then show ?thesis
      by (cases k) (simp add: client_frame_bytes len key_bytes_def)
  qed
  have "fst (wire_messages ?v Client (st i) (MText (ascii ''x'') # ms))
      = wire_frame ?v (Some (fst (next_mask e (st i)))) Text True (ascii ''x'') @ fst (wire_messages ?v Client (st (Suc i)) ms)" for i ms
    by (simp add: frame_key_def message_frame_def split_def Let_def apfst_def map_prod_def flip: st(2))
  note step = this
  have "?ms = [MText (ascii ''x''), MText (ascii ''x''), MText (ascii ''x''), MText (ascii ''x'')]"
    by (simp add: numeral_eq_Suc)
  then have "p_sent (c_stream c1) = concat (map (\<lambda>i. wire_frame ?v (Some (nth_key e seed i)) Text True (ascii ''x'')) [0, 1, 2, 3])"
    using c1(2) by (simp add: pipe_env.sends_def client_end_simps st(1) step key numeral_2_eq_2 numeral_3_eq_3
        del: wire_messages.simps(2))
  then show ?thesis
    using c1(1) that [of c1 "\<lambda>i. hd (fst (mask_apply e (ascii ''x'') (nth_key e seed i) 0))"] by (simp add: f)
qed

lemma different_keys_iff:
  assumes "lossless chop" and "\<And>bs. [] \<notin> set (chop bs)"
  shows "successive_frames_use_different_masking_keys e seed chop \<longleftrightarrow>
     \<not> (nth_key e seed 0 = nth_key e seed 1 \<and> nth_key e seed 1 = nth_key e seed 2 \<and> nth_key e seed 2 = nth_key e seed 3)"
proof -
  let ?k = "\<lambda>i. key_bytes (nth_key e seed i)"
  obtain c1 xs where c1: "conn_writes (pipe_env e Std) (client_end e seed) (replicate 4 (MText (ascii ''x''))) = Some (Inr (), c1)"
    "p_sent (c_stream c1) = concat (map (\<lambda>i. [0x81, 0x81] @ ?k i @ [xs i]) [0, 1, 2, 3])" (is "_ = ?sent")
    by (rule four_frames)
  have got: "read_total (4 * 7) [] (chop ?sent) = ?sent"
    using read_total_all [of "chop ?sent" "[]" "4 * 7"] assms by (simp add: lossless_def)
  have keys: "map (\<lambda>i. take 4 (drop (i * 7 + 2) (?sent @ zs))) [0..<4] = [?k 0, ?k 1, ?k 2, ?k 3]" for zs
    by (simp add: upt_rec)
  show ?thesis
    by (simp only: successive_frames_use_different_masking_keys_def c1 expect_ok_def option.case sum.case prod.case Let_def got keys)
      (simp add: slice_windows_def key_bytes_inj)
qed

end
