(* ===== verification/Tests_Upgrade.thy ===== *)
theory Tests_Upgrade
  imports Tests_Wire
begin

text \<open>
  The unit tests of the URL parser (the \<open>tests\<close> module of \<open>src/src/client.rs\<close>) and the tests of the handshake
  over a stream (that of \<open>src/src/upgrade.rs\<close>), the latter for every way the network may cut the bytes.
\<close>

section \<open>URLs\<close>

definition parses_the_shapes_a_caller_actually_writes :: bool where
  "parses_the_shapes_a_caller_actually_writes =
     (url_parse (ascii ''ws://example.com/chat'')
        = Inr \<lparr>u_secure = False, u_host = ascii ''example.com'', u_port = 80, u_path = ascii ''/chat''\<rparr>
      \<and> (case url_parse (ascii ''wss://example.com/chat'') of Inl _ \<Rightarrow> False | Inr u \<Rightarrow> u_secure u \<and> u_port u = 443)
      \<and> map_sum id u_path (url_parse (ascii ''ws://example.com'')) = Inr (ascii ''/'')
      \<and> map_sum id u_port (url_parse (ascii ''ws://example.com:8080/'')) = Inr 8080
      \<and> map_sum id u_path (url_parse (ascii ''ws://example.com/chat?room=1'')) = Inr (ascii ''/chat?room=1''))"

definition an_ipv6_literal_is_not_mistaken_for_a_port :: bool where
  "an_ipv6_literal_is_not_mistaken_for_a_port =
     (map_sum id (\<lambda>u. (u_host u, u_port u)) (url_parse (ascii ''ws://[::1]:9000/chat'')) = Inr (ascii ''::1'', 9000)
      \<and> map_sum id (\<lambda>u. (u_host u, u_port u)) (url_parse (ascii ''ws://[::1]/chat'')) = Inr (ascii ''::1'', 80))"

definition refuses_urls_it_would_have_to_guess_at :: bool where
  "refuses_urls_it_would_have_to_guess_at =
     list_all (\<lambda>input. case url_parse (ascii input) of Inl _ \<Rightarrow> True | Inr _ \<Rightarrow> False)
       [''example.com/chat'', ''http://example.com/chat'', ''ws:///chat'', ''ws://example.com:noport/'',
        ''ws://user:pass@example.com/'']"

definition the_host_header_omits_a_default_port :: bool where
  "the_host_header_omits_a_default_port =
     (map_sum id host_header (url_parse (ascii ''ws://example.com/'')) = Inr (ascii ''example.com'')
      \<and> map_sum id host_header (url_parse (ascii ''wss://example.com/'')) = Inr (ascii ''example.com'')
      \<and> map_sum id host_header (url_parse (ascii ''ws://example.com:8080/'')) = Inr (ascii ''example.com:8080''))"

lemma url_tests:
  "parses_the_shapes_a_caller_actually_writes"
  "an_ipv6_literal_is_not_mistaken_for_a_port"
  "refuses_urls_it_would_have_to_guess_at"
  "the_host_header_omits_a_default_port"
  by (simp_all add: parses_the_shapes_a_caller_actually_writes_def an_ipv6_literal_is_not_mistaken_for_a_port_def
    refuses_urls_it_would_have_to_guess_at_def the_host_header_omits_a_default_port_def url_eval host_header_def
    decimal.simps)

section \<open>Upgrades\<close>

text \<open>What an end has sent and the other has received is gone from the wire.\<close>

definition drained :: "pipe connection \<Rightarrow> pipe connection" where
  "drained c = c\<lparr>c_stream := (c_stream c)\<lparr>p_sent := []\<rparr>\<rparr>"

definition first_offer :: "request \<Rightarrow> str option \<times> field list" where
  "first_offer request = (case r_protocols request of [] \<Rightarrow> None | p # _ \<Rightarrow> Some p, [])"

definition incoming_head :: "(bytes \<Rightarrow> bytes list) \<Rightarrow> bytes \<Rightarrow> pipe" where
  "incoming_head chop bytes = \<lparr>p_pieces = chop bytes, p_sent = []\<rparr>"

definition a_full_handshake_then_messages :: "endian \<Rightarrow> bytes \<Rightarrow> (bytes \<Rightarrow> bytes list) \<Rightarrow> bool" where
  "a_full_handshake_then_messages e seed chop =
     (let v = pipe_env e Std; hello = MText (ascii ''hello'');
          request = build_request (ascii ''/chat'') (ascii ''localhost'') (new_key (replicate 16 9)) [ascii ''mcp''] []
      in case accept v [] (incoming_head chop request) default_limits [] first_offer of
           Some (Inr (Upgraded server request'), _) \<Rightarrow>
             r_path request' = ascii ''/chat''
             \<and> (case connect v seed (incoming_head chop (p_sent (c_stream server))) (ascii ''/chat'') (ascii ''localhost'')
                     [ascii ''mcp''] [] (replicate 16 9) default_limits of
                  Some (Inr (client, protocol), _) \<Rightarrow>
                    protocol = Some (ascii ''mcp'') \<and> p_sent (c_stream client) = request
                    \<and> (case expect_ok (conn_write v (drained client) hello) of
                         None \<Rightarrow> False
                       | Some client \<Rightarrow>
                           (case expect_message (conn_read v (receive chop client (drained server))) of
                              None \<Rightarrow> False
                            | Some (message, server) \<Rightarrow>
                                (case expect_ok (conn_write v server message) of
                                   None \<Rightarrow> False
                                 | Some server \<Rightarrow>
                                     (case expect_message (conn_read v (receive chop server client)) of
                                        None \<Rightarrow> False
                                      | Some (echoed, _) \<Rightarrow> echoed = hello))))
                | _ \<Rightarrow> False)
         | _ \<Rightarrow> False)"

definition a_non_upgrade_request_is_handed_back_for_the_caller_to_answer :: "endian \<Rightarrow> (bytes \<Rightarrow> bytes list) \<Rightarrow> bool" where
  "a_non_upgrade_request_is_handed_back_for_the_caller_to_answer e chop =
     (let v = pipe_env e Std;
          head = lines_of [''GET /health HTTP/1.1'', ''Host: localhost'', ''Origin: https://app.example.com'']
      in case accept v [] (incoming_head chop head) default_limits [] (\<lambda>_. (None, [])) of
           Some (Inr (PlainHttp stream request _), _) \<Rightarrow>
             r_method request = Get \<and> r_path request = ascii ''/health''
             \<and> (case test_header request (ascii ''origin'') of
                  None \<Rightarrow> False
                | Some origin \<Rightarrow>
                    origin = ascii ''https://app.example.com''
                    \<and> (let answer = ascii ''HTTP/1.1 200 OK'' @ crlf @ ascii ''Access-Control-Allow-Origin: '' @ origin @ crlf
                              @ ascii ''Cache-Control: no-store'' @ crlf @ ascii ''Content-Length: 0'' @ crlf
                              @ ascii ''Connection: close'' @ crlf @ crlf;
                            (written, stream') = sx_write_all (v_stream v) stream answer;
                            response = p_sent stream'
                        in written = Inr () \<and> starts_with (ascii ''HTTP/1.1 200'') response
                           \<and> contains_str (ascii ''Access-Control-Allow-Origin: https://app.example.com'') response))
         | _ \<Rightarrow> False)"

definition a_preflight_is_handed_back_with_its_cors_headers :: "endian \<Rightarrow> (bytes \<Rightarrow> bytes list) \<Rightarrow> bool" where
  "a_preflight_is_handed_back_with_its_cors_headers e chop =
     (let v = pipe_env e Std;
          head = lines_of [''OPTIONS /chat HTTP/1.1'', ''Host: localhost'', ''Origin: https://app.example.com'',
            ''Access-Control-Request-Method: GET'']
      in case accept v [] (incoming_head chop head) default_limits [] (\<lambda>_. (None, [])) of
           Some (Inr (PlainHttp stream request _), _) \<Rightarrow>
             r_method request = Options
             \<and> list_ex (\<lambda>(name, value). eq_ignore_ascii_case name (ascii ''access-control-request-method'')
                  \<and> value = ascii ''GET'') (r_headers request)
             \<and> (let (written, stream') = sx_write_all (v_stream v) stream (lines_of [''HTTP/1.1 204 No Content'',
                       ''Access-Control-Allow-Origin: https://app.example.com'',
                       ''Access-Control-Allow-Methods: GET, OPTIONS'', ''Content-Length: 0'', ''Connection: close''])
                 in written = Inr () \<and> starts_with (ascii ''HTTP/1.1 204'') (p_sent stream'))
         | _ \<Rightarrow> False)"

definition a_malformed_head_still_gets_the_refusal_with_the_caller_s_headers :: "endian \<Rightarrow> (bytes \<Rightarrow> bytes list) \<Rightarrow> bool" where
  "a_malformed_head_still_gets_the_refusal_with_the_caller_s_headers e chop =
     (let head = lines_of [''GET /chat HTTP/1.1'', ''Host: localhost'', ''Upgrade: websocket'', ''Connection: Upgrade'',
            ''Sec-WebSocket-Key: dGhlIHNhbXBsZSBub25jZQ=='', ''Sec-WebSocket-Version: 8'']
      in case accept (pipe_env e Std) [] (incoming_head chop head) default_limits
                [(ascii ''Cache-Control'', ascii ''no-store''), (ascii ''Server'', ascii ''nago-wss'')] (\<lambda>_. (None, [])) of
           Some (result, stream) \<Rightarrow>
             result = Inl (EUpgrade WrongVersion)
             \<and> starts_with (ascii ''HTTP/1.1 426'') (p_sent stream)
             \<and> contains_str (ascii ''Cache-Control: no-store'') (p_sent stream)
             \<and> contains_str (ascii ''Server: nago-wss'') (p_sent stream)
         | _ \<Rightarrow> False)"

text \<open>A masked text frame that carries \<open>hi\<close>, appended to the request.\<close>

definition frames_arriving_with_the_handshake_are_not_lost :: "endian \<Rightarrow> (bytes \<Rightarrow> bytes list) \<Rightarrow> bool" where
  "frames_arriving_with_the_handshake_are_not_lost e chop =
     (let v = pipe_env e Std;
          request = build_request (ascii ''/'') (ascii ''localhost'') (new_key (replicate 16 4)) [] [];
          wire = request @ [0x81, 0x82, 0, 0, 0, 0, 104, 105]
      in case accept v [] (incoming_head chop wire) default_limits [] (\<lambda>_. (None, [])) of
           Some (Inr (Upgraded conn _), _) \<Rightarrow>
             (case expect_message (conn_read v conn) of
                None \<Rightarrow> False
              | Some (message, _) \<Rightarrow> message = MText (ascii ''hi''))
         | _ \<Rightarrow> False)"

text \<open>Reading a head made of lines, however it arrives.\<close>

lemma read_test_head:
  assumes "lossless chop" "ok_start start" "list_all ok_field fs" "length (head_bytes start fs) \<le> DEFAULT_MAX_HEAD"
  obtains rest s where
    "read_head (pipe_env e Std) (incoming_head chop (head_bytes start fs @ frames)) DEFAULT_MAX_HEAD
       = Some (Inr (head_bytes start fs, rest), s)"
    "rest @ pipe_incoming s = frames" "p_sent s = []"
proof -
  let ?s = "incoming_head chop (head_bytes start fs @ frames)"
  have s: "pipe_incoming ?s = head_bytes start fs @ frames" "p_sent ?s = []"
    using assms(1) by (simp_all add: incoming_head_def pipe_incoming_def lossless_def)
  have "head_at (length (head_bytes start fs)) (pipe_incoming ?s)"
    using head_end_prefix [OF assms(2,3)] by (auto simp: s head_at_def)
  from pipe_env.read_head_found [OF this, of DEFAULT_MAX_HEAD e Std] show ?thesis
    using assms(4) that by (auto simp: s)
qed

lemma pipe_write_all: "sx_write_all (v_stream (pipe_env e Std)) s bytes = (Inr (), s\<lparr>p_sent := p_sent s @ bytes\<rparr>)"
  by (simp add: pipe_env_def default_ext_def pipe_stream_def)

lemma accepted_plain:
  assumes "lossless chop" "plain_start start m path" "ok_start start" "list_all ok_field fs" "length fs \<le> MAX_HEADERS"
    and "length (head_bytes start fs) \<le> DEFAULT_MAX_HEAD" "\<not> asks_upgrade (parse_method m) fs"
  obtains s where
    "accept (pipe_env e Std) [] (incoming_head chop (head_bytes start fs)) default_limits [] select =
       Some (Inr (PlainHttp s \<lparr>r_method = parse_method m, r_path = path, r_key = [],
         r_protocols = concat (map offered_tokens (all_fields (ascii ''sec-websocket-protocol'') fs)), r_headers = fs\<rparr> []), s)"
    "p_sent s = []"
proof -
  obtain rest s where read: "read_head (pipe_env e Std) (incoming_head chop (head_bytes start fs)) DEFAULT_MAX_HEAD
       = Some (Inr (head_bytes start fs, rest), s)" "rest @ pipe_incoming s = []" "p_sent s = []"
    using read_test_head [OF assms(1,3,4,6), of e "[]"] by auto
  have "parse_request (head_bytes start fs) DEFAULT_MAX_HEAD = Inr (Plain \<lparr>r_method = parse_method m, r_path = path, r_key = [],
      r_protocols = concat (map offered_tokens (all_fields (ascii ''sec-websocket-protocol'') fs)), r_headers = fs\<rparr>)"
    using parse_head [OF assms(2,4-6)] assms(7) by (simp add: judge_def Let_def)
  then show ?thesis
    using read that by (simp add: accept_def)
qed

lemma a_non_upgrade_request_is_handed_back_for_the_caller_to_answer_holds:
  assumes "lossless chop"
  shows "a_non_upgrade_request_is_handed_back_for_the_caller_to_answer e chop"
proof -
  let ?start = "ascii ''GET /health HTTP/1.1''"
  let ?fs = "[(ascii ''Host'', ascii ''localhost''), (ascii ''Origin'', ascii ''https://app.example.com'')]"
  have head: "lines_of [''GET /health HTTP/1.1'', ''Host: localhost'', ''Origin: https://app.example.com''] = head_bytes ?start ?fs"
    by (simp add: head_eval)
  have start: "plain_start ?start (ascii ''GET'') (ascii ''/health'')" "ok_start ?start"
    by (simp_all add: plain_start_def ok_start_def ascii_def Let_def trim_end_cr_def utf8_valid.simps(2))
  have ok: "list_all ok_field ?fs" "length ?fs \<le> MAX_HEADERS" "length (head_bytes ?start ?fs) \<le> DEFAULT_MAX_HEAD"
    by (simp_all add: field_eval)
  have "\<not> asks_upgrade (parse_method (ascii ''GET'')) ?fs"
    by (simp add: asks_upgrade_def lookup_eval)
  from accepted_plain [OF assms start ok this, where select = "\<lambda>_. (None, [])" and e = e, unfolded methods] obtain s where
    accept: "accept (pipe_env e Std) [] (incoming_head chop (head_bytes ?start ?fs)) default_limits [] (\<lambda>_. (None, [])) =
       Some (Inr (PlainHttp s \<lparr>r_method = Get, r_path = ascii ''/health'', r_key = [],
         r_protocols = concat (map offered_tokens (all_fields (ascii ''sec-websocket-protocol'') ?fs)), r_headers = ?fs\<rparr> []), s)"
    and sent: "p_sent s = []" .
  have "find (\<lambda>(had, _). eq_ignore_ascii_case had (ascii ''origin'')) ?fs = Some (ascii ''Origin'', ascii ''https://app.example.com'')"
    by (simp add: eq_ignore_ascii_case_def ascii_def ascii_lower_def)
  moreover have "contains_str (ascii ''Access-Control-Allow-Origin: https://app.example.com'')
     ((ascii ''HTTP/1.1 200 OK'' @ crlf) @ ascii ''Access-Control-Allow-Origin: https://app.example.com'' @ rest)" for rest
    by (rule contains_append)
  moreover have "ascii ''Access-Control-Allow-Origin: https://app.example.com'' @ rest =
      ascii ''Access-Control-Allow-Origin: '' @ ascii ''https://app.example.com'' @ rest" for rest
    by (simp add: ascii_def)
  moreover have "starts_with (ascii ''HTTP/1.1 200'') (ascii ''HTTP/1.1 200 OK'' @ rest)" for rest
    by (simp add: starts_with_def ascii_def)
  ultimately show ?thesis
    by (simp add: a_non_upgrade_request_is_handed_back_for_the_caller_to_answer_def Let_def head accept sent test_header_def
      pipe_write_all)
qed

lemma a_preflight_is_handed_back_with_its_cors_headers_holds:
  assumes "lossless chop"
  shows "a_preflight_is_handed_back_with_its_cors_headers e chop"
proof -
  let ?start = "ascii ''OPTIONS /chat HTTP/1.1''"
  let ?fs = "[(ascii ''Host'', ascii ''localhost''), (ascii ''Origin'', ascii ''https://app.example.com''),
    (ascii ''Access-Control-Request-Method'', ascii ''GET'')]"
  have head: "lines_of [''OPTIONS /chat HTTP/1.1'', ''Host: localhost'', ''Origin: https://app.example.com'',
      ''Access-Control-Request-Method: GET''] = head_bytes ?start ?fs"
    by (simp add: head_eval)
  have start: "ok_start ?start"
    by (simp add: ok_start_def ascii_def)
  have ok: "list_all ok_field ?fs" "length ?fs \<le> MAX_HEADERS" "length (head_bytes ?start ?fs) \<le> DEFAULT_MAX_HEAD"
    by (simp_all add: field_eval)
  have "\<not> asks_upgrade (parse_method (ascii ''OPTIONS'')) ?fs"
    by (simp add: asks_upgrade_def methods)
  from accepted_plain [OF assms starts(3) start ok this, where select = "\<lambda>_. (None, [])" and e = e, unfolded methods] obtain s where
    accept: "accept (pipe_env e Std) [] (incoming_head chop (head_bytes ?start ?fs)) default_limits [] (\<lambda>_. (None, [])) =
       Some (Inr (PlainHttp s \<lparr>r_method = Options, r_path = ascii ''/chat'', r_key = [],
         r_protocols = concat (map offered_tokens (all_fields (ascii ''sec-websocket-protocol'') ?fs)), r_headers = ?fs\<rparr> []), s)"
    and sent: "p_sent s = []" .
  have "eq_ignore_ascii_case (ascii ''Access-Control-Request-Method'') (ascii ''access-control-request-method'')"
    by (simp add: eq_ignore_ascii_case_def ascii_def ascii_lower_def)
  moreover have "starts_with (ascii ''HTTP/1.1 204'') (lines_of (''HTTP/1.1 204 No Content'' # ls))" for ls
    by (simp add: starts_with_def lines_of_def ascii_def)
  ultimately show ?thesis
    by (simp add: a_preflight_is_handed_back_with_its_cors_headers_def Let_def head accept sent pipe_write_all)
qed

lemma a_malformed_head_still_gets_the_refusal_with_the_caller_s_headers_holds:
  assumes "lossless chop"
  shows "a_malformed_head_still_gets_the_refusal_with_the_caller_s_headers e chop"
proof -
  let ?start = "ascii ''GET /chat HTTP/1.1''"
  let ?fs = "[(ascii ''Host'', ascii ''localhost''), upgrade_field, connection_field, key_field,
    (ascii ''Sec-WebSocket-Version'', ascii ''8'')]"
  let ?extra = "[(ascii ''Cache-Control'', ascii ''no-store''), (ascii ''Server'', ascii ''nago-wss'')]"
  have head: "lines_of [''GET /chat HTTP/1.1'', ''Host: localhost'', ''Upgrade: websocket'', ''Connection: Upgrade'',
      ''Sec-WebSocket-Key: dGhlIHNhbXBsZSBub25jZQ=='', ''Sec-WebSocket-Version: 8''] = head_bytes ?start ?fs"
    by (simp add: head_eval)
  have start: "ok_start ?start"
    by (simp add: ok_start_def ascii_def)
  have ok: "list_all ok_field ?fs" "length ?fs \<le> MAX_HEADERS" "length (head_bytes ?start ?fs) \<le> DEFAULT_MAX_HEAD"
    by (simp_all add: field_eval)
  have "asks_upgrade Get ?fs"
    by (simp add: asks_upgrade_def lookup_eval Let_def trim_trimmed trimmed_ascii)
  moreover have "last_field (ascii ''sec-websocket-version'') ?fs = Some (ascii ''8'')" "ascii ''8'' \<noteq> ascii ''13''"
    by (simp_all add: lookup_eval)
  ultimately have parse: "parse_request (head_bytes ?start ?fs) DEFAULT_MAX_HEAD = Inl WrongVersion"
    unfolding parse_head [OF starts(1) ok] methods by (simp add: judge_def Let_def)
  obtain rest s where read: "read_head (pipe_env e Std) (incoming_head chop (head_bytes ?start ?fs)) DEFAULT_MAX_HEAD
       = Some (Inr (head_bytes ?start ?fs, rest), s)" "p_sent s = []"
    by (rule read_test_head [OF assms start ok(1,3), of e "[]", unfolded append_Nil2])
  have "starts_with (ascii ''HTTP/1.1 426'') (build_rejection WrongVersion ?extra)"
    "contains_str (ascii ''Cache-Control: no-store'') (build_rejection WrongVersion ?extra)"
    "contains_str (ascii ''Server: nago-wss'') (build_rejection WrongVersion ?extra)"
    by (simp_all add: refusal_eval)
  then show ?thesis
    unfolding a_malformed_head_still_gets_the_refusal_with_the_caller_s_headers_def Let_def head
    using read parse by (simp add: accept_def pipe_write_all)
qed

lemma test_request:
  "length entropy = 16 \<Longrightarrow> ok_request (ascii ''/'') (ascii ''localhost'') [] [] entropy"
  "length entropy = 16 \<Longrightarrow> ok_request (ascii ''/chat'') (ascii ''localhost'') [ascii ''mcp''] [] entropy"
  by (simp_all add: ok_request_def ok_path_def ok_token_def ascii_def utf8_valid.simps(2) ok_value_ascii
    request_fields_def MAX_HEADERS_def DEFAULT_MAX_HEAD_def build_request_def crlf_def new_key_def base64_roundtrip)

lemma incoming_head_simps:
  "lossless chop \<Longrightarrow> pipe_incoming (incoming_head chop bytes) = bytes" "p_sent (incoming_head chop bytes) = []"
  by (simp_all add: incoming_head_def pipe_incoming_def lossless_def)

lemma frames_arriving_with_the_handshake_are_not_lost_holds:
  assumes "lossless chop"
  shows "frames_arriving_with_the_handshake_are_not_lost e chop"
proof -
  let ?v = "pipe_env e Std" and ?frame = "[0x81, 0x82, 0, 0, 0, 0, 104, 105]"
  let ?request = "build_request (ascii ''/'') (ascii ''localhost'') (new_key (replicate 16 4)) [] []"
  obtain c s where accept: "accept ?v [] (incoming_head chop (?request @ ?frame)) default_limits [] (\<lambda>_. (None, []))
      = Some (Inr (Upgraded c (seen_request (ascii ''/'') (ascii ''localhost'') [] [] (replicate 16 4))), s)"
    "fresh Server default_limits c" "pipe_env.unread c = ?frame"
    using pipe_env.accept_completes [OF test_request(1), of "replicate 16 4" "incoming_head chop (?request @ ?frame)" ?frame e Std
      "[]" default_limits "[]" "\<lambda>_. (None, [])"]
    by (auto simp: incoming_head_simps assms simp del: replicate_numeral)
  have "wire_frame ?v (Some (0, 0, 0, 0)) Text True (ascii ''hi'') @ [] = ?frame"
    by (simp add: wire_frame_def header_bytes_def len_byte_def len_ext_def mask_ext_def key_bytes_def ascii_def
      mask_apply_stream xor_stream_def)
  moreover have "deliverable Std default_limits (MText (ascii ''hi''))"
    by (simp add: deliverable_def message_frame_def default_limits_def ascii_def utf8_valid.simps(2))
  ultimately obtain c' where "conn_read ?v c = Some (Inr (Some (MText (ascii ''hi''))), c')"
    using pipe_env.conn_read_wire [of e Std c "MText (ascii ''hi'')" "Some (0, 0, 0, 0)" ?v "[]"] accept(2,3)
    by (auto simp: fresh_def pipe_env_def message_frame_def)
  then show ?thesis
    using accept(1) by (simp add: frames_arriving_with_the_handshake_are_not_lost_def Let_def expect_message_def
      del: replicate_numeral)
qed

lemma a_full_handshake_then_messages_holds:
  assumes "lossless chop"
  shows "a_full_handshake_then_messages e seed chop"
proof -
  let ?v = "pipe_env e Std" and ?hello = "MText (ascii ''hello'')"
  let ?key = "new_key (replicate 16 9)"
  let ?request = "build_request (ascii ''/chat'') (ascii ''localhost'') ?key [ascii ''mcp''] []"
  let ?response = "build_response ?key (Some (ascii ''mcp'')) []"
  let ?seen = "seen_request (ascii ''/chat'') (ascii ''localhost'') [ascii ''mcp''] [] (replicate 16 9)"
  have ok: "ok_request (ascii ''/chat'') (ascii ''localhost'') [ascii ''mcp''] [] (replicate 16 9)"
    by (rule test_request(2)) (simp del: replicate_numeral)
  have offer: "first_offer ?seen = (Some (ascii ''mcp''), [])"
    by (simp add: first_offer_def seen_request_def)
  obtain server s where server: "accept ?v [] (incoming_head chop ?request) default_limits [] first_offer
      = Some (Inr (Upgraded server ?seen), s)" "c_stream server = s" "fresh Server default_limits server"
      "pipe_env.unread server = []" "p_sent s = ?response"
    using pipe_env.accept_completes [OF ok, of "incoming_head chop ?request" "[]" e Std "[]" default_limits "[]" first_offer]
    by (auto simp: incoming_head_simps assms offer)
  obtain client s' where client: "connect ?v seed (incoming_head chop ?response) (ascii ''/chat'') (ascii ''localhost'')
      [ascii ''mcp''] [] (replicate 16 9) default_limits = Some (Inr (client, Some (ascii ''mcp'')), s')"
      "c_stream client = s'" "fresh Client default_limits client" "pipe_env.unread client = []" "p_sent s' = ?request"
    using pipe_env.connect_completes [OF ok chat_response(1), of "incoming_head chop ?response" "[]" e Std seed default_limits]
    by (auto simp: incoming_head_simps assms)
  have rest: "at_rest Client (drained client)" "at_rest Server (drained server)"
    using server(3,4) client(3,4)
    by (simp_all add: at_rest_def drained_def fresh_def pipe_env.unread_def pipe_incoming_def)
  have "r_path ?seen = ascii ''/chat''"
    by (simp add: seen_request_def)
  moreover obtain client1 server1 server2 client2 where x:
    "conn_write ?v (drained client) ?hello = Some (Inr (), client1)"
    "conn_read ?v (receive chop client1 (drained server)) = Some (Inr (Some ?hello), server1)"
    "conn_write ?v server1 ?hello = Some (Inr (), server2)"
    "conn_read ?v (receive chop server2 client1) = Some (Inr (Some ?hello), client2)"
    by (rule exchange [OF assms test_messages(6,6) rest, of e])
  ultimately show ?thesis
    unfolding a_full_handshake_then_messages_def Let_def server(1)
    by (simp add: server(2,5) client(1,2,5) x expect_ok_def expect_message_def del: replicate_numeral)
qed

end
