(* ===== verification/Tests_Tls.thy ===== *)
theory Tests_Tls
  imports Tests_Upgrade
begin

text \<open>
  The test of \<open>src/src/client.rs\<close> that goes through every layer: a \<open>wss\<close> URL is parsed and resolved, a TLS
  session is opened, the handshake is made over it and a message goes each way. The resolver, the network and
  TLS are arguments; what is needed of them is \<open>tls_carries\<close>: the name resolves, an address answers, the
  configuration gives a session for the host, and its handshake succeeds. The bytes of the session are a pipe.
\<close>

section \<open>Definitions\<close>

text \<open>\<open>tls\<close> gives, for the bytes the server's session sends, the TLS the client finds at the other end.\<close>

definition a_wss_url_reaches_a_tls_websocket_server ::
    "endian \<Rightarrow> bytes \<Rightarrow> (bytes \<Rightarrow> bytes list) \<Rightarrow> ('a, 's) network \<Rightarrow> (pipe \<Rightarrow> ('s, pipe, 'cfg, 'name, 'sess) tls) \<Rightarrow>
       'cfg \<Rightarrow> u16 \<Rightarrow> bool" where
  "a_wss_url_reaches_a_tls_websocket_server e seed chop n tls client_config port =
     (case url_parse (ascii ''wss://localhost:'' @ decimal (unat port) @ ascii ''/chat'') of
        Inl _ \<Rightarrow> False
      | Inr url \<Rightarrow>
          let v = \<lparr>v_endian = e, v_utf8 = Std, v_alloc = exact_alloc, v_stream = tls_stream_ext exact_alloc pipe_stream\<rparr>;
              options = default_options\<lparr>o_protocols := [ascii ''mcp''], o_tls := Some client_config,
                          o_entropy := replicate 16 11\<rparr>;
              over_tls = MText (ascii ''over tls'');
              request = build_request (u_path url) (host_header url) (new_key (o_entropy options)) (o_protocols options)
                          (o_headers options)
          in case accept v [] (incoming_head chop request) default_limits [] first_offer of
               Some (Inr (Upgraded server request'), _) \<Rightarrow>
                 r_path request' = ascii ''/chat''
                 \<and> (case connect_secure v n (tls (incoming_head chop (p_sent (c_stream server)))) seed url options of
                      Some (Inr connected, _) \<Rightarrow>
                        d_protocol connected = Some (ascii ''mcp'')
                        \<and> p_sent (c_stream (d_connection connected)) = request
                        \<and> (case expect_ok (conn_write v (drained (d_connection connected)) over_tls) of
                             None \<Rightarrow> False
                           | Some client \<Rightarrow>
                               (case expect_message (conn_read v (receive chop client (drained server))) of
                                  None \<Rightarrow> False
                                | Some (message, server) \<Rightarrow>
                                    (case expect_ok (conn_write v server message) of
                                       None \<Rightarrow> False
                                     | Some server \<Rightarrow>
                                         (case expect_message (conn_read v (receive chop server client)) of
                                            None \<Rightarrow> False
                                          | Some (echoed, _) \<Rightarrow> echoed = over_tls))))
                    | _ \<Rightarrow> False)
             | _ \<Rightarrow> False)"

section \<open>The test holds\<close>

lemma tls_pipe_env:
  "\<lparr>v_endian = e, v_utf8 = u, v_alloc = exact_alloc, v_stream = tls_stream_ext exact_alloc pipe_stream\<rparr> = pipe_env e u"
  by (simp add: pipe_env_def tls_stream_ext_def)

lemma length_decimal: "n < 10 ^ k \<Longrightarrow> 0 < k \<Longrightarrow> length (decimal n) \<le> k"
proof (induction n arbitrary: k rule: decimal.induct)
  case (1 n)
  show ?case
  proof (cases "n < 10")
    case True
    then show ?thesis
      using "1.prems" by (simp add: decimal.simps [of n])
  next
    case False
    then obtain j where k: "k = Suc j" "0 < j"
      using "1.prems" by (cases k; cases "k - 1") auto
    then have "length (decimal (n div 10)) \<le> j"
      using "1.IH" [of j] False "1.prems"(1) by (simp add: less_mult_imp_div_less mult.commute)
    then show ?thesis
      using False k by (simp add: decimal.simps [of n])
  qed
qed

lemma digits_of_port: "list_all (\<lambda>b. 0x21 \<le> b \<and> b < 0x80) (decimal (unat (port :: u16)))" "length (decimal (unat port)) \<le> 5"
proof -
  have "unat port < 10 ^ 5"
    using unsigned_less [of port, where ?'a = nat] by simp
  then show "length (decimal (unat port)) \<le> 5"
    by (rule length_decimal) simp
  show "list_all (\<lambda>b. 0x21 \<le> b \<and> b < 0x80) (decimal (unat port))"
    using decimal_digits [of "unat port"] by (auto simp: list_all_iff is_digit_def word_le_nat_alt word_less_nat_alt)
qed

abbreviation test_url :: "u16 \<Rightarrow> url" where
  "test_url port \<equiv> \<lparr>u_secure = True, u_host = ascii ''localhost'', u_port = port, u_path = ascii ''/chat''\<rparr>"

lemma test_url_parsed:
  assumes "port \<noteq> 443"
  shows "url_parse (ascii ''wss://localhost:'' @ decimal (unat port) @ ascii ''/chat'') = Inr (test_url port)"
    and "host_header (test_url port) = ascii ''localhost:'' @ decimal (unat port)"
proof -
  show header: "host_header (test_url port) = ascii ''localhost:'' @ decimal (unat port)"
    using assms by (simp add: host_header_def ascii_def)
  have "url_print (test_url port) = ascii ''wss://localhost:'' @ decimal (unat port) @ ascii ''/chat''"
    using header by (simp add: url_print_def scheme_of_def ascii_def)
  moreover have "url_parse (url_print (test_url port)) = Inr (test_url port)"
    by (rule url_roundtrip) (simp_all add: ascii_def)
  ultimately show "url_parse (ascii ''wss://localhost:'' @ decimal (unat port) @ ascii ''/chat'') = Inr (test_url port)"
    by simp
qed

lemma test_url_request:
  "port \<noteq> 443 \<Longrightarrow> ok_request (ascii ''/chat'') (host_header (test_url port)) [ascii ''mcp''] [] (replicate 16 11)"
proof -
  assume "port \<noteq> 443"
  then have "host_header (test_url port) = ascii ''localhost:'' @ decimal (unat port)"
    by (rule test_url_parsed)
  moreover have "ok_value (ascii ''localhost:'' @ decimal (unat port))"
    using digits_of_port(1) [of port] by (intro ok_value_ascii) (simp_all add: ascii_def)
  moreover have "length (new_key (replicate 16 11)) = 24"
    by (simp add: new_key_def base64_roundtrip del: replicate_numeral)
  ultimately show ?thesis
    using test_request(2) [of "replicate 16 11"] digits_of_port(2) [of port]
    by (simp add: ok_request_def request_fields_def MAX_HEADERS_def DEFAULT_MAX_HEAD_def build_request_def crlf_def ascii_def
      del: replicate_numeral)
qed

lemma a_wss_url_reaches_a_tls_websocket_server_holds:
  assumes "lossless chop" and "port \<noteq> 443"
    and "\<And>session. tls_carries n (tls session) client_config (ascii ''localhost'') port session"
  shows "a_wss_url_reaches_a_tls_websocket_server e seed chop n tls client_config port"
proof -
  let ?v = "pipe_env e Std" and ?hello = "MText (ascii ''over tls'')" and ?u = "test_url port"
  let ?options = "default_options\<lparr>o_protocols := [ascii ''mcp''], o_tls := Some client_config, o_entropy := replicate 16 11\<rparr>"
  let ?key = "new_key (replicate 16 11)"
  let ?request = "build_request (ascii ''/chat'') (host_header ?u) ?key [ascii ''mcp''] []"
  let ?response = "build_response ?key (Some (ascii ''mcp'')) []"
  let ?seen = "seen_request (ascii ''/chat'') (host_header ?u) [ascii ''mcp''] [] (replicate 16 11)"
  note ok = test_url_request [OF assms(2)]
  have offer: "first_offer ?seen = (Some (ascii ''mcp''), [])" and path: "r_path ?seen = ascii ''/chat''"
    by (simp_all add: first_offer_def seen_request_def)
  obtain server s where server: "accept ?v [] (incoming_head chop ?request) default_limits [] first_offer
      = Some (Inr (Upgraded server ?seen), s)" "c_stream server = s" "fresh Server default_limits server"
      "pipe_env.unread server = []" "p_sent s = ?response"
    using pipe_env.accept_completes [OF ok, of "incoming_head chop ?request" "[]" e Std "[]" default_limits "[]" first_offer]
    by (auto simp: incoming_head_simps assms offer)
  have "\<exists>c session'. connect_secure ?v n (tls (incoming_head chop ?response)) seed ?u ?options
         = Some (Inr \<lparr>d_connection = c, d_protocol = Some (ascii ''mcp'')\<rparr>, Some session')
       \<and> c_stream c = session' \<and> fresh Client (o_limits ?options) c \<and> pipe_env.unread c = []
       \<and> p_sent session' = p_sent (incoming_head chop ?response) @ build_request (u_path ?u) (host_header ?u)
           (new_key (o_entropy ?options)) (o_protocols ?options) (o_headers ?options)"
    by (rule connect_secure_completes [OF pipe_env.connection_env_axioms, where config = client_config
          and session = "incoming_head chop ?response" and headers = "[]"])
      (use assms(3) ok chat_response(1) in \<open>simp_all add: incoming_head_simps assms(1) default_options_def del: replicate_numeral\<close>)
  then obtain client s' where client: "connect_secure ?v n (tls (incoming_head chop ?response)) seed ?u ?options
      = Some (Inr \<lparr>d_connection = client, d_protocol = Some (ascii ''mcp'')\<rparr>, Some s')"
      "c_stream client = s'" "fresh Client default_limits client" "pipe_env.unread client = []" "p_sent s' = ?request"
    by (auto simp: incoming_head_simps default_options_def simp del: replicate_numeral)
  have rest: "at_rest Client (drained client)" "at_rest Server (drained server)"
    using server(3,4) client(3,4)
    by (simp_all add: at_rest_def drained_def fresh_def pipe_env.unread_def pipe_incoming_def)
  have "deliverable Std default_limits ?hello"
    by (simp add: deliverable_def message_frame_def default_limits_def ascii_def utf8_valid.simps(2))
  from exchange [OF assms(1) this this rest, of e] obtain client1 server1 server2 client2 where x:
    "conn_write ?v (drained client) ?hello = Some (Inr (), client1)"
    "conn_read ?v (receive chop client1 (drained server)) = Some (Inr (Some ?hello), server1)"
    "conn_write ?v server1 ?hello = Some (Inr (), server2)"
    "conn_read ?v (receive chop server2 client1) = Some (Inr (Some ?hello), client2)"
    by blast
  have options: "o_headers ?options = []" "o_protocols ?options = [ascii ''mcp'']" "o_entropy ?options = replicate 16 11"
    by (simp_all add: default_options_def del: replicate_numeral)
  show ?thesis
    unfolding a_wss_url_reaches_a_tls_websocket_server_def test_url_parsed(1) [OF assms(2)] sum.case Let_def tls_pipe_env options
    by (simp only: url.select_convs server(1) option.case prod.case sum.case upgrade_outcome.case path server(2,5) client(1))
      (simp add: client(2,5) x expect_ok_def expect_message_def del: replicate_numeral)
qed

text \<open>A network and a TLS that do what is asked of them.\<close>

lemma a_wss_url_reaches_a_tls_websocket_server_instance:
  "a_wss_url_reaches_a_tls_websocket_server Little [1] (\<lambda>bs. [bs])
     \<lparr>n_resolve = (\<lambda>_ _. Inr [()]), n_connect_any = (\<lambda>_. Inr ()), n_eai_noname = -2\<rparr>
     (\<lambda>session. \<lparr>t_default_config = None, t_server_name = (\<lambda>h. Some h), t_session = (\<lambda>_ name. Some name),
        t_client = (\<lambda>_ _. session), t_handshake = (\<lambda>s. (Inr (), s)), t_eproto = 71\<rparr>) () 8443"
  by (rule a_wss_url_reaches_a_tls_websocket_server_holds) (simp_all add: lossless_def tls_carries_def)

end
