(* ===== verification/Conformance.thy ===== *)
theory Conformance
  imports Frame Message Accept
begin

text \<open>
  The harness of the conformance suite (\<open>src/tests/conformance.rs\<close>): a client frame built by the codec
  and masked, and the path of a connection in miniature, which decodes a frame, unmasks it and hands it to
  the assembler. The lemmas say what comes out of that path for every frame, legal or not; the cases of the
  suite (theories \<open>Conformance_Cases\<close> and \<open>Conformance_Suite\<close>) are instances. A panic of the harness is the value \<open>None\<close>.
\<close>

section \<open>Definitions\<close>

datatype fault = FrameFault frame_error | ProtocolFault protocol_error

type_synonym fed = "((fault + message option) \<times> assembler) option"

definition feed :: "endian \<Rightarrow> utf8_impl \<Rightarrow> assembler \<Rightarrow> bytes \<Rightarrow> fed" where
  "feed e u a wire =
     (case header_decode wire (- 1) of
        Inl fe \<Rightarrow> Some (Inl (FrameFault fe), a)
      | Inr (Inl _) \<Rightarrow> None
      | Inr (Inr (header, used)) \<Rightarrow>
          if length wire < used + unat (h_payload_len header) then None
          else
            let payload = take (unat (h_payload_len header)) (drop used wire);
                payload' = (case h_mask header of None \<Rightarrow> payload | Some key \<Rightarrow> fst (mask_apply e payload key 0))
            in map_option (apfst (map_sum ProtocolFault id))
                 (assembler_accept u a (h_opcode header) (h_fin header) payload'))"

definition frame_of :: "endian \<Rightarrow> opcode \<Rightarrow> bool \<Rightarrow> bytes \<Rightarrow> bytes option" where
  "frame_of e op fin payload =
     (let key = (0x37, 0xFA, 0x21, 0x3D);
          header = \<lparr>h_fin = fin, h_opcode = op, h_mask = Some key, h_payload_len = of_nat (length payload)\<rparr>
      in case header_encode header (replicate MAX_ENCODED_LEN 0) of
           None \<Rightarrow> None
         | Some (head, used) \<Rightarrow> Some (take used head @ fst (mask_apply e payload key 0)))"

definition fresh_assembler :: assembler where
  "fresh_assembler = assembler_new default_limits"

text \<open>\<open>feed(&mut a, &frame(opcode, fin, payload))\<close>, and the same for one frame after another: what each
  call returns, and the assembler in the end.\<close>

definition feed_frame :: "endian \<Rightarrow> utf8_impl \<Rightarrow> assembler \<Rightarrow> frame \<Rightarrow> fed" where
  "feed_frame e u a f = (case f of (op, fin, payload) \<Rightarrow> Option.bind (frame_of e op fin payload) (feed e u a))"

fun feeds ::
    "endian \<Rightarrow> utf8_impl \<Rightarrow> assembler \<Rightarrow> frame list \<Rightarrow> ((fault + message option) list \<times> assembler) option"
    where
  "feeds e u a [] = Some ([], a)"
| "feeds e u a (f # fs) =
     (case feed_frame e u a f of
        None \<Rightarrow> None
      | Some (r, a') \<Rightarrow> map_option (apfst (Cons r)) (feeds e u a' fs))"

text \<open>A fresh assembler fed these frames returns these results.\<close>

definition yields :: "endian \<Rightarrow> utf8_impl \<Rightarrow> frame list \<Rightarrow> (fault + message option) list \<Rightarrow> bool" where
  "yields e u fs rs \<longleftrightarrow> map_option fst (feeds e u fresh_assembler fs) = Some rs"

section \<open>The path of one frame\<close>

abbreviation client_header :: "opcode \<Rightarrow> bool \<Rightarrow> bytes \<Rightarrow> header" where
  "client_header op fin payload \<equiv>
     \<lparr>h_fin = fin, h_opcode = op, h_mask = Some (0x37, 0xFA, 0x21, 0x3D), h_payload_len = of_nat (length payload)\<rparr>"

lemma frame_eq:
  "frame_of e op fin payload =
     Some (header_bytes (client_header op fin payload) @ fst (mask_apply e payload (0x37, 0xFA, 0x21, 0x3D) 0))"
  using encoded_len_bounds(2) [of "client_header op fin payload"]
  by (simp add: frame_of_def Let_def header_encode_eq)

text \<open>What 5.5 forbids of a control frame.\<close>

definition control_legal :: "opcode \<Rightarrow> bool \<Rightarrow> bytes \<Rightarrow> bool" where
  "control_legal op fin payload \<longleftrightarrow> \<not> is_control op \<or> (fin \<and> length payload \<le> 125)"

lemma unat_length: "length p < 2 ^ 63 \<Longrightarrow> unat (of_nat (length p) :: u64) = length p"
  by (simp add: unat_of_nat)

lemma wf_client_header:
  assumes "control_legal op fin payload" and "length payload < 2 ^ 63"
  shows "wf_header (client_header op fin payload)"
  using assms unat_length [OF assms(2)]
  by (auto simp: wf_header_def control_legal_def word_less_nat_alt word_le_nat_alt)

lemma feed_frame_legal:
  assumes "control_legal op fin payload" and "length payload < 2 ^ 63"
  shows "feed_frame e u a (op, fin, payload) =
     map_option (apfst (map_sum ProtocolFault id)) (assembler_accept u a op fin payload)"
proof -
  let ?h = "client_header op fin payload"
  have "header_decode (header_bytes ?h @ rest) (- 1) = Inr (Inr (?h, encoded_len ?h))" for rest
    using header_decode_bytes [OF wf_client_header [OF assms], of "- 1" rest] by simp
  then show ?thesis
    using unat_length [OF assms(2)]
    by (simp add: feed_frame_def frame_eq feed_def Let_def mask_apply_stream xor_stream_twice)
qed

lemma header_decode_illegal:
  assumes "\<not> control_legal op fin payload" and "length payload < 2 ^ 63"
  shows "header_decode (header_bytes (client_header op fin payload) @ rest) limit = Inl InvalidControlFrame"
proof -
  let ?len = "of_nat (length payload) :: u64"
  have "is_control op" "len_byte ?len > 125 \<or> \<not> fin"
    using assms unat_length [OF assms(2)] len_byte_control [of ?len]
    by (auto simp: control_legal_def word_less_nat_alt word_le_nat_alt not_le)
  then show ?thesis
    using first_byte [of fin op] u8_split_flag [OF len_byte_small, of True ?len]
    by (simp add: header_decode_def header_bytes_def Let_def)
qed

lemma feed_frame_illegal:
  assumes "\<not> control_legal op fin payload" and "length payload < 2 ^ 63"
  shows "feed_frame e u a (op, fin, payload) = Some (Inl (FrameFault InvalidControlFrame), a)"
  by (simp add: feed_frame_def frame_eq feed_def header_decode_illegal [OF assms])

text \<open>Whatever frame the client builds, the harness does not panic on an assembler in its invariant: a
  control frame that breaks 5.5 is refused by the codec, every other frame reaches the assembler with the
  payload the client gave it.\<close>

lemma feed_frame_eq:
  assumes "length payload < 2 ^ 63"
  shows "feed_frame e u a (op, fin, payload) =
     (if control_legal op fin payload
      then map_option (apfst (map_sum ProtocolFault id)) (assembler_accept u a op fin payload)
      else Some (Inl (FrameFault InvalidControlFrame), a))"
  using feed_frame_legal [OF _ assms] feed_frame_illegal [OF _ assms] by simp

text \<open>A reserved bit is judged before anything else of the frame, and a reserved opcode before anything
  but that.\<close>

lemma feed_reserved_bit:
  "2 \<le> length wire \<Longrightarrow> wire ! 0 AND 0x70 \<noteq> 0 \<Longrightarrow> feed e u a wire = Some (Inl (FrameFault ReservedBitSet), a)"
  by (simp add: feed_def header_decode_def Let_def)

lemma feed_reserved_opcode:
  "2 \<le> length wire \<Longrightarrow> wire ! 0 AND 0x70 = 0 \<Longrightarrow> opcode_from_bits (wire ! 0 AND 0x0F) = None \<Longrightarrow>
   feed e u a wire = Some (Inl (FrameFault (ReservedOpCode (wire ! 0 AND 0x0F))), a)"
  by (simp add: feed_def header_decode_def Let_def)

section \<open>Sequences of frames\<close>

lemma feeds_append:
  "feeds e u a fs = Some (rs, b) \<Longrightarrow> feeds e u a (fs @ gs) = map_option (apfst (append rs)) (feeds e u b gs)"
proof (induction fs arbitrary: a rs)
  case Nil
  then show ?case
    by (simp add: option.map_ident_strong apfst_def map_prod_def split_def)
next
  case (Cons f fs)
  then obtain r c rs' where "feed_frame e u a f = Some (r, c)" "feeds e u c fs = Some (rs', b)" "rs = r # rs'"
    by (auto split: option.splits)
  then show ?case
    using Cons.IH [of c rs'] by (simp add: option.map_comp comp_def apfst_def map_prod_def split_def)
qed

text \<open>The frames of a message cut into the given pieces, as the suite's loops over
  \<open>iter().enumerate()\<close> number them.\<close>

definition fragments :: "opcode \<Rightarrow> bytes list \<Rightarrow> frame list" where
  "fragments kind cs =
     map (\<lambda>(index, c). (if index = 0 then kind else Continuation, index = length cs - 1, c)) (enumerate 0 cs)"

lemma fragments_single [simp]: "fragments kind [p] = [(kind, True, p)]"
  by (simp add: fragments_def)

lemma fragments_middle:
  "0 < i \<Longrightarrow> i + length cs \<le> n \<Longrightarrow>
   map (\<lambda>(index, c). (if index = 0 then kind else Continuation, index = n, c)) (enumerate i cs) =
   map (\<lambda>c. (Continuation, False, c)) cs"
  by (induction cs arbitrary: i) auto

lemma fragments_split:
  "fragments kind (p # cs @ [q]) = (kind, False, p) # map (\<lambda>c. (Continuation, False, c)) cs @ [(Continuation, True, q)]"
  by (simp add: fragments_def fragments_middle enumerate_append_eq)

lemma feeds_middle:
  assumes "\<not> a_closed a" and "a_partial a = Some (kind, buffer)"
    and "length buffer + length (concat cs) \<le> unat (max_message (a_limits a))"
    and "unat (max_message (a_limits a)) < 2 ^ 63"
  shows "feeds e u a (map (\<lambda>c. (Continuation, False, c)) cs) =
     Some (replicate (length cs) (Inr None), a\<lparr>a_partial := Some (kind, buffer @ concat cs)\<rparr>)"
  using assms
proof (induction cs arbitrary: a buffer)
  case (Cons c cs)
  have "\<not> unat (max_message (a_limits a)) < saturating_len (length buffer) (length c)"
    using Cons.prems(3) saturating_len_le [of "length buffer" "length c"] by simp
  then have "assembler_accept u a Continuation False c = Some (Inr None, a\<lparr>a_partial := Some (kind, buffer @ c)\<rparr>)"
    using Cons.prems by (simp add: assembler_accept_def accept_continuation_def)
  then have "feed_frame e u a (Continuation, False, c) = Some (Inr None, a\<lparr>a_partial := Some (kind, buffer @ c)\<rparr>)"
    using Cons.prems by (simp add: feed_frame_eq control_legal_def)
  then show ?case
    using Cons.IH [of "a\<lparr>a_partial := Some (kind, buffer @ c)\<rparr>" "buffer @ c"] Cons.prems by simp
qed auto

text \<open>A message in any number of pieces: nothing comes out before the last, and what comes out then is
  the judgement on the whole.\<close>

lemma feeds_fragments:
  assumes "\<not> a_closed a" and "a_partial a = None" and "cs \<noteq> []"
    and "length (concat cs) \<le> unat (max_message (a_limits a))" and "unat (max_message (a_limits a)) < 2 ^ 63"
    and "finish_unfragmented u kind (concat cs) = Some r"
  shows "feeds e u a (fragments kind cs) =
     Some (replicate (length cs - 1) (Inr None) @ [map_sum ProtocolFault Some r], a)"
proof -
  have kind: "kind = Text \<or> kind = Binary"
    using assms(6) by (auto simp: finish_unfragmented_def split: opcode.splits)
  obtain p rest where cs: "cs = p # rest"
    using assms(3) by (cases cs) auto
  show ?thesis
  proof (cases rest rule: rev_cases)
    case Nil
    then show ?thesis
      using assms kind by (auto simp: cs feed_frame_eq control_legal_def assembler_accept_def accept_data_def sum.map_comp comp_def)
  next
    case (snoc middle q)
    let ?b = "a\<lparr>a_partial := Some (kind, p)\<rparr>"
    let ?c = "a\<lparr>a_partial := Some (kind, p @ concat middle)\<rparr>"
    have len: "length p + length (concat middle) + length q \<le> unat (max_message (a_limits a))"
      using assms(4) by (simp add: cs snoc)
    have first: "feed_frame e u a (kind, False, p) = Some (Inr None, ?b)"
      using assms(1,2,5) kind len by (auto simp: feed_frame_eq control_legal_def assembler_accept_def accept_data_def)
    have mid: "feeds e u ?b (map (\<lambda>c. (Continuation, False, c)) middle) = Some (replicate (length middle) (Inr None), ?c)"
      using feeds_middle [of ?b kind p middle] assms(1,5) len by simp
    have "\<not> unat (max_message (a_limits a)) < saturating_len (length (p @ concat middle)) (length q)"
      using len saturating_len_le [of "length (p @ concat middle)" "length q"] by simp
    then have last: "feed_frame e u ?c (Continuation, True, q) = Some (map_sum ProtocolFault Some r, a)"
      using assms(1,2,5,6) len
      by (simp add: feed_frame_eq control_legal_def assembler_accept_def accept_continuation_def assembler_finish_def
          cs snoc sum.map_comp comp_def)
    show ?thesis
      using first mid last by (simp add: cs snoc fragments_split feeds_append)
  qed
qed

section \<open>A fresh assembler\<close>

lemma fresh_assembler_simps [simp]:
  "a_closed fresh_assembler = False" "a_partial fresh_assembler = None" "a_limits fresh_assembler = default_limits"
  by (simp_all add: fresh_assembler_def assembler_new_def)

lemma default_max_message: "unat (max_message default_limits) = 16777216"
  by (simp add: default_limits_def)

lemma yields_fragments:
  assumes "cs \<noteq> []" and "length (concat cs) \<le> 16777216" and "finish_unfragmented u kind (concat cs) = Some r"
  shows "yields e u (fragments kind cs) rs \<longleftrightarrow>
     rs = replicate (length cs - 1) (Inr None) @ [map_sum ProtocolFault Some r]"
  using feeds_fragments [of fresh_assembler cs u kind r e] assms by (auto simp: yields_def default_max_message)

lemma yields_binary:
  "cs \<noteq> [] \<Longrightarrow> length (concat cs) \<le> 16777216 \<Longrightarrow>
   yields e u (fragments Binary cs) rs \<longleftrightarrow> rs = replicate (length cs - 1) (Inr None) @ [Inr (Some (MBinary (concat cs)))]"
  using yields_fragments [of cs u Binary] by (simp add: finish_unfragmented_def)

lemma yields_probe:
  "op = Ping \<or> op = Pong \<Longrightarrow> length p \<le> 125 \<Longrightarrow>
   yields e u [(op, True, p)] rs \<longleftrightarrow> rs = [Inr (Some (probe_message op p))]"
  by (auto simp: yields_def feed_frame_eq control_legal_def accept_probe)

lemma yields_control_illegal:
  "is_control op \<Longrightarrow> \<not> fin \<or> 125 < length p \<Longrightarrow> length p < 2 ^ 63 \<Longrightarrow>
   yields e u [(op, fin, p)] rs \<longleftrightarrow> rs = [Inl (FrameFault InvalidControlFrame)]"
  by (auto simp: yields_def feed_frame_eq control_legal_def)

context utf8_build
begin

text \<open>The judgement on a text message, whole or in pieces: the bytes of all its pieces are UTF-8.\<close>

lemma yields_text:
  assumes "cs \<noteq> []" and "length (concat cs) \<le> 16777216"
  shows "yields e u (fragments Text cs) rs \<longleftrightarrow>
     rs = replicate (length cs - 1) (Inr None)
       @ [if utf8_valid (concat cs) then Inr (Some (MText (concat cs))) else Inl (ProtocolFault InvalidUtf8)]"
  using yields_fragments [OF assms, of u Text] by (simp add: finish_unfragmented_def is_utf8_iff)

lemma yields_text_whole:
  "length p \<le> 16777216 \<Longrightarrow>
   yields e u [(Text, True, p)] rs \<longleftrightarrow>
     rs = [if utf8_valid p then Inr (Some (MText p)) else Inl (ProtocolFault InvalidUtf8)]"
  using yields_text [of "[p]"] by simp

lemma yields_text_pair:
  "length (p @ q) \<le> 16777216 \<Longrightarrow>
   yields e u [(Text, False, p), (Continuation, True, q)] rs \<longleftrightarrow>
     rs = [Inr None, if utf8_valid (p @ q) then Inr (Some (MText (p @ q))) else Inl (ProtocolFault InvalidUtf8)]"
  using yields_text [of "[p, q]"] fragments_split [of Text p "[]" q] by simp

text \<open>The judgement on a close body with a code: the code first, then the reason.\<close>

lemma accept_close:
  "\<not> a_closed a \<Longrightarrow>
   assembler_accept u a Close fin (be_bytes 2 code @ reason) =
     Some (if \<not> is_sendable (CloseCode code) then Inl InvalidCloseCode
           else if \<not> utf8_valid reason then Inl InvalidUtf8
           else Inr (Some (MClose (Some \<lparr>cf_code = CloseCode code, cf_reason = reason\<rparr>))), a\<lparr>a_closed := True\<rparr>)"
proof -
  obtain x y where xy: "be_bytes 2 code = [x, y]"
    using two_elements [of "be_bytes 2 code"] length_be_bytes [of 2 code] by (metis length_0_conv length_Cons
        numeral_2_eq_2 order_refl old.nat.inject)
  then have "be_word [x, y] = code"
    using be_word_be_bytes [of 2 code] by simp
  then show "\<not> a_closed a \<Longrightarrow> ?thesis"
    by (simp add: assembler_accept_def accept_control_def parse_close_body_def xy is_utf8_iff Let_def)
qed

lemma yields_close:
  assumes "length reason \<le> 123"
  shows "yields e u [(Close, True, be_bytes 2 code @ reason)] rs \<longleftrightarrow>
     rs = [if \<not> is_sendable (CloseCode code) then Inl (ProtocolFault InvalidCloseCode)
           else if \<not> utf8_valid reason then Inl (ProtocolFault InvalidUtf8)
           else Inr (Some (MClose (Some \<lparr>cf_code = CloseCode code, cf_reason = reason\<rparr>)))]"
  using assms by (auto simp: yields_def feed_frame_eq control_legal_def accept_close)

lemma yields_close_code:
  "yields e u [(Close, True, be_bytes 2 code)] rs \<longleftrightarrow>
     rs = [if is_sendable (CloseCode code) then Inr (Some (MClose (Some \<lparr>cf_code = CloseCode code, cf_reason = []\<rparr>)))
           else Inl (ProtocolFault InvalidCloseCode)]"
  using yields_close [of "[]" e code rs] by simp

end

section \<open>Properties\<close>

text \<open>C22: Text is judged whole. A client that cuts a text message into any pieces, wherever the cuts fall,
  gets nothing before the last piece; then the message is delivered if the bytes of all the pieces are UTF-8
  and refused if they are not, whatever the pieces look like on their own, and the assembler is idle again.
  This goes through the wire: each piece is framed, masked, decoded and unmasked.\<close>

theorem text_judged_whole:
  assumes "utf8_build u" and "cs \<noteq> []" and "length (concat cs) \<le> unat (max_message l)"
    and "unat (max_message l) < 2 ^ 63"
  shows "feeds e u (assembler_new l) (fragments Text cs) =
     Some (replicate (length cs - 1) (Inr None)
           @ [if utf8_valid (concat cs) then Inr (Some (MText (concat cs))) else Inl (ProtocolFault InvalidUtf8)],
           assembler_new l)"
  using feeds_fragments [of "assembler_new l" cs u Text _ e] assms(2-4)
  by (simp add: assembler_new_def finish_unfragmented_def utf8_build.is_utf8_iff [OF assms(1)])

theorem text_judged_whole_witness:
  "feeds Big Std (assembler_new default_limits) (fragments Text [[0xF0], [0x80], [0x80, 0xAF]]) =
     Some ([Inr None, Inr None, Inl (ProtocolFault InvalidUtf8)], assembler_new default_limits)"
  using text_judged_whole [OF std_utf8.utf8_build_axioms, of "[[0xF0], [0x80], [0x80, 0xAF]]" default_limits Big]
  by (simp add: default_limits_def utf8_eval)

end
