(* ===== verification/Conformance_Cases.thy ===== *)
theory Conformance_Cases
  imports Conformance
begin

text \<open>
  The cases of the conformance suite (\<open>src/tests/conformance.rs\<close>) as predicates, one for each test, in
  its order: an \<open>assert\<close> is a conjunct, an \<open>unwrap\<close> of an error fails the case. A case takes the byte order
  of the machine and the validator the crate is built with. That every case holds is shown in theory
  \<open>Conformance_Suite\<close>.
\<close>

section \<open>One case written out\<close>

definition case_1_1_text_message_echoes :: "endian \<Rightarrow> utf8_impl \<Rightarrow> bool" where
  "case_1_1_text_message_echoes e u =
     yields e u [(Text, True, ascii ''Hello, world!'')] [Inr (Some (MText (ascii ''Hello, world!'')))]"

definition case_1_2_binary_message_echoes :: "endian \<Rightarrow> utf8_impl \<Rightarrow> bool" where
  "case_1_2_binary_message_echoes e u =
     (let payload = [0x00, 0xFF, 0x7F, 0x80] in yields e u [(Binary, True, payload)] [Inr (Some (MBinary payload))])"

definition an_empty_payload_is_still_a_message :: "endian \<Rightarrow> utf8_impl \<Rightarrow> bool" where
  "an_empty_payload_is_still_a_message e u = yields e u [(Text, True, [])] [Inr (Some (MText []))]"

definition case_2_1_ping_payload_is_returned_verbatim :: "endian \<Rightarrow> utf8_impl \<Rightarrow> bool" where
  "case_2_1_ping_payload_is_returned_verbatim e u =
     yields e u [(Ping, True, ascii ''payload'')] [Inr (Some (MPing (ascii ''payload'')))]"

definition case_2_5_a_fragmented_ping_is_a_protocol_error :: "endian \<Rightarrow> utf8_impl \<Rightarrow> bool" where
  "case_2_5_a_fragmented_ping_is_a_protocol_error e u =
     yields e u [(Ping, False, ascii ''x'')] [Inl (FrameFault InvalidControlFrame)]"

definition case_5_1_a_fragmented_message_reassembles :: "endian \<Rightarrow> utf8_impl \<Rightarrow> bool" where
  "case_5_1_a_fragmented_message_reassembles e u =
     yields e u [(Text, False, ascii ''frag''), (Continuation, True, ascii ''ment'')]
       [Inr None, Inr (Some (MText (ascii ''fragment'')))]"

text \<open>The word of the suite's Greek cases, a \<open>str\<close> literal: the encoding of its five characters.\<close>

definition kosme :: bytes where
  "kosme = utf8_encode [0x3BA, 0x3CC, 0x3C3, 0x3BC, 0x3B5]"

definition case_6_1_valid_utf8_passes :: "endian \<Rightarrow> utf8_impl \<Rightarrow> bool" where
  "case_6_1_valid_utf8_passes e u = yields e u [(Text, True, kosme)] [Inr (Some (MText kosme))]"

definition case_6_3_invalid_utf8_fails_the_connection :: "endian \<Rightarrow> utf8_impl \<Rightarrow> bool" where
  "case_6_3_invalid_utf8_fails_the_connection e u =
     list_all (\<lambda>payload. yields e u [(Text, True, payload)] [Inl (ProtocolFault InvalidUtf8)])
       [[0xC0, 0xAF], [0xE0, 0x80, 0xAF], [0xF0, 0x80, 0x80, 0xAF], [0xED, 0xA0, 0x80], [0xF4, 0x90, 0x80, 0x80], [0xFE]]"

definition case_6_4_utf8_split_across_fragments_is_judged_whole :: "endian \<Rightarrow> utf8_impl \<Rightarrow> bool" where
  "case_6_4_utf8_split_across_fragments_is_judged_whole e u =
     (let euro = utf8_encode [0x20AC]
      in yields e u [(Text, False, take 1 euro), (Continuation, True, drop 1 euro)] [Inr None, Inr (Some (MText euro))])"

definition binary_carries_bytes_text_would_refuse :: "endian \<Rightarrow> utf8_impl \<Rightarrow> bool" where
  "binary_carries_bytes_text_would_refuse e u =
     yields e u [(Binary, True, [0xC0, 0xAF, 0xFE])] [Inr (Some (MBinary [0xC0, 0xAF, 0xFE]))]"

text \<open>The cases that also ask \<open>a.is_closed()\<close> after the last frame.\<close>

definition yields_closed :: "endian \<Rightarrow> utf8_impl \<Rightarrow> frame list \<Rightarrow> (fault + message option) list \<Rightarrow> bool" where
  "yields_closed e u fs rs =
     (case feeds e u fresh_assembler fs of
        None \<Rightarrow> False
      | Some (results, a) \<Rightarrow> results = rs \<and> assembler_is_closed a)"

definition case_7_1_a_close_with_code_and_reason_parses :: "endian \<Rightarrow> utf8_impl \<Rightarrow> bool" where
  "case_7_1_a_close_with_code_and_reason_parses e u =
     (let body = be_bytes 2 (1000 :: u16) @ ascii ''going away''
      in yields_closed e u [(Close, True, body)]
           [Inr (Some (MClose (Some \<lparr>cf_code = NORMAL, cf_reason = ascii ''going away''\<rparr>)))])"

definition case_7_3_1_an_empty_close_is_legal :: "endian \<Rightarrow> utf8_impl \<Rightarrow> bool" where
  "case_7_3_1_an_empty_close_is_legal e u = yields e u [(Close, True, [])] [Inr (Some (MClose None))]"

definition case_7_3_2_a_one_byte_close_is_a_protocol_error :: "endian \<Rightarrow> utf8_impl \<Rightarrow> bool" where
  "case_7_3_2_a_one_byte_close_is_a_protocol_error e u =
     yields e u [(Close, True, [0x03])] [Inl (ProtocolFault MalformedCloseFrame)]"

definition case_7_5_1_a_close_reason_must_be_utf8 :: "endian \<Rightarrow> utf8_impl \<Rightarrow> bool" where
  "case_7_5_1_a_close_reason_must_be_utf8 e u =
     (let body = be_bytes 2 (1000 :: u16) @ [0xC0, 0xAF]
      in yields e u [(Close, True, body)] [Inl (ProtocolFault InvalidUtf8)])"

definition non_minimal_lengths_are_refused :: bool where
  "non_minimal_lengths_are_refused =
     list_all (\<lambda>wire. header_decode wire (- 1) = Inl InvalidLength)
       [[0x81, 0x7E, 0x00, 0x05], [0x81, 0x7F, 0, 0, 0, 0, 0, 0, 0x01, 0x00], [0x81, 0x7F, 0x80, 0, 0, 0, 0, 0, 0, 0]]"

definition a_frame_over_the_limit_is_refused_from_its_header :: bool where
  "a_frame_over_the_limit_is_refused_from_its_header =
     (header_decode [0x82, 0x7E, 0x03, 0xE8] 100 = Inl FrameTooLarge)"

definition a_message_reassembled_past_the_limit_is_refused :: "utf8_impl \<Rightarrow> bool" where
  "a_message_reassembled_past_the_limit_is_refused u =
     (case assembler_accept u (assembler_new \<lparr>max_frame = 1024, max_message = 8\<rparr>) Binary False (ascii ''12345'') of
        Some (Inr _, a) \<Rightarrow> map_option fst (assembler_accept u a Continuation True (ascii ''6789'')) = Some (Inl MessageTooLarge)
      | _ \<Rightarrow> False)"

definition case_5_2_a_message_in_many_small_fragments_reassembles :: "endian \<Rightarrow> utf8_impl \<Rightarrow> bool" where
  "case_5_2_a_message_in_many_small_fragments_reassembles e u =
     (let text' = ascii ''fragmented''
      in yields e u (fragments Text (map (\<lambda>byte. [byte]) text'))
           (replicate (length text' - 1) (Inr None) @ [Inr (Some (MText (ascii ''fragmented'')))]))"

definition case_5_4_an_empty_fragment_is_legal :: "endian \<Rightarrow> utf8_impl \<Rightarrow> bool" where
  "case_5_4_an_empty_fragment_is_legal e u =
     yields e u [(Text, False, ascii ''a''), (Continuation, False, []), (Continuation, True, ascii ''b'')]
       [Inr None, Inr None, Inr (Some (MText (ascii ''ab'')))]"

text \<open>Here the first fragment is given to the assembler itself.\<close>

definition case_5_8_a_close_may_interrupt_a_fragmented_message :: "endian \<Rightarrow> utf8_impl \<Rightarrow> bool" where
  "case_5_8_a_close_may_interrupt_a_fragmented_message e u =
     (case assembler_accept u fresh_assembler Text False (ascii ''never'') of
        Some (Inr _, a) \<Rightarrow>
          (case feed_frame e u a (Close, True, []) of
             Some (r, a') \<Rightarrow> r = Inr (Some (MClose None)) \<and> assembler_is_closed a'
           | None \<Rightarrow> False)
      | _ \<Rightarrow> False)"

definition a_fragmented_message_may_follow_a_complete_one :: "endian \<Rightarrow> utf8_impl \<Rightarrow> bool" where
  "a_fragmented_message_may_follow_a_complete_one e u =
     (case feeds e u fresh_assembler
             [(Text, True, ascii ''first''), (Text, False, ascii ''sec''), (Continuation, True, ascii ''ond'')] of
        Some ([Inr (Some _), second, third], _) \<Rightarrow>
          second = Inr None \<and> third = Inr (Some (MText (ascii ''second'')))
      | _ \<Rightarrow> False)"

definition case_6_2_the_first_and_last_codepoint_of_each_length_pass :: "endian \<Rightarrow> utf8_impl \<Rightarrow> bool" where
  "case_6_2_the_first_and_last_codepoint_of_each_length_pass e u =
     list_all (\<lambda>c. yields e u [(Text, True, utf8_encode [c])] [Inr (Some (MText (utf8_encode [c])))])
       [0x0, 0x7F, 0x80, 0x7FF, 0x800, 0xFFFF, 0x10000, 0x10FFFF]"

definition case_6_6_a_truncated_sequence_at_the_end_is_refused :: "endian \<Rightarrow> utf8_impl \<Rightarrow> bool" where
  "case_6_6_a_truncated_sequence_at_the_end_is_refused e u =
     list_all (\<lambda>n. utf8_valid (take n kosme)
                  \<or> yields e u [(Text, True, take n kosme)] [Inl (ProtocolFault InvalidUtf8)])
       [1..<length kosme]"

definition case_6_12_a_lone_continuation_byte_is_refused :: "endian \<Rightarrow> utf8_impl \<Rightarrow> bool" where
  "case_6_12_a_lone_continuation_byte_is_refused e u =
     list_all (\<lambda>byte. yields e u [(Text, True, [byte])] [Inl (ProtocolFault InvalidUtf8)]) [0x80, 0xA0, 0xBF]"

definition case_6_14_an_invalid_sequence_split_across_fragments_is_still_refused :: "endian \<Rightarrow> utf8_impl \<Rightarrow> bool" where
  "case_6_14_an_invalid_sequence_split_across_fragments_is_still_refused e u =
     yields e u [(Text, False, [0xF0]), (Continuation, True, [0x80, 0x80, 0xAF])]
       [Inr None, Inl (ProtocolFault InvalidUtf8)]"

definition case_7_3_x_a_close_reason_may_be_any_valid_utf8 :: "endian \<Rightarrow> utf8_impl \<Rightarrow> bool" where
  "case_7_3_x_a_close_reason_may_be_any_valid_utf8 e u =
     (let body = be_bytes 2 (1000 :: u16) @ kosme
      in yields e u [(Close, True, body)] [Inr (Some (MClose (Some \<lparr>cf_code = NORMAL, cf_reason = kosme\<rparr>)))])"

definition case_7_7_every_code_the_registry_allows_is_accepted :: "endian \<Rightarrow> utf8_impl \<Rightarrow> bool" where
  "case_7_7_every_code_the_registry_allows_is_accepted e u =
     list_all (\<lambda>code. yields e u [(Close, True, be_bytes 2 (code :: u16))]
                        [Inr (Some (MClose (Some \<lparr>cf_code = CloseCode code, cf_reason = []\<rparr>)))])
       [1000, 1001, 1002, 1003, 1007, 1008, 1009, 1010, 1011]"

definition a_close_frame_is_at_most_125_bytes :: "endian \<Rightarrow> utf8_impl \<Rightarrow> bool" where
  "a_close_frame_is_at_most_125_bytes e u =
     (let body = be_bytes 2 (1000 :: u16) @ replicate 124 0x78
      in yields e u [(Close, True, body)] [Inl (FrameFault InvalidControlFrame)])"

text \<open>The loop of case 9.x: the pieces from \<open>sent\<close> on, and what \<open>result\<close> holds after the last.\<close>

definition TOTAL :: nat where "TOTAL = 256 * 1024"
definition PIECE :: nat where "PIECE = 4096"

definition large_payload :: bytes where
  "large_payload = map (\<lambda>index. of_nat (index mod 251)) [0..<TOTAL]"

function large_loop ::
    "endian \<Rightarrow> utf8_impl \<Rightarrow> assembler \<Rightarrow> nat \<Rightarrow> message option \<Rightarrow> (fault + message option) option" where
  "large_loop e u a sent result =
     (if sent < TOTAL then
        let end' = min (sent + PIECE) TOTAL;
            last' = (end' = TOTAL);
            op = (if sent = 0 then Binary else Continuation)
        in case feed_frame e u a (op, last', take (end' - sent) (drop sent large_payload)) of
             None \<Rightarrow> None
           | Some (Inl f, _) \<Rightarrow> Some (Inl f)
           | Some (Inr r, a') \<Rightarrow> large_loop e u a' end' r
      else Some (Inr result))"
  by pat_completeness auto

termination large_loop
  by (relation "measure (\<lambda>(e, u, a, sent, result). TOTAL - sent)") (auto simp: PIECE_def)

definition case_9_x_large_messages_survive_fragmentation :: "endian \<Rightarrow> utf8_impl \<Rightarrow> bool" where
  "case_9_x_large_messages_survive_fragmentation e u =
     (let a = assembler_new \<lparr>max_frame = 1024 * 1024, max_message = 1024 * 1024\<rparr>
      in large_loop e u a 0 None = Some (Inr (Some (MBinary large_payload))))"

section \<open>Section 6 in bulk\<close>

definition MALFORMED :: "(string \<times> bytes) list" where
  "MALFORMED =
    [(''lone continuation byte'', [0x80]),
     (''lone continuation byte, high'', [0xBF]),
     (''two continuation bytes'', [0x80, 0xBF]),
     (''lone start, two byte'', [0xC2]),
     (''lone start, three byte'', [0xE0]),
     (''lone start, four byte'', [0xF0]),
     (''truncated two byte'', [0xC2, 0x41]),
     (''truncated three byte'', [0xE0, 0xA0, 0x41]),
     (''truncated four byte'', [0xF0, 0x90, 0x80, 0x41]),
     (''overlong solidus, two byte'', [0xC0, 0xAF]),
     (''overlong solidus, three byte'', [0xE0, 0x80, 0xAF]),
     (''overlong solidus, four byte'', [0xF0, 0x80, 0x80, 0xAF]),
     (''overlong nul, two byte'', [0xC0, 0x80]),
     (''overlong nul, three byte'', [0xE0, 0x80, 0x80]),
     (''overlong nul, four byte'', [0xF0, 0x80, 0x80, 0x80]),
     (''maximum overlong, two byte'', [0xC1, 0xBF]),
     (''maximum overlong, three byte'', [0xE0, 0x9F, 0xBF]),
     (''maximum overlong, four byte'', [0xF0, 0x8F, 0xBF, 0xBF]),
     (''surrogate D800'', [0xED, 0xA0, 0x80]),
     (''surrogate DBFF'', [0xED, 0xAF, 0xBF]),
     (''surrogate DC00'', [0xED, 0xB0, 0x80]),
     (''surrogate DFFF'', [0xED, 0xBF, 0xBF]),
     (''paired surrogates'', [0xED, 0xA0, 0x80, 0xED, 0xB0, 0x80]),
     (''beyond U+10FFFF'', [0xF4, 0x90, 0x80, 0x80]),
     (''five byte sequence'', [0xF8, 0x88, 0x80, 0x80, 0x80]),
     (''six byte sequence'', [0xFC, 0x84, 0x80, 0x80, 0x80, 0x80]),
     (''0xFE is never valid'', [0xFE]),
     (''0xFF is never valid'', [0xFF]),
     (''0xFE 0xFF'', [0xFE, 0xFF])]"

definition case_6_3_to_6_21_every_malformed_sequence_is_refused :: "endian \<Rightarrow> utf8_impl \<Rightarrow> bool" where
  "case_6_3_to_6_21_every_malformed_sequence_is_refused e u =
     list_all (\<lambda>(name, payload). yields e u [(Text, True, payload)] [Inl (ProtocolFault InvalidUtf8)]) MALFORMED"

definition filler :: bytes where
  "filler = concat (replicate 8 (ascii ''The quick brown fox jumps over the lazy dog. ''))"

definition a_malformed_sequence_is_refused_wherever_it_sits :: "endian \<Rightarrow> utf8_impl \<Rightarrow> bool" where
  "a_malformed_sequence_is_refused_wherever_it_sits e u =
     list_all (\<lambda>(name, bad).
       list_all (\<lambda>position.
         yields e u [(Text, True, take position filler @ bad @ drop position filler)] [Inl (ProtocolFault InvalidUtf8)])
         [0, length filler div 2, length filler]) MALFORMED"

definition a_malformed_sequence_is_refused_in_a_close_reason :: "endian \<Rightarrow> utf8_impl \<Rightarrow> bool" where
  "a_malformed_sequence_is_refused_in_a_close_reason e u =
     list_all (\<lambda>(name, bad).
       123 < length bad
       \<or> yields e u [(Close, True, be_bytes 2 (1000 :: u16) @ bad)] [Inl (ProtocolFault InvalidUtf8)]) MALFORMED"

definition a_malformed_sequence_is_refused_across_a_fragment_boundary :: "endian \<Rightarrow> utf8_impl \<Rightarrow> bool" where
  "a_malformed_sequence_is_refused_across_a_fragment_boundary e u =
     list_all (\<lambda>(name, bad).
       length bad < 2
       \<or> (let split = length bad div 2
           in yields e u [(Text, False, take split bad), (Continuation, True, drop split bad)]
                [Inr None, Inl (ProtocolFault InvalidUtf8)])) MALFORMED"

definition every_valid_codepoint_class_passes_where_the_bad_ones_fail :: "endian \<Rightarrow> utf8_impl \<Rightarrow> bool" where
  "every_valid_codepoint_class_passes_where_the_bad_ones_fail e u =
     list_all (\<lambda>(name, s). yields e u [(Text, True, s)] [Inr (Some (MText s))])
       [(''ascii'', ascii ''hello world''),
        (''two byte'', utf8_encode [0x80, 0x7FF]),
        (''three byte'', utf8_encode [0x800, 0xFFFF]),
        (''four byte'', utf8_encode [0x10000, 0x10FFFF]),
        (''greek'', kosme),
        (''nul'', utf8_encode [0x0]),
        (''replacement character'', utf8_encode [0xFFFD]),
        (''just below a surrogate'', utf8_encode [0xD7FF]),
        (''just above a surrogate'', utf8_encode [0xE000]),
        (''non-characters are valid utf8'', utf8_encode [0xFFFE, 0xFFFF])]"

section \<open>Section 1 in bulk\<close>

definition SECTION_1_SIZES :: "nat list" where
  "SECTION_1_SIZES = [0, 1, 125, 126, 127, 128, 65535, 65536]"

definition AUTOBAHN_FRAGMENT :: nat where "AUTOBAHN_FRAGMENT = 4096"

text \<open>\<open>cycle().take(size)\<close>.\<close>

definition payload_of :: "nat \<Rightarrow> bytes" where
  "payload_of n = (let s = ascii ''Hello, world! '' in map (\<lambda>i. s ! (i mod length s)) [0..<n])"

definition expected_message :: "opcode \<Rightarrow> bytes \<Rightarrow> message option" where
  "expected_message kind payload =
     (case kind of Text \<Rightarrow> Some (MText payload) | Binary \<Rightarrow> Some (MBinary payload) | _ \<Rightarrow> None)"

definition case_1_1_1_to_1_2_8_every_size_survives_whole :: "endian \<Rightarrow> utf8_impl \<Rightarrow> bool" where
  "case_1_1_1_to_1_2_8_every_size_survives_whole e u =
     list_all (\<lambda>kind. list_all (\<lambda>n.
       let payload = payload_of n
       in (case expected_message kind payload of
             None \<Rightarrow> False
           | Some m \<Rightarrow> yields e u [(kind, True, payload)] [Inr (Some m)])) SECTION_1_SIZES) [Text, Binary]"

text \<open>\<open>slice::chunks\<close>.\<close>

function slice_chunks :: "nat \<Rightarrow> bytes \<Rightarrow> bytes list" where
  "slice_chunks n xs = (if n = 0 \<or> xs = [] then [] else take n xs # slice_chunks n (drop n xs))"
  by pat_completeness auto

termination slice_chunks
  by (relation "measure (\<lambda>(n, xs). length xs)") auto

definition case_1_1_1_to_1_2_8_every_size_survives_fragmentation :: "endian \<Rightarrow> utf8_impl \<Rightarrow> bool" where
  "case_1_1_1_to_1_2_8_every_size_survives_fragmentation e u =
     list_all (\<lambda>kind. list_all (\<lambda>n.
       let payload = payload_of n;
           chunks = (if payload = [] then [[]] else slice_chunks AUTOBAHN_FRAGMENT payload)
       in (case expected_message kind payload of
             None \<Rightarrow> False
           | Some m \<Rightarrow>
               yields e u (fragments kind chunks) (replicate (length chunks - 1) (Inr None) @ [Inr (Some m)])))
       SECTION_1_SIZES) [Text, Binary]"

section \<open>Section 2 in bulk\<close>

definition case_2_3_and_2_4_a_ping_may_carry_the_full_125_bytes :: "endian \<Rightarrow> utf8_impl \<Rightarrow> bool" where
  "case_2_3_and_2_4_a_ping_may_carry_the_full_125_bytes e u =
     list_all (\<lambda>n. yields e u [(Ping, True, replicate n 0xA5)] [Inr (Some (MPing (replicate n 0xA5)))])
       [0, 1, 124, 125]"

definition case_2_5_a_ping_over_125_bytes_is_refused :: "endian \<Rightarrow> utf8_impl \<Rightarrow> bool" where
  "case_2_5_a_ping_over_125_bytes_is_refused e u =
     list_all (\<lambda>n. yields e u [(Ping, True, replicate n 0)] [Inl (FrameFault InvalidControlFrame)]) [126, 127, 1024]"

definition case_2_6_a_ping_payload_may_be_arbitrary_bytes :: "endian \<Rightarrow> utf8_impl \<Rightarrow> bool" where
  "case_2_6_a_ping_payload_may_be_arbitrary_bytes e u =
     (let payload = take 125 (map of_nat [0..<256]) in yields e u [(Ping, True, payload)] [Inr (Some (MPing payload))])"

definition case_2_7_an_unsolicited_pong_is_accepted_and_answers_nothing :: "endian \<Rightarrow> utf8_impl \<Rightarrow> bool" where
  "case_2_7_an_unsolicited_pong_is_accepted_and_answers_nothing e u =
     yields e u [(Pong, True, ascii ''unsolicited'')] [Inr (Some (MPong (ascii ''unsolicited'')))]"

definition case_2_8_an_unsolicited_pong_does_not_disturb_a_later_ping :: "endian \<Rightarrow> utf8_impl \<Rightarrow> bool" where
  "case_2_8_an_unsolicited_pong_does_not_disturb_a_later_ping e u =
     yields e u [(Pong, True, ascii ''first''), (Ping, True, ascii ''second'')]
       [Inr (Some (MPong (ascii ''first''))), Inr (Some (MPing (ascii ''second'')))]"

definition case_2_10_and_2_11_pings_arrive_in_order :: "endian \<Rightarrow> utf8_impl \<Rightarrow> bool" where
  "case_2_10_and_2_11_pings_arrive_in_order e u =
     (let payloads = map (\<lambda>index. [of_nat index]) [0..<10]
      in yields e u (map (\<lambda>p. (Ping, True, p)) payloads) (map (\<lambda>p. Inr (Some (MPing p))) payloads))"

section \<open>Section 5 in bulk\<close>

text \<open>The frames of the message with a ping after the fragment at the boundary, and what is expected of
  each: nothing of a fragment but the last, the ping where it stands.\<close>

definition case_5_6_to_5_20_a_control_frame_may_sit_at_any_fragment_boundary :: "endian \<Rightarrow> utf8_impl \<Rightarrow> bool" where
  "case_5_6_to_5_20_a_control_frame_may_sit_at_any_fragment_boundary e u =
     (let pieces = [ascii ''frag'', ascii ''ment'', ascii ''ed m'', ascii ''essage'']; joined = concat pieces
      in list_all (\<lambda>boundary.
           let steps = concat (map (\<lambda>(index, f).
                 (f, if index = length pieces - 1 then Inr (Some (MText joined)) else Inr None)
                 # (if index = boundary
                    then [((Ping, True, ascii ''probe''), Inr (Some (MPing (ascii ''probe''))))]
                    else [])) (enumerate 0 (fragments Text pieces)))
           in yields e u (map fst steps) (map snd steps)) [0..<length pieces - 1])"

definition case_5_6_to_5_20_several_control_frames_may_sit_at_one_boundary :: "endian \<Rightarrow> utf8_impl \<Rightarrow> bool" where
  "case_5_6_to_5_20_several_control_frames_may_sit_at_one_boundary e u =
     (let x = ascii ''x'';
          probes = map (\<lambda>op. ((op, True, x), Inr (Some (if op = Ping then MPing x else MPong x)))) [Ping, Pong, Ping]
      in yields e u ([(Text, False, ascii ''a'')] @ map fst probes @ [(Continuation, True, ascii ''b'')])
           ([Inr None] @ map snd probes @ [Inr (Some (MText (ascii ''ab'')))]))"

definition case_5_15_a_continuation_after_a_completed_message_is_a_protocol_error :: "endian \<Rightarrow> utf8_impl \<Rightarrow> bool" where
  "case_5_15_a_continuation_after_a_completed_message_is_a_protocol_error e u =
     yields e u [(Text, False, ascii ''a''), (Continuation, True, ascii ''b''), (Continuation, True, ascii ''c'')]
       [Inr None, Inr (Some (MText (ascii ''ab''))), Inl (ProtocolFault UnexpectedContinuation)]"

definition case_5_16_to_5_17_a_continuation_before_anything_is_a_protocol_error :: "endian \<Rightarrow> utf8_impl \<Rightarrow> bool" where
  "case_5_16_to_5_17_a_continuation_before_anything_is_a_protocol_error e u =
     list_all (\<lambda>fin. yields e u [(Continuation, fin, ascii ''x'')] [Inl (ProtocolFault UnexpectedContinuation)])
       [True, False]"

definition case_5_18_to_5_20_a_data_frame_during_a_fragment_is_a_protocol_error :: "endian \<Rightarrow> utf8_impl \<Rightarrow> bool" where
  "case_5_18_to_5_20_a_data_frame_during_a_fragment_is_a_protocol_error e u =
     list_all (\<lambda>open. list_all (\<lambda>interloper. list_all (\<lambda>fin.
       yields e u [(open, False, ascii ''a''), (interloper, fin, ascii ''b'')]
         [Inr None, Inl (ProtocolFault InterleavedDataFrame)]) [True, False]) [Text, Binary]) [Text, Binary]"

section \<open>Section 7 in bulk\<close>

definition case_7_3_x_a_close_body_may_be_empty_a_code_or_a_code_and_reason :: "endian \<Rightarrow> utf8_impl \<Rightarrow> bool" where
  "case_7_3_x_a_close_body_may_be_empty_a_code_or_a_code_and_reason e u =
     (yields e u [(Close, True, [])] [Inr (Some (MClose None))]
      \<and> list_all (\<lambda>(name, reason_len).
           let reason = replicate reason_len 0x79
           in yields e u [(Close, True, be_bytes 2 (1000 :: u16) @ reason)]
                [Inr (Some (MClose (Some \<lparr>cf_code = NORMAL, cf_reason = reason\<rparr>)))])
          [(''code alone'', 0), (''short reason'', 5), (''largest reason'', 123)])"

definition sendable :: "u16 \<Rightarrow> bool" where
  "sendable code \<longleftrightarrow>
     (1000 \<le> code \<and> code \<le> 1003) \<or> (1007 \<le> code \<and> code \<le> 1011) \<or> (3000 \<le> code \<and> code \<le> 3999)
     \<or> (4000 \<le> code \<and> code \<le> 4999)"

definition interesting :: "u16 list" where
  "interesting = map of_nat [0..<1021] @ [1100, 2000, 2999, 3000, 3001, 3999, 4000, 4001, 4999, 5000, 65535]"

definition case_7_7_and_7_9_the_registry_decides_every_code :: "endian \<Rightarrow> utf8_impl \<Rightarrow> bool" where
  "case_7_7_and_7_9_the_registry_decides_every_code e u =
     list_all (\<lambda>code. yields e u [(Close, True, be_bytes 2 code)]
       [if sendable code then Inr (Some (MClose (Some \<lparr>cf_code = CloseCode code, cf_reason = []\<rparr>)))
        else Inl (ProtocolFault InvalidCloseCode)]) interesting"

definition case_7_9_x_a_code_is_judged_before_its_reason :: "endian \<Rightarrow> utf8_impl \<Rightarrow> bool" where
  "case_7_9_x_a_code_is_judged_before_its_reason e u =
     list_all (\<lambda>code. yields e u [(Close, True, be_bytes 2 (code :: u16) @ ascii ''a perfectly good reason'')]
                        [Inl (ProtocolFault InvalidCloseCode)])
       [0, 999, 1004, 1005, 1006, 1015, 1016, 2000, 5000]"

definition case_7_1_2_a_second_close_is_discarded :: "endian \<Rightarrow> utf8_impl \<Rightarrow> bool" where
  "case_7_1_2_a_second_close_is_discarded e u =
     (case feed_frame e u fresh_assembler (Close, True, be_bytes 2 (1000 :: u16)) of
        None \<Rightarrow> False
      | Some (first, a) \<Rightarrow>
          first = Inr (Some (MClose (Some \<lparr>cf_code = NORMAL, cf_reason = []\<rparr>))) \<and> assembler_is_closed a
          \<and> map_option fst (feed_frame e u a (Close, True, be_bytes 2 (1001 :: u16))) = Some (Inr None))"

definition case_7_1_3_to_7_1_5_anything_after_a_close_is_discarded :: "endian \<Rightarrow> utf8_impl \<Rightarrow> bool" where
  "case_7_1_3_to_7_1_5_anything_after_a_close_is_discarded e u =
     list_all (\<lambda>(name, op).
       case feeds e u fresh_assembler [(Close, True, be_bytes 2 (1000 :: u16)), (op, True, ascii ''ignored'')] of
         Some ([Inr _, second], _) \<Rightarrow> second = Inr None
       | _ \<Rightarrow> False)
       [(''a ping'', Ping), (''a pong'', Pong), (''a text message'', Text), (''a binary message'', Binary)]"

definition case_7_1_5_a_close_abandons_a_fragmented_message :: "endian \<Rightarrow> utf8_impl \<Rightarrow> bool" where
  "case_7_1_5_a_close_abandons_a_fragmented_message e u =
     (case feeds e u fresh_assembler
             [(Text, False, ascii ''half''), (Close, True, be_bytes 2 (1000 :: u16)), (Continuation, True, ascii '' sent'')] of
        Some ([first, Inr _, third], _) \<Rightarrow> first = Inr None \<and> third = Inr None
      | _ \<Rightarrow> False)"

section \<open>Sections 3 and 4 in bulk\<close>

definition EVERY_OPCODE :: "opcode list" where
  "EVERY_OPCODE = [Continuation, Text, Binary, Close, Ping, Pong]"

text \<open>A frame whose first byte is changed before it is fed: \<open>wire[0] |= encoded\<close> and \<open>wire[0] = byte\<close>.\<close>

definition feed_changed :: "endian \<Rightarrow> utf8_impl \<Rightarrow> assembler \<Rightarrow> (u8 \<Rightarrow> u8) \<Rightarrow> frame \<Rightarrow> fed" where
  "feed_changed e u a change f =
     (case f of (op, fin, payload) \<Rightarrow>
        Option.bind (frame_of e op fin payload) (\<lambda>wire. feed e u a (wire[0 := change (wire ! 0)])))"

definition case_3_1_to_3_7_every_combination_of_reserved_bits_is_refused :: "endian \<Rightarrow> utf8_impl \<Rightarrow> bool" where
  "case_3_1_to_3_7_every_combination_of_reserved_bits_is_refused e u =
     list_all (\<lambda>bits. let encoded = push_bit 4 (bits :: u8)
       in list_all (\<lambda>op. map_option fst (feed_changed e u fresh_assembler (\<lambda>b. b OR encoded) (op, True, ascii ''x''))
                           = Some (Inl (FrameFault ReservedBitSet))) EVERY_OPCODE) [1, 2, 3, 4, 5, 6, 7]"

definition case_3_x_a_reserved_bit_is_refused_before_anything_else_is_judged :: "endian \<Rightarrow> utf8_impl \<Rightarrow> bool" where
  "case_3_x_a_reserved_bit_is_refused_before_anything_else_is_judged e u =
     (case feed_changed e u fresh_assembler (\<lambda>b. b OR 0x40) (Continuation, True, ascii ''x'') of
        None \<Rightarrow> False
      | Some (r, a) \<Rightarrow>
          r = Inl (FrameFault ReservedBitSet)
          \<and> map_option fst (feed_changed e u a (\<lambda>b. b OR 0x20) (Text, True, [0xFF])) = Some (Inl (FrameFault ReservedBitSet)))"

definition case_3_x_a_reserved_bit_is_refused_inside_a_fragmented_message :: "endian \<Rightarrow> utf8_impl \<Rightarrow> bool" where
  "case_3_x_a_reserved_bit_is_refused_inside_a_fragmented_message e u =
     (case feed_frame e u fresh_assembler (Text, False, ascii ''a'') of
        None \<Rightarrow> False
      | Some (r, a) \<Rightarrow>
          r = Inr None
          \<and> map_option fst (feed_changed e u a (\<lambda>b. b OR 0x40) (Continuation, True, ascii ''b''))
              = Some (Inl (FrameFault ReservedBitSet)))"

definition case_4_1_x_and_4_2_x_every_reserved_opcode_is_refused_either_way :: "endian \<Rightarrow> utf8_impl \<Rightarrow> bool" where
  "case_4_1_x_and_4_2_x_every_reserved_opcode_is_refused_either_way e u =
     list_all (\<lambda>op. list_all (\<lambda>fin.
       map_option fst (feed_changed e u fresh_assembler (\<lambda>_. (if fin then 0x80 else 0x00) OR op) (Text, fin, ascii ''x''))
         = Some (Inl (FrameFault (ReservedOpCode op)))) [True, False])
       [0x3, 0x4, 0x5, 0x6, 0x7, 0xB, 0xC, 0xD, 0xE, 0xF]"

definition case_4_x_a_reserved_opcode_is_refused_inside_a_fragmented_message :: "endian \<Rightarrow> utf8_impl \<Rightarrow> bool" where
  "case_4_x_a_reserved_opcode_is_refused_inside_a_fragmented_message e u =
     list_all (\<lambda>op.
       case feed_frame e u fresh_assembler (Text, False, ascii ''a'') of
         None \<Rightarrow> False
       | Some (r, a) \<Rightarrow>
           r = Inr None
           \<and> map_option fst (feed_changed e u a (\<lambda>_. 0x80 OR op) (Text, True, ascii ''b''))
               = Some (Inl (FrameFault (ReservedOpCode op)))) [0x3, 0xB]"

end
