(* ===== verification/Conformance_Suite.thy ===== *)
theory Conformance_Suite
  imports Conformance_Cases
begin

text \<open>
  Every case of the conformance suite holds of the model. Where a case samples a rule (a table of bad
  sequences, a list of sizes or of codes), the rule is proved in general and the case is an instance: a
  malformed sequence spoils any text around it, a payload of any size survives any fragmentation, every
  close code is judged by the registry, and a reserved bit or opcode is refused whatever else the frame holds.
\<close>

section \<open>The cases hold\<close>

text \<open>The UTF-8 literals of the suite.\<close>

lemma utf8_valid_literal: "list_all is_scalar cs \<Longrightarrow> utf8_valid (utf8_encode cs)"
  using utf8_valid_encode [of cs "[]"] by simp

lemma length_utf8_encode: "length (utf8_encode cs) \<le> 4 * length cs"
  by (induction cs) (simp_all add: utf8_encode_def encode_scalar_def)

lemma kosme_valid: "utf8_valid kosme"
  unfolding kosme_def by (rule utf8_valid_literal) (simp add: is_scalar_def)

lemma length_kosme: "length kosme = 10"
  by (simp add: kosme_def utf8_encode_def encode_scalar_def)

lemmas literal_simps = utf8_valid_literal is_scalar_def length_utf8_encode [THEN le_trans] kosme_valid length_kosme
  ascii_def utf8_valid.simps(2)

text \<open>Evaluation of a case frame by frame, for those that mix kinds of frames.\<close>

lemmas case_eval = yields_def yields_closed_def feeds.simps feed_frame_eq control_legal_def default_max_message accept_defs
  saturating_len_def assembler_new_def utf8_eval parse_close_body_def

context utf8_build
begin

lemma section_1_cases:
  "case_1_1_text_message_echoes e u" "case_1_2_binary_message_echoes e u" "an_empty_payload_is_still_a_message e u"
  using yields_binary [of "[p]" e u rs for p rs]
  by (simp_all add: case_1_1_text_message_echoes_def case_1_2_binary_message_echoes_def
    an_empty_payload_is_still_a_message_def yields_text_whole literal_simps)

lemma section_2_cases:
  "case_2_1_ping_payload_is_returned_verbatim e u" "case_2_5_a_fragmented_ping_is_a_protocol_error e u"
  by (simp_all add: case_2_1_ping_payload_is_returned_verbatim_def case_2_5_a_fragmented_ping_is_a_protocol_error_def
    yields_probe yields_control_illegal ascii_def)

lemma section_5_cases:
  "case_5_1_a_fragmented_message_reassembles e u"
  "case_5_2_a_message_in_many_small_fragments_reassembles e u"
  "case_5_4_an_empty_fragment_is_legal e u"
  "case_5_8_a_close_may_interrupt_a_fragmented_message e u"
  "a_fragmented_message_may_follow_a_complete_one e u"
proof -
  show "case_5_1_a_fragmented_message_reassembles e u"
    by (simp add: case_5_1_a_fragmented_message_reassembles_def yields_text_pair literal_simps)
  have "concat (map (\<lambda>b. [b]) bs) = bs" for bs :: bytes
    by (induction bs) auto
  then show "case_5_2_a_message_in_many_small_fragments_reassembles e u"
    by (simp add: case_5_2_a_message_in_many_small_fragments_reassembles_def Let_def yields_text literal_simps)
  show "case_5_4_an_empty_fragment_is_legal e u"
    using yields_text [of "[ascii ''a'', [], ascii ''b'']" e]
    by (simp add: case_5_4_an_empty_fragment_is_legal_def fragments_def literal_simps)
  show "case_5_8_a_close_may_interrupt_a_fragmented_message e u"
    by (simp add: case_5_8_a_close_may_interrupt_a_fragmented_message_def case_eval ascii_def)
  show "a_fragmented_message_may_follow_a_complete_one e u"
    by (simp add: a_fragmented_message_may_follow_a_complete_one_def case_eval is_utf8_iff ascii_def)
qed

lemma section_6_cases:
  "case_6_1_valid_utf8_passes e u"
  "case_6_2_the_first_and_last_codepoint_of_each_length_pass e u"
  "case_6_3_invalid_utf8_fails_the_connection e u"
  "case_6_4_utf8_split_across_fragments_is_judged_whole e u"
  "binary_carries_bytes_text_would_refuse e u"
  "case_6_6_a_truncated_sequence_at_the_end_is_refused e u"
  "case_6_12_a_lone_continuation_byte_is_refused e u"
  "case_6_14_an_invalid_sequence_split_across_fragments_is_still_refused e u"
proof -
  show "case_6_1_valid_utf8_passes e u"
    by (simp add: case_6_1_valid_utf8_passes_def yields_text_whole literal_simps)
  have "is_scalar c \<Longrightarrow> yields e u [(Text, True, utf8_encode [c])] [Inr (Some (MText (utf8_encode [c])))]" for c
    using length_utf8_encode [of "[c]"] utf8_valid_literal [of "[c]"] by (simp add: yields_text_whole)
  then show "case_6_2_the_first_and_last_codepoint_of_each_length_pass e u"
    by (simp add: case_6_2_the_first_and_last_codepoint_of_each_length_pass_def is_scalar_def)
  show "case_6_3_invalid_utf8_fails_the_connection e u" "case_6_12_a_lone_continuation_byte_is_refused e u"
    by (simp_all add: case_6_3_invalid_utf8_fails_the_connection_def case_6_12_a_lone_continuation_byte_is_refused_def
      yields_text_whole utf8_eval)
  show "case_6_4_utf8_split_across_fragments_is_judged_whole e u"
    using length_utf8_encode [of "[0x20AC]"] utf8_valid_literal [of "[0x20AC]"]
    by (simp add: case_6_4_utf8_split_across_fragments_is_judged_whole_def Let_def yields_text_pair is_scalar_def
      del: length_append)
  show "binary_carries_bytes_text_would_refuse e u"
    using yields_binary [of "[[0xC0, 0xAF, 0xFE]]" e u] by (simp add: binary_carries_bytes_text_would_refuse_def)
  show "case_6_6_a_truncated_sequence_at_the_end_is_refused e u"
    by (simp add: case_6_6_a_truncated_sequence_at_the_end_is_refused_def list_all_iff yields_text_whole length_kosme)
  show "case_6_14_an_invalid_sequence_split_across_fragments_is_still_refused e u"
    by (simp add: case_6_14_an_invalid_sequence_split_across_fragments_is_still_refused_def yields_text_pair utf8_eval)
qed

lemma section_7_cases:
  "case_7_1_a_close_with_code_and_reason_parses e u"
  "case_7_3_1_an_empty_close_is_legal e u"
  "case_7_3_2_a_one_byte_close_is_a_protocol_error e u"
  "case_7_5_1_a_close_reason_must_be_utf8 e u"
  "case_7_3_x_a_close_reason_may_be_any_valid_utf8 e u"
  "case_7_7_every_code_the_registry_allows_is_accepted e u"
  "a_close_frame_is_at_most_125_bytes e u"
proof -
  show "case_7_3_1_an_empty_close_is_legal e u" "case_7_3_2_a_one_byte_close_is_a_protocol_error e u"
    by (simp_all add: case_7_3_1_an_empty_close_is_legal_def case_7_3_2_a_one_byte_close_is_a_protocol_error_def case_eval)
qed (simp_all add: case_7_1_a_close_with_code_and_reason_parses_def yields_closed_def accept_close feed_frame_eq
    control_legal_def case_7_5_1_a_close_reason_must_be_utf8_def case_7_3_x_a_close_reason_may_be_any_valid_utf8_def
    case_7_7_every_code_the_registry_allows_is_accepted_def a_close_frame_is_at_most_125_bytes_def
    yields_close yields_close_code yields_control_illegal literal_simps is_sendable_def NORMAL_def utf8_eval)

end

lemma length_cases:
  "non_minimal_lengths_are_refused" "a_frame_over_the_limit_is_refused_from_its_header"
  by code_simp+

lemma limit_case: "a_message_reassembled_past_the_limit_is_refused u"
  by (simp add: a_message_reassembled_past_the_limit_is_refused_def accept_defs saturating_len_def assembler_new_def ascii_def)

section \<open>Malformed sequences\<close>

lemma utf8_valid_not_cont: "utf8_valid (t # ts) \<Longrightarrow> \<not> utf8_cont t"
  by (auto simp: utf8_valid.simps(2) utf8_cont_def word_le_nat_alt word_less_nat_alt split: if_splits)

text \<open>The table is bad in the strong sense: no valid text before or after a sequence of it makes the whole
  valid, because a valid text does not start with a continuation byte.\<close>

lemma malformed_bad:
  assumes "bad \<in> set (map snd MALFORMED)" and "post = [] \<or> \<not> utf8_cont (hd post)"
  shows "\<not> utf8_valid (bad @ post)"
proof (cases post)
  case Nil
  then show ?thesis
    using assms(1) by (auto simp: MALFORMED_def utf8_eval)
next
  case (Cons t ts)
  then have "\<not> utf8_cont t"
    using assms(2) by simp
  then show ?thesis
    by (insert assms(1), simp only: MALFORMED_def Cons list.map prod.sel list.set insert_iff empty_iff simp_thms,
      elim disjE; auto simp: utf8_eval word_le_nat_alt word_less_nat_alt word_unat_eq_iff split: list.split)
qed

lemma malformed_anywhere:
  assumes "bad \<in> set (map snd MALFORMED)" and "utf8_valid pre" and "utf8_valid post"
  shows "\<not> utf8_valid (pre @ bad @ post)"
proof -
  have "post = [] \<or> \<not> utf8_cont (hd post)"
    using assms(3) utf8_valid_not_cont by (cases post) auto
  then show ?thesis
    using malformed_bad [OF assms(1)] by (simp add: utf8_valid_append [OF assms(2)])
qed

lemma malformed_length: "bad \<in> set (map snd MALFORMED) \<Longrightarrow> length bad \<le> 6"
  by (auto simp: MALFORMED_def)

lemma filler_valid: "utf8_valid filler" "length filler = 360"
  "utf8_valid (take 180 filler)" "utf8_valid (drop 180 filler)"
proof -
  have "list_all (\<lambda>b. b < 0x80) (ascii ''The quick brown fox jumps over the lazy dog. '')"
    by (simp add: ascii_def)
  then have ascii: "list_all (\<lambda>b. b < 0x80) filler"
    by (auto simp: filler_def list_all_iff)
  then show "utf8_valid filler"
    by (rule ascii_utf8_valid)
  show "length filler = 360"
    by (simp add: filler_def length_concat map_replicate sum_list_replicate ascii_def del: replicate_numeral)
  show "utf8_valid (take 180 filler)" "utf8_valid (drop 180 filler)"
    using ascii by (auto intro!: ascii_utf8_valid simp: list_all_iff) (meson in_set_takeD in_set_dropD)+
qed

context utf8_build
begin

lemma malformed_cases:
  "case_6_3_to_6_21_every_malformed_sequence_is_refused e u"
  "a_malformed_sequence_is_refused_wherever_it_sits e u"
  "a_malformed_sequence_is_refused_in_a_close_reason e u"
  "a_malformed_sequence_is_refused_across_a_fragment_boundary e u"
proof -
  have bad: "bad \<in> set (map snd MALFORMED)" "length bad \<le> 6" "\<not> utf8_valid bad" if m: "(name, bad) \<in> set MALFORMED" for name bad
    using malformed_length malformed_anywhere [of bad "[]" "[]"] that by (force)+
  show "case_6_3_to_6_21_every_malformed_sequence_is_refused e u"
    using bad by (fastforce simp: case_6_3_to_6_21_every_malformed_sequence_is_refused_def list_all_iff yields_text_whole)
  have at: "yields e u [(Text, True, take n filler @ bad @ drop n filler)] [Inl (ProtocolFault InvalidUtf8)]"
    if "(name, bad) \<in> set MALFORMED" "n = 0 \<or> n = 180 \<or> n = 360" for name bad n
  proof -
    have "utf8_valid (take n filler)" "utf8_valid (drop n filler)"
      using that(2) filler_valid by auto
    then have "\<not> utf8_valid (take n filler @ bad @ drop n filler)"
      using malformed_anywhere bad(1) [OF that(1)] by blast
    then show ?thesis
      using bad(2) [OF that(1)] filler_valid(2) by (simp add: yields_text_whole)
  qed
  show "a_malformed_sequence_is_refused_wherever_it_sits e u"
    using at [of _ _ 0] at [of _ _ 180] at [of _ _ 360]
    by (auto simp: a_malformed_sequence_is_refused_wherever_it_sits_def list_all_iff filler_valid(2))
  show "a_malformed_sequence_is_refused_in_a_close_reason e u"
    using bad(2,3)
    by (fastforce simp: a_malformed_sequence_is_refused_in_a_close_reason_def list_all_iff yields_close is_sendable_def)
  show "a_malformed_sequence_is_refused_across_a_fragment_boundary e u"
    using bad(2,3)
    by (fastforce simp: a_malformed_sequence_is_refused_across_a_fragment_boundary_def list_all_iff Let_def yields_text_pair
      simp del: length_append)
qed

lemma valid_classes_case: "every_valid_codepoint_class_passes_where_the_bad_ones_fail e u"
  by (simp add: every_valid_codepoint_class_passes_where_the_bad_ones_fail_def yields_text_whole literal_simps)

end


section \<open>Sizes\<close>

lemma length_payload_of: "length (payload_of n) = n"
  by (simp add: payload_of_def Let_def)

lemma payload_of_valid: "utf8_valid (payload_of n)"
proof (rule ascii_utf8_valid)
  let ?s = "ascii ''Hello, world! ''"
  have s: "list_all (\<lambda>b. b < 0x80) ?s" and len: "0 < length ?s"
    by (simp_all add: ascii_def)
  have "?s ! (i mod length ?s) < 0x80" for i
    using s len unfolding list_all_length by simp
  then show "list_all (\<lambda>b. b < 0x80) (payload_of n)"
    unfolding payload_of_def Let_def by (simp only: list_all_iff set_map ball_simps) simp
qed

declare slice_chunks.simps [simp del]

lemma slice_chunks_concat: "0 < n \<Longrightarrow> concat (slice_chunks n xs) = xs"
  by (induction n xs rule: slice_chunks.induct) (subst slice_chunks.simps, auto)

lemma slice_chunks_nonempty: "0 < n \<Longrightarrow> xs \<noteq> [] \<Longrightarrow> slice_chunks n xs \<noteq> []"
  by (subst slice_chunks.simps) simp

text \<open>A payload of any size up to the limit survives, whole or in pieces of any size.\<close>

definition survives :: "endian \<Rightarrow> utf8_impl \<Rightarrow> opcode \<Rightarrow> bytes list \<Rightarrow> bool" where
  "survives e u kind cs =
     yields e u (fragments kind cs) (replicate (length cs - 1) (Inr None) @ [Inr (Some (data_message kind (concat cs)))])"

context utf8_build
begin

lemma survives_data:
  "cs \<noteq> [] \<Longrightarrow> length (concat cs) \<le> 16777216 \<Longrightarrow> kind = Binary \<or> kind = Text \<and> utf8_valid (concat cs) \<Longrightarrow>
   survives e u kind cs"
  by (auto simp: survives_def yields_binary yields_text)

lemma section_1_sizes:
  "case_1_1_1_to_1_2_8_every_size_survives_whole e u"
  "case_1_1_1_to_1_2_8_every_size_survives_fragmentation e u"
proof -
  have kinds: "expected_message kind p = Some (data_message kind p)" if "kind \<in> {Text, Binary}" for kind p
    using that by (auto simp: expected_message_def)
  have whole: "survives e u kind [payload_of n]" if "kind \<in> {Text, Binary}" "n \<in> set SECTION_1_SIZES" for kind n
    using that by (intro survives_data) (auto simp: length_payload_of payload_of_valid SECTION_1_SIZES_def)
  then show "case_1_1_1_to_1_2_8_every_size_survives_whole e u"
    using kinds by (auto simp: case_1_1_1_to_1_2_8_every_size_survives_whole_def list_all_iff survives_def)
  let ?chunks = "\<lambda>n. if payload_of n = [] then [[]] else slice_chunks AUTOBAHN_FRAGMENT (payload_of n)"
  have chunks: "?chunks n \<noteq> []" "concat (?chunks n) = payload_of n" for n
    by (auto simp: slice_chunks_concat slice_chunks_nonempty AUTOBAHN_FRAGMENT_def)
  have "survives e u kind (?chunks n)" if "kind \<in> {Text, Binary}" "n \<in> set SECTION_1_SIZES" for kind n
    using that by (intro survives_data) (simp_all only: chunks, auto simp: length_payload_of payload_of_valid SECTION_1_SIZES_def)
  then show "case_1_1_1_to_1_2_8_every_size_survives_fragmentation e u"
    using kinds chunks(2) unfolding case_1_1_1_to_1_2_8_every_size_survives_fragmentation_def survives_def list_all_iff Let_def
    by fastforce
qed

end


text \<open>The loop of case 9.x: what has been sent is what the assembler holds.\<close>

definition large_sent :: "assembler \<Rightarrow> nat \<Rightarrow> bool" where
  "large_sent a sent \<longleftrightarrow>
     \<not> a_closed a \<and> unat (max_message (a_limits a)) = 1048576
     \<and> a_partial a = (if sent = 0 then None else Some (Binary, take sent large_payload))"

declare large_loop.simps [simp del]

lemma length_large_payload [simp]: "length large_payload = TOTAL"
  by (simp add: large_payload_def)

lemma take_piece: "s \<le> t \<Longrightarrow> take s xs @ take (t - s) (drop s xs) = take t xs"
  by (metis le_add_diff_inverse take_add)

lemma large_step:
  fixes sent :: nat
  defines "t \<equiv> min (sent + PIECE) TOTAL"
  assumes "large_sent a sent" and "sent < TOTAL"
  shows "\<exists>a'. feed_frame e u a (if sent = 0 then Binary else Continuation, t = TOTAL, take (t - sent) (drop sent large_payload))
     = Some (Inr (if t = TOTAL then Some (MBinary large_payload) else None), a') \<and> (t \<noteq> TOTAL \<longrightarrow> large_sent a' t)"
proof -
  have t: "sent \<le> t" "0 < t" "t \<le> TOTAL" "TOTAL \<le> 262144"
    using assms(3) by (auto simp: t_def PIECE_def TOTAL_def)
  have whole: "take sent large_payload @ take (t - sent) (drop sent large_payload) = take t large_payload"
    using t(1) by (rule take_piece)
  have len: "length (take (t - sent) (drop sent large_payload)) \<le> 262144"
    using t by simp
  show ?thesis
    using assms(2) t len whole
    by (auto simp: large_sent_def feed_frame_eq control_legal_def accept_defs saturating_len_def min_def)
qed

lemma large_loop_returns:
  "large_sent a sent \<Longrightarrow> sent < TOTAL \<Longrightarrow> large_loop e u a sent result = Some (Inr (Some (MBinary large_payload)))"
proof (induction "TOTAL - sent" arbitrary: a sent result rule: less_induct)
  case less
  let ?t = "min (sent + PIECE) TOTAL"
  obtain a' where step: "feed_frame e u a (if sent = 0 then Binary else Continuation, ?t = TOTAL,
        take (?t - sent) (drop sent large_payload))
      = Some (Inr (if ?t = TOTAL then Some (MBinary large_payload) else None), a')"
    and next': "?t \<noteq> TOTAL \<longrightarrow> large_sent a' ?t"
    using large_step [OF less.prems] by blast
  have loop: "large_loop e u a sent result
      = large_loop e u a' ?t (if ?t = TOTAL then Some (MBinary large_payload) else None)"
    using less.prems(2) step by (subst large_loop.simps) (simp add: Let_def)
  show ?case
  proof (cases "?t = TOTAL")
    case True
    then show ?thesis
      using loop by (simp add: large_loop.simps)
  next
    case False
    then have "TOTAL - ?t < TOTAL - sent" "?t < TOTAL"
      using less.prems(2) by (auto simp: PIECE_def)
    then show ?thesis
      using less.hyps [of ?t a' None] next' False loop by simp
  qed
qed

lemma large_case: "case_9_x_large_messages_survive_fragmentation e u"
proof -
  have "large_sent (assembler_new \<lparr>max_frame = 1024 * 1024, max_message = 1024 * 1024\<rparr>) 0" "0 < TOTAL"
    by (simp_all add: large_sent_def assembler_new_def TOTAL_def)
  then show ?thesis
    unfolding case_9_x_large_messages_survive_fragmentation_def Let_def by (rule large_loop_returns)
qed

section \<open>Control frames and sequencing\<close>

lemma ping_cases:
  "case_2_3_and_2_4_a_ping_may_carry_the_full_125_bytes e u"
  "case_2_5_a_ping_over_125_bytes_is_refused e u"
  "case_2_6_a_ping_payload_may_be_arbitrary_bytes e u"
  "case_2_7_an_unsolicited_pong_is_accepted_and_answers_nothing e u"
  by (simp_all add: case_2_3_and_2_4_a_ping_may_carry_the_full_125_bytes_def
    case_2_5_a_ping_over_125_bytes_is_refused_def case_2_6_a_ping_payload_may_be_arbitrary_bytes_def
    case_2_7_an_unsolicited_pong_is_accepted_and_answers_nothing_def yields_probe yields_control_illegal Let_def
    ascii_def del: upt_rec_numeral replicate_numeral)

text \<open>Pings and pongs come out one for one and in order, whatever state of reassembly they meet.\<close>

lemma feeds_probes:
  "\<not> a_closed a \<Longrightarrow> \<forall>(op, p)\<in>set ps. (op = Ping \<or> op = Pong) \<and> length p \<le> 125 \<Longrightarrow>
   feeds e u a (map (\<lambda>(op, p). (op, True, p)) ps) = Some (map (\<lambda>(op, p). Inr (Some (probe_message op p))) ps, a)"
  by (induction ps) (auto simp: feed_frame_eq control_legal_def accept_probe)

lemma ping_sequence_cases:
  "case_2_8_an_unsolicited_pong_does_not_disturb_a_later_ping e u"
  "case_2_10_and_2_11_pings_arrive_in_order e u"
proof -
  show "case_2_8_an_unsolicited_pong_does_not_disturb_a_later_ping e u"
    using feeds_probes [of fresh_assembler "[(Pong, ascii ''first''), (Ping, ascii ''second'')]" e u]
    by (simp add: case_2_8_an_unsolicited_pong_does_not_disturb_a_later_ping_def yields_def ascii_def)
  show "case_2_10_and_2_11_pings_arrive_in_order e u"
    using feeds_probes [of fresh_assembler "map (\<lambda>index. (Ping, [of_nat index])) [0..<10]" e u]
    by (simp add: case_2_10_and_2_11_pings_arrive_in_order_def yields_def comp_def del: upt_rec_numeral)
qed


context utf8_build
begin

lemma boundary_cases:
  "case_5_6_to_5_20_a_control_frame_may_sit_at_any_fragment_boundary e u"
  "case_5_6_to_5_20_several_control_frames_may_sit_at_one_boundary e u"
  "case_5_15_a_continuation_after_a_completed_message_is_a_protocol_error e u"
  by (simp_all add: case_5_6_to_5_20_a_control_frame_may_sit_at_any_fragment_boundary_def fragments_def numeral_3_eq_3
    case_5_6_to_5_20_several_control_frames_may_sit_at_one_boundary_def Let_def
    case_5_15_a_continuation_after_a_completed_message_is_a_protocol_error_def case_eval is_utf8_iff ascii_def)

end

lemma open_text:
  "length p \<le> 125 \<Longrightarrow>
   feed_frame e u fresh_assembler (Text, False, p) = Some (Inr None, fresh_assembler\<lparr>a_partial := Some (Text, p)\<rparr>)"
  by (simp add: feed_frame_eq control_legal_def assembler_accept_def accept_data_def default_max_message)

text \<open>A data frame while a message is open, and a continuation while none is.\<close>

lemma sequence_cases:
  "case_5_16_to_5_17_a_continuation_before_anything_is_a_protocol_error e u"
  "case_5_18_to_5_20_a_data_frame_during_a_fragment_is_a_protocol_error e u"
  by (simp_all add: case_5_16_to_5_17_a_continuation_before_anything_is_a_protocol_error_def
    case_5_18_to_5_20_a_data_frame_during_a_fragment_is_a_protocol_error_def case_eval ascii_def)

section \<open>Closing\<close>

lemma sendable_iff: "sendable code \<longleftrightarrow> is_sendable (CloseCode code)"
  by (auto simp: sendable_def is_sendable_def Let_def word_le_nat_alt word_unat_eq_iff)

context utf8_build
begin

lemma close_cases:
  "case_7_3_x_a_close_body_may_be_empty_a_code_or_a_code_and_reason e u"
  "case_7_7_and_7_9_the_registry_decides_every_code e u"
  "case_7_9_x_a_code_is_judged_before_its_reason e u"
proof -
  have "utf8_valid (replicate n 0x79)" for n
    by (rule ascii_utf8_valid) (simp add: list_all_iff)
  then show "case_7_3_x_a_close_body_may_be_empty_a_code_or_a_code_and_reason e u"
    using section_7_cases(2) [of e]
    by (simp add: case_7_3_x_a_close_body_may_be_empty_a_code_or_a_code_and_reason_def yields_close yields_close_code
      is_sendable_def NORMAL_def case_7_3_1_an_empty_close_is_legal_def del: replicate_numeral)
  show "case_7_7_and_7_9_the_registry_decides_every_code e u"
    by (simp add: case_7_7_and_7_9_the_registry_decides_every_code_def yields_close_code sendable_iff list_all_iff)
  show "case_7_9_x_a_code_is_judged_before_its_reason e u"
    by (simp add: case_7_9_x_a_code_is_judged_before_its_reason_def yields_close is_sendable_def ascii_def)
qed

lemma after_close:
  "length p \<le> 125 \<Longrightarrow> a_closed a \<Longrightarrow> feed_frame e u a (op, True, p) = Some (Inr None, a)"
  by (simp add: feed_frame_eq control_legal_def)

lemma normal_close:
  "\<not> a_closed a \<Longrightarrow> feed_frame e u a (Close, True, be_bytes 2 (1000 :: u16)) =
     Some (Inr (Some (MClose (Some \<lparr>cf_code = NORMAL, cf_reason = []\<rparr>))), a\<lparr>a_closed := True\<rparr>)"
  using accept_close [of a True 1000 "[]"] by (simp add: feed_frame_eq control_legal_def is_sendable_def NORMAL_def)

lemma after_close_cases:
  "case_7_1_2_a_second_close_is_discarded e u"
  "case_7_1_3_to_7_1_5_anything_after_a_close_is_discarded e u"
  "case_7_1_5_a_close_abandons_a_fragmented_message e u"
  by (simp_all add: case_7_1_2_a_second_close_is_discarded_def
    case_7_1_3_to_7_1_5_anything_after_a_close_is_discarded_def
    case_7_1_5_a_close_abandons_a_fragmented_message_def normal_close after_close open_text ascii_def)

end

section \<open>Reserved bits and opcodes\<close>

text \<open>Whatever the rest of a frame holds, and whatever state it meets.\<close>

lemma feed_changed_eq:
  "feed_changed e u a change (op, fin, payload) =
     feed e u a (change ((if fin then 0x80 else 0) OR opcode_to_bits op)
       # tl (header_bytes (client_header op fin payload) @ fst (mask_apply e payload (0x37, 0xFA, 0x21, 0x3D) 0)))"
  by (simp add: feed_changed_def frame_eq header_bytes_def)

lemma feed_changed_reserved_bit:
  "change ((if fin then 0x80 else 0) OR opcode_to_bits op) AND 0x70 \<noteq> 0 \<Longrightarrow>
   feed_changed e u a change (op, fin, payload) = Some (Inl (FrameFault ReservedBitSet), a)"
  by (simp add: feed_changed_eq feed_reserved_bit header_bytes_def)

lemma feed_changed_reserved_opcode:
  "b = change ((if fin then 0x80 else 0) OR opcode_to_bits op) \<Longrightarrow> b AND 0x70 = 0 \<Longrightarrow>
   opcode_from_bits (b AND 0x0F) = None \<Longrightarrow>
   feed_changed e u a change (op, fin, payload) = Some (Inl (FrameFault (ReservedOpCode (b AND 0x0F))), a)"
  by (simp add: feed_changed_eq feed_reserved_opcode header_bytes_def)

lemma reserved_bit_cases:
  "case_3_1_to_3_7_every_combination_of_reserved_bits_is_refused e u"
  "case_3_x_a_reserved_bit_is_refused_before_anything_else_is_judged e u"
  "case_3_x_a_reserved_bit_is_refused_inside_a_fragmented_message e u"
  by (simp_all add: case_3_1_to_3_7_every_combination_of_reserved_bits_is_refused_def EVERY_OPCODE_def Let_def
    case_3_x_a_reserved_bit_is_refused_before_anything_else_is_judged_def open_text
    case_3_x_a_reserved_bit_is_refused_inside_a_fragmented_message_def feed_changed_reserved_bit ascii_def)

lemma reserved_opcode_cases:
  "case_4_1_x_and_4_2_x_every_reserved_opcode_is_refused_either_way e u"
  "case_4_x_a_reserved_opcode_is_refused_inside_a_fragmented_message e u"
  by (simp_all add: case_4_1_x_and_4_2_x_every_reserved_opcode_is_refused_either_way_def open_text
    case_4_x_a_reserved_opcode_is_refused_inside_a_fragmented_message_def feed_changed_reserved_opcode opcode_from_bits_def
    ascii_def)

section \<open>The suite\<close>

text \<open>The cases that go through the harness, in the order of the file; the three that call the codec or the
  assembler alone are \<open>length_cases\<close> and \<open>limit_case\<close>.\<close>

definition conformance_suite :: "(endian \<Rightarrow> utf8_impl \<Rightarrow> bool) list" where
  "conformance_suite =
    [case_1_1_text_message_echoes,
     case_1_2_binary_message_echoes,
     an_empty_payload_is_still_a_message,
     case_2_1_ping_payload_is_returned_verbatim,
     case_2_5_a_fragmented_ping_is_a_protocol_error,
     case_5_1_a_fragmented_message_reassembles,
     case_6_1_valid_utf8_passes,
     case_6_3_invalid_utf8_fails_the_connection,
     case_6_4_utf8_split_across_fragments_is_judged_whole,
     binary_carries_bytes_text_would_refuse,
     case_7_1_a_close_with_code_and_reason_parses,
     case_7_3_1_an_empty_close_is_legal,
     case_7_3_2_a_one_byte_close_is_a_protocol_error,
     case_7_5_1_a_close_reason_must_be_utf8,
     case_5_2_a_message_in_many_small_fragments_reassembles,
     case_5_4_an_empty_fragment_is_legal,
     case_5_8_a_close_may_interrupt_a_fragmented_message,
     a_fragmented_message_may_follow_a_complete_one,
     case_6_2_the_first_and_last_codepoint_of_each_length_pass,
     case_6_6_a_truncated_sequence_at_the_end_is_refused,
     case_6_12_a_lone_continuation_byte_is_refused,
     case_6_14_an_invalid_sequence_split_across_fragments_is_still_refused,
     case_7_3_x_a_close_reason_may_be_any_valid_utf8,
     case_7_7_every_code_the_registry_allows_is_accepted,
     a_close_frame_is_at_most_125_bytes,
     case_9_x_large_messages_survive_fragmentation,
     case_6_3_to_6_21_every_malformed_sequence_is_refused,
     a_malformed_sequence_is_refused_wherever_it_sits,
     a_malformed_sequence_is_refused_in_a_close_reason,
     a_malformed_sequence_is_refused_across_a_fragment_boundary,
     every_valid_codepoint_class_passes_where_the_bad_ones_fail,
     case_1_1_1_to_1_2_8_every_size_survives_whole,
     case_1_1_1_to_1_2_8_every_size_survives_fragmentation,
     case_2_3_and_2_4_a_ping_may_carry_the_full_125_bytes,
     case_2_5_a_ping_over_125_bytes_is_refused,
     case_2_6_a_ping_payload_may_be_arbitrary_bytes,
     case_2_7_an_unsolicited_pong_is_accepted_and_answers_nothing,
     case_2_8_an_unsolicited_pong_does_not_disturb_a_later_ping,
     case_2_10_and_2_11_pings_arrive_in_order,
     case_5_6_to_5_20_a_control_frame_may_sit_at_any_fragment_boundary,
     case_5_6_to_5_20_several_control_frames_may_sit_at_one_boundary,
     case_5_15_a_continuation_after_a_completed_message_is_a_protocol_error,
     case_5_16_to_5_17_a_continuation_before_anything_is_a_protocol_error,
     case_5_18_to_5_20_a_data_frame_during_a_fragment_is_a_protocol_error,
     case_7_3_x_a_close_body_may_be_empty_a_code_or_a_code_and_reason,
     case_7_7_and_7_9_the_registry_decides_every_code,
     case_7_9_x_a_code_is_judged_before_its_reason,
     case_7_1_2_a_second_close_is_discarded,
     case_7_1_3_to_7_1_5_anything_after_a_close_is_discarded,
     case_7_1_5_a_close_abandons_a_fragmented_message,
     case_3_1_to_3_7_every_combination_of_reserved_bits_is_refused,
     case_3_x_a_reserved_bit_is_refused_before_anything_else_is_judged,
     case_3_x_a_reserved_bit_is_refused_inside_a_fragmented_message,
     case_4_1_x_and_4_2_x_every_reserved_opcode_is_refused_either_way,
     case_4_x_a_reserved_opcode_is_refused_inside_a_fragmented_message]"

section \<open>The suite passes\<close>

text \<open>The conformance suite passes, on either byte order and with any validator that accepts exactly
  UTF-8: every case of framing, control frames, fragmentation, UTF-8, closing, reserved bits and reserved
  opcodes gives exactly the messages and the errors that the suite expects.\<close>

lemma conformance_suite_passes:
  assumes "utf8_build u"
  shows "list_all (\<lambda>c. c e u) conformance_suite"
  unfolding conformance_suite_def
  using utf8_build.section_1_cases [OF assms] utf8_build.section_2_cases [OF assms]
    utf8_build.section_5_cases [OF assms] utf8_build.section_6_cases [OF assms] utf8_build.section_7_cases [OF assms]
    utf8_build.malformed_cases [OF assms] utf8_build.valid_classes_case [OF assms] utf8_build.section_1_sizes [OF assms]
    large_case ping_cases ping_sequence_cases utf8_build.boundary_cases [OF assms] sequence_cases
    utf8_build.close_cases [OF assms] utf8_build.after_close_cases [OF assms] reserved_bit_cases reserved_opcode_cases
  by (simp only: list.pred_inject simp_thms)

end
