(* ===== verification/Conformance_Conn.thy ===== *)
theory Conformance_Conn
  imports Conformance Session
begin

text \<open>
  The harness of the conformance suite claims to treat a frame \<open>as a connection would\<close>. Here that is proved:
  a server connection that receives the frames of a case as bytes, however the network cuts them, reads the
  messages the harness delivers, in order, and then ends as the harness does. So every case of the suite is
  a statement about connections too.
\<close>

section \<open>Definitions\<close>

text \<open>The bytes of a sequence of client frames.\<close>

definition client_wire :: "endian \<Rightarrow> frame list \<Rightarrow> bytes" where
  "client_wire e fs = concat (map (\<lambda>(op, fin, payload). the (frame_of e op fin payload)) fs)"

text \<open>What a case delivers before its first error, and how it ends.\<close>

fun delivered :: "(fault + message option) list \<Rightarrow> message list" where
  "delivered [] = []"
| "delivered (Inl f # rs) = []"
| "delivered (Inr None # rs) = delivered rs"
| "delivered (Inr (Some m) # rs) = m # delivered rs"

fun fault_error :: "fault \<Rightarrow> conn_error" where
  "fault_error (FrameFault e) = EFrame e"
| "fault_error (ProtocolFault e) = EProtocol e"

fun ending :: "(fault + message option) list \<Rightarrow> bool \<Rightarrow> conn_error + message option" where
  "ending [] closed = (if closed then Inr None else Inl EUnexpectedEof)"
| "ending (Inl f # rs) closed = Inl (fault_error f)"
| "ending (Inr m # rs) closed = ending rs closed"

section \<open>One frame\<close>

lemma client_wire_simps:
  "client_wire e [] = []"
  "client_wire e ((op, fin, payload) # fs) =
     header_bytes (client_header op fin payload) @ fst (mask_apply e payload (0x37, 0xFA, 0x21, 0x3D) 0) @ client_wire e fs"
  by (simp_all add: client_wire_def frame_eq)

lemma consume_client_frame:
  assumes "length payload \<le> unat (max_frame (a_limits a))" and "length payload < 2 ^ 63"
  shows "consume v Server a (client_wire e ((op, fin, payload) # fs)) =
     (case feed_frame e (v_utf8 v) a (op, fin, payload) of
        None \<Rightarrow> None
      | Some (Inl (FrameFault x), a') \<Rightarrow> Some (Inl (EFrame x), a, client_wire e ((op, fin, payload) # fs))
      | Some (Inl (ProtocolFault x), a') \<Rightarrow> Some (Inl (EProtocol x), a', client_wire e fs)
      | Some (Inr (Some m), a') \<Rightarrow> Some (Inr (Some m), a', client_wire e fs)
      | Some (Inr None, a') \<Rightarrow> consume v Server a' (client_wire e fs))"
proof (cases "control_legal op fin payload")
  case True
  let ?h = "client_header op fin payload" and ?q = "fst (mask_apply e payload (0x37, 0xFA, 0x21, 0x3D) 0)"
  note len = unat_length [OF assms(2)]
  have q: "length ?q = length payload"
    by (simp add: mask_apply_stream)
  have "header_decode (header_bytes ?h @ ?q @ client_wire e fs) (max_frame (a_limits a)) = Inr (Inr (?h, encoded_len ?h))"
    using wf_client_header [OF True assms(2)] assms(1) len by (intro header_decode_bytes) (simp_all add: word_le_nat_alt)
  then have "cut_frame Server (max_frame (a_limits a)) (client_wire e ((op, fin, payload) # fs)) = Frame ?h ?q (client_wire e fs)"
    using len q by (simp add: client_wire_simps cut_frame_def masking_violation_def)
  moreover have "unmasked v ?h ?q = payload"
    by (simp add: unmasked_def mask_apply_involution)
  ultimately show ?thesis
    using feed_frame_legal [OF True assms(2), of e "v_utf8 v" a]
    by (auto simp: consume.simps [of v Server a] split: option.splits sum.splits)
next
  case False
  then show ?thesis
    using header_decode_illegal [OF False assms(2)] feed_frame_illegal [OF False assms(2)]
    by (simp add: consume.simps [of v Server a] client_wire_simps(2) cut_frame_def)
qed

section \<open>A sequence of frames\<close>

text \<open>The frames fit the limit of the receiver.\<close>

definition frames_fit :: "limits \<Rightarrow> frame list \<Rightarrow> bool" where
  "frames_fit l fs \<longleftrightarrow> list_all (\<lambda>(op, fin, payload). length payload \<le> unat (max_frame l) \<and> length payload < 2 ^ 63) fs"

lemma feed_frame_step:
  assumes "assembler_inv a" and "feed_frame e u a (op, fin, payload) = Some (r, a')" and "length payload < 2 ^ 63"
  shows "assembler_inv a' \<and> a_limits a' = a_limits a"
  using assms assembler_accept_step [OF assms(1), of u op fin payload]
  by (auto simp: feed_frame_eq split: if_splits)

text \<open>One read takes frames up to the first that delivers or fails.\<close>

lemma read_spec_client_wire:
  assumes "assembler_inv a" and "frames_fit (a_limits a) fs" and "feeds e (v_utf8 v) a fs = Some (rs, b)"
  shows "(delivered rs = [] \<longrightarrow> (\<exists>x rest. read_spec v Server a (client_wire e fs) = Some (ending rs (a_closed b), x, rest)))
    \<and> (\<forall>m ms. delivered rs = m # ms \<longrightarrow>
         (\<exists>a1 fs1 rs1. read_spec v Server a (client_wire e fs) = Some (Inr (Some m), a1, client_wire e fs1)
            \<and> assembler_inv a1 \<and> frames_fit (a_limits a1) fs1 \<and> feeds e (v_utf8 v) a1 fs1 = Some (rs1, b)
            \<and> delivered rs1 = ms \<and> ending rs1 = ending rs))"
  using assms
proof (induction fs arbitrary: a rs)
  case Nil
  have "consume v Server a [] = Some (Inr None, a, [])"
    by (simp add: consume.simps cut_frame_def header_decode_def)
  then show ?case
    using Nil.prems(3) by (auto simp: client_wire_simps read_spec_def)
next
  case (Cons f fs)
  obtain op fin payload where f: "f = (op, fin, payload)"
    by (cases f)
  obtain r c rs' where step: "feed_frame e (v_utf8 v) a (op, fin, payload) = Some (r, c)"
    "feeds e (v_utf8 v) c fs = Some (rs', b)" "rs = r # rs'"
    using Cons.prems(3) by (auto simp: f split: option.splits)
  have fit: "length payload \<le> unat (max_frame (a_limits a))" "length payload < 2 ^ 63" "frames_fit (a_limits a) fs"
    using Cons.prems(2) by (simp_all add: f frames_fit_def)
  have c: "assembler_inv c" "a_limits c = a_limits a"
    using feed_frame_step [OF Cons.prems(1) step(1) fit(2)] by auto
  have consume: "consume v Server a (client_wire e (f # fs)) =
     (case r of
        Inl (FrameFault x) \<Rightarrow> Some (Inl (EFrame x), a, client_wire e (f # fs))
      | Inl (ProtocolFault x) \<Rightarrow> Some (Inl (EProtocol x), c, client_wire e fs)
      | Inr (Some m) \<Rightarrow> Some (Inr (Some m), c, client_wire e fs)
      | Inr None \<Rightarrow> consume v Server c (client_wire e fs))"
    using consume_client_frame [OF fit(1,2), of v e op fin fs] step(1)
    by (simp add: f split: sum.split fault.split option.split)
  show ?case
  proof (cases r)
    case (Inl fault)
    then show ?thesis
      using consume by (cases fault) (simp_all add: step(3) read_spec_def)
  next
    case (Inr om)
    show ?thesis
    proof (cases om)
      case None
      then have "read_spec v Server a (client_wire e (f # fs)) = read_spec v Server c (client_wire e fs)"
        using consume Inr by (simp add: read_spec_def)
      then show ?thesis
        using Cons.IH [OF c(1) _ step(2)] fit(3) c(2) by (simp add: step(3) Inr None fun_eq_iff)
    next
      case (Some m)
      then have "read_spec v Server a (client_wire e (f # fs)) = Some (Inr (Some m), c, client_wire e fs)"
        using consume Inr by (simp add: read_spec_def)
      then show ?thesis
        using c fit(3) step(2) by (auto simp: step(3) Inr Some fun_eq_iff)
    qed
  qed
qed

section \<open>Properties\<close>

text \<open>C18: The conformance harness is a connection in miniature. A server connection that has received any
  sequence of masked frames, legal or not, over any lossless transport and cut in any way, reads exactly the
  messages that the harness delivers from them before its first error; the next read reports that error, or
  the end of the stream, clean after a close and unexpected otherwise.\<close>

theorem harness_is_connection:
  assumes "connection_env v incoming sent" and "c_role c = Server" and "assembler_inv (c_assembler c)"
    and "frames_fit (a_limits (c_assembler c)) fs"
    and "bm_data (c_read_buffer c) @ incoming (c_stream c) = client_wire e fs"
    and "feeds e (v_utf8 v) (c_assembler c) fs = Some (rs, b)"
  shows "\<exists>c' c''. conn_reads v c (length (delivered rs)) = Some (delivered rs, c')
     \<and> conn_read v c' = Some (ending rs (a_closed b), c'')"
  using assms(2-)
proof (induction "delivered rs" arbitrary: c fs rs)
  case Nil
  obtain r c' where read: "conn_read v c = Some (r, c')"
    "read_spec v Server (c_assembler c) (client_wire e fs) = Some (r, c_assembler c', connection_env.unread incoming c')"
    using connection_env.conn_read_refines [OF assms(1) Nil.prems(2)] Nil.prems(1,4)
    by (auto simp: connection_env.unread_def [OF assms(1)])
  then have "r = ending rs (a_closed b)"
    using read_spec_client_wire [OF Nil.prems(2,3,5)] Nil.hyps by auto
  then show ?case
    using read(1) Nil.hyps [symmetric] by simp
next
  case (Cons m ms)
  obtain a1 fs1 rs1 where spec: "read_spec v Server (c_assembler c) (client_wire e fs) = Some (Inr (Some m), a1, client_wire e fs1)"
    "assembler_inv a1" "frames_fit (a_limits a1) fs1" "feeds e (v_utf8 v) a1 fs1 = Some (rs1, b)" "delivered rs1 = ms"
    "ending rs1 = ending rs"
    using read_spec_client_wire [OF Cons.prems(2,3,5)] Cons.hyps(2) by metis
  obtain c1 where read: "conn_read v c = Some (Inr (Some m), c1)" "c_assembler c1 = a1"
    "connection_env.unread incoming c1 = client_wire e fs1" "c_role c1 = Server"
    using connection_env.conn_read_refines [OF assms(1) Cons.prems(2)] Cons.prems(1,4) spec(1)
    by (auto simp: connection_env.unread_def [OF assms(1)] connection_env.write_side_def [OF assms(1)])
  from Cons.hyps(1) [of rs1 c1 fs1] spec read obtain c' c'' where "conn_reads v c1 (length ms) = Some (ms, c')"
    "conn_read v c' = Some (ending rs (a_closed b), c'')"
    by (auto simp: connection_env.unread_def [OF assms(1)])
  then show ?case
    using read(1) Cons.hyps(2) [symmetric] by simp
qed

theorem harness_is_connection_witness:
  "\<exists>c' c''. conn_reads (pipe_env Big Std)
       (connection_new (pipe_env Big Std) []
          \<lparr>p_pieces = map (\<lambda>b. [b]) (client_wire Little
             [(Ping, True, [7]), (Text, False, [0xF0]), (Continuation, True, [0x80])]), p_sent = []\<rparr> Server default_limits) 1
     = Some ([MPing [7]], c')
   \<and> conn_read (pipe_env Big Std) c' = Some (Inl (EProtocol InvalidUtf8), c'')"
proof -
  let ?fs = "[(Ping, True, [7]), (Text, False, [0xF0]), (Continuation, True, [0x80])]"
  let ?c = "connection_new (pipe_env Big Std) []
      \<lparr>p_pieces = map (\<lambda>b. [b]) (client_wire Little ?fs), p_sent = []\<rparr> Server default_limits"
  have c: "c_role ?c = Server" "c_assembler ?c = assembler_new default_limits" "bm_data (c_read_buffer ?c) = []"
    "pipe_incoming (c_stream ?c) = client_wire Little ?fs" "v_utf8 (pipe_env Big Std) = Std"
    by (simp_all add: connection_new_def with_buffered_def pipe_incoming_def pipe_env_def)
  have fed: "feeds Little Std (assembler_new default_limits) ?fs
      = Some ([Inr (Some (MPing [7])), Inr None, Inl (ProtocolFault InvalidUtf8)], assembler_new default_limits)"
    by (simp add: feed_frame_eq control_legal_def accept_eval)
  have fed': "feeds Little (v_utf8 (pipe_env Big Std)) (c_assembler ?c) ?fs
      = Some ([Inr (Some (MPing [7])), Inr None, Inl (ProtocolFault InvalidUtf8)], assembler_new default_limits)"
    unfolding c by (rule fed)
  have inv: "assembler_inv (c_assembler ?c)" and bytes: "bm_data (c_read_buffer ?c) @ pipe_incoming (c_stream ?c) = client_wire Little ?fs"
    unfolding c by simp_all
  have fit: "frames_fit (a_limits (c_assembler ?c)) ?fs"
    unfolding c by (simp add: frames_fit_def assembler_new_def default_limits_def)
  from harness_is_connection [OF pipe_env.connection_env_axioms c(1) inv fit bytes fed'] show ?thesis
    by simp
qed

end
