(* ===== verification/Bench.thy ===== *)
theory Bench
  imports Mask Utf8 "HOL-Library.Multiset"
begin

text \<open>
  The logic inside the benchmarks (\<open>src/benches\<close>): the copy of tungstenite's masking that \<open>micro.rs\<close> times
  against the crate's, and how samples are summarised and numbers printed. The measurements themselves are
  clocks and sockets and are not modelled. The comparison of the two masks is fair in that they compute the
  same bytes, wherever in memory the buffer starts.
\<close>

section \<open>Definitions\<close>

text \<open>\<open>fn fallback\<close>, nested in \<open>tungstenite_mask\<close>.\<close>

definition tungstenite_fallback :: "bytes \<Rightarrow> bytes \<Rightarrow> bytes" where
  "tungstenite_fallback buf m = map2 (\<lambda>index byte. byte XOR m ! (index AND 3)) [0..<length buf] buf"

text \<open>The loop over the aligned words.\<close>

fun tungstenite_words :: "endian \<Rightarrow> u32 \<Rightarrow> nat \<Rightarrow> bytes \<Rightarrow> bytes" where
  "tungstenite_words e m 0 bs = []"
| "tungstenite_words e m (Suc n) bs = ne_bytes e 4 (ne_word e (take 4 bs) XOR m) @ tungstenite_words e m n (drop 4 bs)"

text \<open>\<open>align_to_mut\<close> cuts the buffer into a prefix of \<open>p\<close> bytes, \<open>n\<close> words and the rest; where, depends on the
  address of the buffer, so \<open>p\<close> and \<open>n\<close> are arguments.\<close>

definition tungstenite_mask :: "endian \<Rightarrow> nat \<Rightarrow> nat \<Rightarrow> bytes \<Rightarrow> mask_key \<Rightarrow> bytes" where
  "tungstenite_mask e p n buf m =
     (let mask_u32 = ne_word e (key_bytes m) :: u32;
          prefix = take p buf;
          head = length prefix AND 3;
          mask_u32' = (if head > 0 then
                         (case e of Big \<Rightarrow> word_rotl (8 * head) mask_u32 | Little \<Rightarrow> word_rotr (8 * head) mask_u32)
                       else mask_u32)
      in tungstenite_fallback prefix (key_bytes m)
         @ tungstenite_words e mask_u32' n (drop p buf)
         @ tungstenite_fallback (drop (p + 4 * n) buf) (ne_bytes e 4 mask_u32'))"

text \<open>\<open>validate\<close> is the crate's own choice of validator.\<close>

definition validate :: "utf8_impl \<Rightarrow> bytes \<Rightarrow> bool" where
  "validate u payload = (case u of Simd basic_from_utf8 \<Rightarrow> basic_from_utf8 payload | Std \<Rightarrow> utf8_valid payload)"

text \<open>Samples: a duration is a number of nanoseconds, the panic on no samples is \<open>None\<close>.\<close>

record stats =
  s_best :: nat
  s_median :: nat
  s_worst :: nat

definition stats_of :: "nat list \<Rightarrow> stats option" where
  "stats_of samples =
     (let sorted' = sort samples
      in if sorted' = [] then None
         else Some \<lparr>s_best = sorted' ! 0, s_median = sorted' ! (length sorted' div 2),
                    s_worst = sorted' ! (length sorted' - 1)\<rparr>)"

definition best_of :: "nat list \<Rightarrow> nat option" where
  "best_of samples = (let sorted' = sort samples in if sorted' = [] then None else Some (sorted' ! 0))"

definition overlaps :: "stats \<Rightarrow> stats \<Rightarrow> bool" where
  "overlaps a b \<longleftrightarrow> s_best a \<le> s_worst b \<and> s_best b \<le> s_worst a"

text \<open>Thousands separators, on the digits \<open>format!("{:.0}", value)\<close> gave.\<close>

definition thousands :: "string \<Rightarrow> string" where
  "thousands whole =
     concat (map (\<lambda>(index, digit).
       (if index > 0 \<and> (length whole - index) mod 3 = 0 then [CHR '','', digit] else [digit])) (enumerate 0 whole))"

section \<open>The two masks agree\<close>

lemma fallback_stream: "tungstenite_fallback bs m = xor_stream (\<lambda>i. m ! (i mod 4)) bs"
  by (simp add: tungstenite_fallback_def xor_stream_def byte_simps)

lemma words_stream:
  "4 * n \<le> length bs \<Longrightarrow> tungstenite_words e m n bs = xor_stream (\<lambda>i. ne_bytes e 4 m ! (i mod 4)) (take (4 * n) bs)"
proof (induction e m n bs rule: tungstenite_words.induct)
  case (2 e m n bs)
  have four: "length (take 4 bs) = 4"
    using "2.prems" by simp
  have word: "ne_bytes e 4 (ne_word e (take 4 bs) XOR m) = xor_stream (\<lambda>i. ne_bytes e 4 m ! (i mod 4)) (take 4 bs)"
    using four by (intro nth_equalityI) (simp_all add: ne_bytes_xor ne_bytes_ne_word)
  have "take (4 * Suc n) bs = take 4 bs @ take (4 * n) (drop 4 bs)"
    by (simp add: take_add [symmetric])
  then show ?case
    using "2.IH" "2.prems" four by (simp add: word xor_stream_append)
qed (simp add: xor_stream_def)

lemma word_rotr_0: "word_rotr 0 w = w" and word_rotl_0: "word_rotl 0 w = w"
  by (rule bit_word_eqI, simp add: bit_word_rotr_iff bit_word_rotl_iff)+

lemma rotated_key:
  fixes h :: nat
  defines "h' \<equiv> h AND 3"
  shows "(if h' > 0 then
            (case e of Big \<Rightarrow> word_rotl (8 * h') (ne_word e (key_bytes m))
                     | Little \<Rightarrow> word_rotr (8 * h') (ne_word e (key_bytes m)))
          else ne_word e (key_bytes m)) = rotate_key e m (of_nat h')"
proof -
  have "h' < 4"
    by (simp add: h'_def byte_simps)
  then have "unat ((of_nat h' :: usize) AND 3) = h'"
    by (simp add: unsigned_and_eq byte_simps unat_of_nat)
  then show ?thesis
    by (cases e) (auto simp: rotate_key_def Let_def mult.commute word_rotr_0 word_rotl_0)
qed

text \<open>Whatever the alignment of the buffer, the benchmark's copy masks as the crate does.\<close>

lemma tungstenite_mask_agrees:
  assumes "p + 4 * n \<le> length buf"
  shows "tungstenite_mask e p n buf m = fst (mask_apply e' buf m 0)"
proof -
  let ?k = "rotate_key e m (of_nat (p AND 3))"
  let ?f = "\<lambda>i. key_bytes m ! (i mod 4)"
  have p: "length (take p buf) = p"
    using assms by simp
  have k: "ne_bytes e 4 ?k ! (i mod 4) = ?f (p + i)" for i
    using rotate_key_nth [of "i mod 4" e m "of_nat (p AND 3)"]
    by (simp add: byte_simps unat_of_nat mod_simps)
  have words: "length (take (4 * n) (drop p buf)) = 4 * n"
    using assms by simp
  have "(p + (4 * n + i)) mod 4 = (p + i) mod 4" for i
    by presburger
  then have shift: "?f (p + (4 * n + i)) = ?f (p + i)" for i
    by simp
  have "tungstenite_mask e p n buf m = xor_stream ?f (take p buf)
      @ xor_stream (\<lambda>i. ?f (p + i)) (take (4 * n) (drop p buf))
      @ xor_stream (\<lambda>i. ?f (p + i)) (drop (p + 4 * n) buf)"
    using assms words_stream [of n "drop p buf" e ?k]
    by (simp only: tungstenite_mask_def Let_def p rotated_key fallback_stream k) (simp add: k)
  also have "\<dots> = xor_stream ?f (take p buf @ take (4 * n) (drop p buf) @ drop (p + 4 * n) buf)"
    by (simp only: xor_stream_append p words shift)
  also have "take p buf @ take (4 * n) (drop p buf) @ drop (p + 4 * n) buf = buf"
    by (metis add.commute append_take_drop_id drop_drop)
  finally show ?thesis
    by (simp add: mask_apply_stream)
qed

lemma validate_is_utf8: "validate u payload = is_utf8 u payload"
  by (cases u) (simp_all add: validate_def)

section \<open>Samples\<close>

lemma stats_of_bounds:
  assumes "stats_of samples = Some s"
  shows "s_best s = Min (set samples)" "s_worst s = Max (set samples)"
    "s_median s \<in> set samples" "s_best s \<le> s_median s" "s_median s \<le> s_worst s"
proof -
  let ?v = "sort samples"
  have ne: "?v \<noteq> []" and s: "s_best s = ?v ! 0" "s_median s = ?v ! (length ?v div 2)" "s_worst s = ?v ! (length ?v - 1)"
    using assms by (auto simp: stats_of_def Let_def split: if_splits)
  have pos: "0 < length samples"
    using ne by (cases samples) auto
  have at: "?v ! i \<in> set samples" if "i < length ?v" for i
    using that nth_mem [of i ?v] by simp
  have mono: "?v ! i \<le> ?v ! j" if "i \<le> j" "j < length ?v" for i j
    using that by (simp add: sorted_nth_mono)
  have idx: "0 < length ?v" "length ?v div 2 < length ?v" "length ?v - 1 < length ?v" "length ?v div 2 \<le> length ?v - 1"
    using pos by auto
  have bounds: "?v ! 0 \<le> x \<and> x \<le> ?v ! (length ?v - 1)" if x: "x \<in> set samples" for x
  proof -
    obtain i where "i < length ?v" "?v ! i = x"
      using x by (metis in_set_conv_nth set_sort)
    then show ?thesis
      using mono [of 0 i] mono [of i "length ?v - 1"] idx(1) by auto
  qed
  show "s_best s = Min (set samples)" "s_worst s = Max (set samples)"
    using bounds at idx by (auto simp: s intro!: Min_eqI [symmetric] Max_eqI [symmetric])
  show "s_median s \<in> set samples" "s_best s \<le> s_median s" "s_median s \<le> s_worst s"
    using at mono idx by (simp_all add: s)
qed

lemma best_of_stats: "best_of samples = map_option s_best (stats_of samples)"
  by (simp add: best_of_def stats_of_def Let_def)

lemma stats_of_order:
  assumes "mset samples = mset samples'"
  shows "stats_of samples = stats_of samples'"
proof -
  have "sort samples = sort samples'"
    using assms by (intro properties_for_sort) simp_all
  then show ?thesis
    by (simp add: stats_of_def)
qed

text \<open>Two arms that are called different really are: every sample of one is below every sample of the other.\<close>

lemma not_overlaps_separated:
  assumes "stats_of xs = Some a" and "stats_of ys = Some b" and "\<not> overlaps a b"
  shows "(\<forall>x\<in>set xs. \<forall>y\<in>set ys. x < y) \<or> (\<forall>x\<in>set xs. \<forall>y\<in>set ys. y < x)"
proof -
  have "Max (set xs) < Min (set ys) \<or> Max (set ys) < Min (set xs)"
    using assms(3) stats_of_bounds [OF assms(1)] stats_of_bounds [OF assms(2)] by (auto simp: overlaps_def)
  moreover have "x \<le> Max (set zs)" "Min (set zs) \<le> x" if "x \<in> set zs" for x and zs :: "nat list"
    using that by simp_all
  ultimately show ?thesis
    by (meson le_less_trans less_le_trans)
qed

section \<open>Thousands\<close>

text \<open>The separators add nothing but themselves.\<close>

lemma thousands_digits: "CHR '','' \<notin> set whole \<Longrightarrow> filter (\<lambda>c. c \<noteq> CHR '','') (thousands whole) = whole"
proof -
  have "CHR '','' \<notin> set ds \<Longrightarrow>
    filter (\<lambda>c. c \<noteq> CHR '','') (concat (map (\<lambda>(index, digit). if P index then [CHR '','', digit] else [digit]) (enumerate i ds)))
      = ds" for P i ds
    by (induction ds arbitrary: i) auto
  then show "CHR '','' \<notin> set whole \<Longrightarrow> ?thesis"
    by (simp add: thousands_def)
qed

lemma thousands_examples: "thousands ''7'' = ''7''" "thousands ''1234567'' = ''1,234,567''" "thousands ''123456'' = ''123,456''"
  by (simp_all add: thousands_def)

end
