(* ===== verification/Spec2Isabelle.thy ===== *)
theory Spec2Isabelle
  imports Mask Frame Message Vectors Session Duplex Channel Interrupt Abandon Closing Upgrade Client Echo Listen Tests_Proto
    Tests_Handshake Tests_Mask Tests_Tls Conformance_Suite Conformance_Conn Bench
begin

text \<open>
  A verification of \<open>nago-wss\<close>, a WebSocket library in Rust (RFC 6455): the protocol core under
  \<open>src/src/proto\<close>, which is free of I/O, the connection that runs it over a byte stream, the opening
  handshake, the client, and the echo server of the examples.

  The parts and the theories, in the order of the code:

  \<^item> \<open>Wss_Prelude\<close>: machine integers as words, byte orders, \<open>Result\<close> as a sum, shared lemmas on byte
    lists and the collections \<open>byte_simps\<close> and \<open>slice_simps\<close>.
  \<^item> \<open>Mask\<close> (\<open>proto/mask.rs\<close>): \<open>apply\<close> word by word, for either byte order, equal to the byte loop of the
    RFC; the interface \<open>masking\<close>.
  \<^item> \<open>Opcode\<close> (\<open>proto/opcode.rs\<close>): opcodes and close codes, which are linearly ordered.
  \<^item> \<open>Frame\<close> (\<open>proto/frame.rs\<close>): \<open>Header::decode\<close>, \<open>encode\<close>, \<open>encoded_len\<close>. Decoding inverts encoding, a
    header has one encoding, and an answer never changes when more bytes arrive; the interface
    \<open>frame_codec\<close>.
  \<^item> \<open>Utf8\<close>: the validator of the standard library, accepting exactly the encodings of scalar values;
    \<open>simdutf8\<close> is a parameter with the same law (\<open>utf8_build\<close>).
  \<^item> \<open>Message\<close> (\<open>proto/message.rs\<close>): the assembler with its limits and errors. Its invariant, by rule
    induction over the frames it accepts, shows that no \<open>unreachable!\<close> is reached; conversations are
    delivered exactly.
  \<^item> \<open>Fips180\<close>: SHA-1 written from FIPS 180-4, apart from the code. \<open>Sha1\<close>, \<open>Accept\<close>, \<open>Vectors\<close> (first half of
    \<open>proto/handshake.rs\<close>): the buffered hasher, whose every part is shown equal to the standard's; base64 with
    its decoder, keys and accept values, published vectors evaluated in the kernel.
  \<^item> \<open>Text\<close>: the operations of \<open>str\<close> the crate uses. \<open>Handshake\<close> (second half of
    \<open>proto/handshake.rs\<close>): heads, requests, responses and refusals. The parsers refine specifications
    over the list of header fields; what one side builds the other side parses.
  \<^item> \<open>Transport\<close> (\<open>stream.rs\<close>): \<open>ByteStream\<close> and \<open>StreamExt\<close> as records of operations on an abstract
    state. The contracts \<open>allocator\<close>, \<open>lossless_stream\<close>, \<open>lossless_socket\<close> and \<open>lossless_ext\<close> are what the
    crate relies on; the default methods lift a stream and the socket's own operations lift a socket to
    the last, and an in-memory pipe is an instance of each.
  \<^item> \<open>Conn\<close> (\<open>conn.rs\<close>): the state of a connection and every operation on it. \<open>Conn_Read\<close>: \<open>read\<close> refines
    \<open>read_spec\<close>, a function of the assembler and of all the bytes the peer sends, so it always returns
    and does not depend on how the bytes are cut. \<open>Conn_Write\<close>: every write path sends
    \<open>wire_messages\<close>, a function of the role, the mask generator and the messages. \<open>Session\<close>: what one
    end writes the other reads. \<open>Duplex\<close>: any interleaving of operations on one connection, as a transition
    relation; over a transport that may fail, what it was handed is followed through a record of the bytes
    (\<open>write_log\<close>), which any transport can be given. \<open>Channel\<close>: two connections and the bytes in flight refine a queue of messages, whatever the
    order of writing, arrival and parsing. \<open>Interrupt\<close>: a read that is given up where it waits; the next
    read continues it, and what is held meanwhile is bounded. \<open>Abandon\<close>: a write that is given up where it waits;
    nothing of it is sent later, and the peer cannot tell unless a frame was cut. \<open>Closing\<close>: every close body
    judged from the wire by the rules of the RFC.
  \<^item> \<open>Upgrade\<close> (\<open>upgrade.rs\<close>): \<open>read_head\<close>, \<open>accept\<close> and \<open>connect\<close> over a stream; both sides complete, and
    no byte after a head is lost. On any transport a client is connected only to a server that answered
    its key, and reading a head makes no read past its limit. \<open>Client\<close> (\<open>client.rs\<close>, \<open>tls.rs\<close>): the URL parser,
    which reads the URIs of RFC 6455 (with lemmas on the other texts it accepts); the \<open>Host\<close> header; connecting with and without TLS, gated and completing. \<open>Echo\<close> (\<open>examples/autobahn_server.rs\<close>): \<open>serve\<close>. \<open>Listen\<close>: the
    accept loop of its \<open>main\<close>, and the texts of errors (\<open>Display\<close> in \<open>conn.rs\<close>).
  \<^item> \<open>Tests_Proto\<close>, \<open>Tests_Handshake\<close>, \<open>Tests_Wire\<close>, \<open>Tests_Mask\<close>, \<open>Tests_Upgrade\<close>, \<open>Tests_Tls\<close>: the crate's own
    unit tests as predicates over the model, all of which hold. They check the model against what the authors
    expect of the code; where a test puts two ends on a network, it holds for every way the network cuts the
    bytes. The two tests that look at mask keys depend on the seed: \<open>Tests_Mask\<close> says for which keys they pass.
  \<^item> \<open>Conformance\<close>, \<open>Conformance_Cases\<close>, \<open>Conformance_Suite\<close> (\<open>tests/conformance.rs\<close>): the harness that frames,
    masks, decodes and feeds, with what comes out of it for every frame; the 58 cases; and that they hold, most
    of them as instances of a rule that is proved in general (a malformed sequence spoils any text around it,
    text is judged whole in any fragmentation, every close code is judged by the registry). \<open>Conformance_Conn\<close>:
    a server connection that receives the frames of a case reads what the harness delivers.
  \<^item> \<open>Bench\<close> (\<open>benches\<close>): the logic in the benchmarks. The copy of another crate's masking that they time computes
    the same bytes as the crate's for every alignment of the buffer; two sets of samples that are called
    different are disjoint.
  \<^item> This theory: a whole conversation with the echo server, across all of them.

  How the model corresponds to the code. Structs are records with a prefix per type (\<open>h_\<close> header, \<open>a_\<close>
  assembler, \<open>c_\<close> connection, \<open>u_\<close> URL), enums are datatypes, \<open>u8\<close> to \<open>u64\<close> are words and lengths of
  slices are naturals; a \<open>&str\<close> is its UTF-8 bytes. Operations on \<open>&mut self\<close> return the new state; an
  \<open>async\<close> function is modelled as the sequence of its effects, since nothing else touches a connection
  while one of its futures is polled. \<open>Result\<close> is a sum with the error on the left. A panic, or a loop
  that never ends, is the value \<open>None\<close> of an option around the result. What the build or the machine decides
  (byte order, allocator, UTF-8 validator, stream, seed of the mask generator) is an argument, mostly in
  the record \<open>env\<close>; properties hold for all of them.

  Loops: the parse loop and the loops of the specifications terminate by a measure, the bytes left. The
  loops over the transport (\<open>read\<close>, \<open>read_head\<close>, \<open>serve\<close>) may run forever over a stream that reports
  bytes it does not deliver; they are partial functions, and over a lossless transport they are proved to
  return. No fuel is used.

  Not modelled: \<open>nagoya\<close> (sockets, reactor, resolver), \<open>rustls\<close>, \<open>simdutf8\<close> and \<open>libc\<close>, which are not in
  the repository and are parameters; the capacity of the retained buffers beyond what reading depends on;
  the scheduling of the tasks the echo server spawns, which share nothing; \<open>lib.rs\<close> and \<open>proto.rs\<close>, which
  only re-export;
  \<open>examples/floor_probe.rs\<close> and the measuring parts of the benchmarks, which time system calls, sockets and
  other crates; of the unit tests, the two that ask the platform's resolver about \<open>localhost\<close> and the SHA-1
  vector of a million bytes.
\<close>

section \<open>Properties that span components\<close>

text \<open>C1: A whole conversation, from the handshake to the close, with the echo server. A client connects,
  writes any messages the limits allow and then a close; the server accepts, answers and ends. When each
  side reads exactly what the other wrote, both succeed, and the client reads back exactly the answers, in
  order: text and binary unchanged, a pong for each ping, nothing for a pong, and its own close, after
  which it sees a clean end. No byte order, chunking, allocator or transport makes a difference.\<close>

theorem echo_conversation:
  assumes "connection_env vc incc sentc" and "connection_env vs incs sents"
    and "ok_request path host protos extra entropy" and "ok_response (new_key entropy) None []"
    and "\<not> list_ex is_close ms"
    and "list_all (deliverable (v_utf8 vs) SERVE_LIMITS) (ms @ [MClose f])"
    and "list_all (deliverable (v_utf8 vc) lc) (echoes (ms @ [MClose f]))"
    and "connect vc seedc sc path host protos extra entropy lc = Some (Inr (cc, protocol), sc')"
    and "conn_write_all vc cc (ms @ [MClose f]) = Some (written, cc')"
    and "sentc (c_stream cc') = sentc sc @ incs ss"
    and "serve vs seeds ss = Some (served, ss')"
    and "sents ss' = sents ss @ incc sc"
  shows "protocol = None \<and> written = Inr () \<and> served = Inr ()
     \<and> (\<exists>cr cr'. conn_reads vc cc' (length (echoes (ms @ [MClose f]))) = Some (echoes (ms @ [MClose f]), cr)
         \<and> conn_read vc cr = Some (Inr None, cr'))"
proof -
  let ?ms = "ms @ [MClose f]"
  let ?es = "echoes ?ms"
  obtain st where client: "c_stream cc = sc'" "fresh Client lc cc"
    "sentc sc' = sentc sc @ build_request path host (new_key entropy) protos extra" "c_mask_state cc = st"
    using connect_fresh [OF assms(8)] connection_env.connect_sends [OF assms(1), of seedc sc path host protos extra entropy lc]
      assms(8) by auto
  have written: "written = Inr ()" "connection_env.sends vc incc sentc cc cc' ?ms"
    using connection_env.conn_write_all_sends [OF assms(1), of cc ?ms] assms(9) by auto
  note sends = written(2) [unfolded connection_env.sends_def [OF assms(1)]]
  have "incs ss = build_request path host (new_key entropy) protos extra @ fst (wire_messages vc Client st ?ms)"
    using sends client assms(10) by (simp add: fresh_def)
  from serve_echoes [OF assms(2,3,6,5) this, of seeds] assms(11,12)
  have server: "served = Inr ()" "incc sc = build_response (new_key entropy) None [] @ fst (wire_messages vs Server 0 ?es)"
    by auto
  from connection_env.connect_completes [OF assms(1,3,4) server(2), of seedc lc] assms(8)
  have "protocol = None" "connection_env.unread incc cc = fst (wire_messages vs Server 0 ?es)"
    by auto
  moreover have "connection_env.unread incc cc' = connection_env.unread incc cc"
    using sends by (simp add: connection_env.unread_def [OF assms(1)])
  moreover have "\<not> list_ex is_close (butlast ?es)" "list_ex is_close ?es"
    using assms(5) by (simp_all add: echoes_append echo_def echoes_close butlast_append is_close_def)
  moreover have "idle (c_assembler cc')" "a_limits (c_assembler cc') = lc" "Server \<noteq> c_role cc'"
    using sends client(2) by (simp_all add: fresh_def)
  ultimately obtain cr where cr: "conn_reads vc cc' (length ?es) = Some (?es, cr)" "connection_env.unread incc cr = []"
    "c_assembler cr = (c_assembler cc')\<lparr>a_closed := True\<rparr>"
    using connection_env.conn_reads_wire [OF assms(1), of cc' ?es Server vs 0] assms(7) by auto
  have "assembler_inv (c_assembler cr)"
    using cr(3) \<open>idle (c_assembler cc')\<close> by (simp add: idle_def assembler_inv_def)
  from connection_env.conn_read_end [OF assms(1) this cr(2)] show ?thesis
    using cr written(1) server(1) \<open>protocol = None\<close> by auto
qed

theorem echo_conversation_witness:
  "\<exists>client server cc sc' cc' ss' cr.
     connect (pipe_env Little Std) [1, 2] client (ascii ''/chat'') (ascii ''example.com'') [ascii ''mcp''] []
       (replicate 16 7) default_limits = Some (Inr (cc, None), sc')
     \<and> conn_write_all (pipe_env Little Std) cc [MText [104, 105], MPing [1], MClose None] = Some (Inr (), cc')
     \<and> serve (pipe_env Big Std) [] server = Some (Inr (), ss')
     \<and> pipe_incoming server = p_sent (c_stream cc') \<and> pipe_incoming client = p_sent ss'
     \<and> conn_reads (pipe_env Little Std) cc' 3 = Some ([MText [104, 105], MPong [1], MClose None], cr)"
proof -
  let ?vc = "pipe_env Little Std" and ?vs = "pipe_env Big Std"
  let ?ms = "[MText [104, 105], MPing [1]]"
  let ?answer = "build_response (new_key (replicate 16 7)) None []
      @ fst (wire_messages ?vs Server 0 (echoes (?ms @ [MClose None])))"
  let ?request = "build_request (ascii ''/chat'') (ascii ''example.com'') (new_key (replicate 16 7)) [ascii ''mcp''] []"
  let ?client = "\<lparr>p_pieces = [?answer], p_sent = []\<rparr>"
  have "pipe_incoming ?client = ?answer"
    by (simp add: pipe_incoming_def)
  from pipe_env.connect_completes [OF chat_request chat_response(2) this, of Little Std "[1, 2]" default_limits]
  obtain cc sc' where cc: "connect ?vc [1, 2] ?client (ascii ''/chat'') (ascii ''example.com'') [ascii ''mcp''] []
      (replicate 16 7) default_limits = Some (Inr (cc, None), sc')" "c_stream cc = sc'" "c_role cc = Client"
    "p_sent sc' = ?request"
    by (auto simp: fresh_def)
  obtain cc' where cc': "conn_write_all ?vc cc (?ms @ [MClose None]) = Some (Inr (), cc')"
    "p_sent (c_stream cc') = ?request @ fst (wire_messages ?vc Client (c_mask_state cc) (?ms @ [MClose None]))"
    using pipe_env.conn_write_all_sends [of Little Std cc "?ms @ [MClose None]"] cc(2-4)
    by (auto simp: pipe_env.sends_def)
  let ?server = "\<lparr>p_pieces = map (\<lambda>b. [b]) (p_sent (c_stream cc')), p_sent = []\<rparr>"
  have incoming: "pipe_incoming ?server = p_sent (c_stream cc')"
    by (simp add: pipe_incoming_def)
  have deliverable: "list_all (deliverable (v_utf8 ?vs) SERVE_LIMITS) (?ms @ [MClose None])"
    "list_all (deliverable (v_utf8 ?vc) default_limits) (echoes (?ms @ [MClose None]))"
    by (simp_all add: deliverable_def message_frame_def encode_close_body_def SERVE_LIMITS_def default_limits_def
      pipe_env_def utf8_valid.simps echo_def)
  have data: "\<not> list_ex is_close ?ms"
    by (simp add: is_close_def)
  have "pipe_incoming ?server = ?request @ fst (wire_messages ?vc Client (c_mask_state cc) (?ms @ [MClose None]))"
    unfolding incoming by (rule cc'(2))
  note serve = serve_echoes [where incoming = pipe_incoming and sent = p_sent and v = ?vs and stream = ?server
      and w = ?vc and st = "c_mask_state cc" and ms = ?ms and f = None and seed = "[]",
      OF pipe_env.connection_env_axioms chat_request deliverable(1) data this]
  from serve obtain ss' where ss': "serve ?vs [] ?server = Some (Inr (), ss')" "p_sent ss' = ?answer"
    by auto
  have "None = (None :: str option) \<and> Inr () = (Inr () :: conn_error + unit) \<and> Inr () = (Inr () :: conn_error + unit)
     \<and> (\<exists>cr cr'. conn_reads ?vc cc' (length (echoes (?ms @ [MClose None]))) = Some (echoes (?ms @ [MClose None]), cr)
         \<and> conn_read ?vc cr = Some (Inr None, cr'))"
    by (rule echo_conversation [OF pipe_env.connection_env_axioms pipe_env.connection_env_axioms chat_request
          chat_response(2) data deliverable cc(1) cc'(1) _ ss'(1)])
      (use incoming ss'(2) in \<open>simp_all add: pipe_incoming_def\<close>)
  then obtain cr where "conn_reads ?vc cc' 3 = Some ([MText [104, 105], MPong [1], MClose None], cr)"
    by (auto simp: echo_def numeral_3_eq_3)
  then show ?thesis
    using cc(1) cc'(1) ss' incoming
    by (intro exI [of _ ?client] exI [of _ ?server] exI [of _ cc] exI [of _ sc'] exI [of _ cc'] exI [of _ ss']
        exI [of _ cr]) (simp add: pipe_incoming_def)
qed

end
